(* ===== verification/Prelude.thy ===== *)
theory Prelude
  imports Main "HOL-Library.List_Lexorder" "HOL-Library.Char_ord" "HOL-Library.Product_Lexorder"
    "HOL-Library.AList" "HOL-Library.Multiset"
begin

text \<open>
  What every component shares.

  \<^item> Strings. A JavaScript string is modelled by the list of its UTF-8 bytes (\<open>string\<close>), so
    that \<open>TextEncoder.encode\<close> and \<open>TextDecoder.decode\<close> are the identity and a byte array
    (\<open>Uint8Array\<close>) has the same type. Comparison is the lexicographic order of the library.
  \<^item> Errors. Everything the code throws is a value of \<open>js_error\<close>; \<open>OutOfFuel\<close> is not an error of the
    code but the mark that a loop of the model reached its bound.
  \<^item> Effects. An \<open>async\<close> function is a function from a world to a result (\<open>Inl\<close> the error,
    \<open>Inr\<close> the value) and the next world; \<open>await\<close> is the sequencing of the source,
    \<open>catch_err\<close> its try/catch. A thrown error keeps the effects made before it.
  \<^item> A JavaScript \<open>Map\<close> or plain object is an association list in insertion order;
    \<open>Map.set\<close> is the library's \<open>AList.update\<close>, which keeps the position of a present key.
\<close>

named_theorems io_simps \<open>unfolding of the effect combinators\<close>

type_synonym bytes = string

datatype js_error =
    APIError nat string string
  | KeyVersionStaleError int
  | NotFoundError
  | NetworkError string
  | TypeErr string
  | JsError string
  | FileTooLargeError
  | MediaCorruptError
  | ImageOptimizeError
  | InvalidCharacterError
  | SyntaxErr
  | OperationErr
  | IdbError
  | AbortErr
  | OutOfFuel

section \<open>Effects\<close>

type_synonym ('w, 'a) io = "'w \<Rightarrow> (js_error + 'a) \<times> 'w"

definition ret :: "'a \<Rightarrow> ('w, 'a) io" where
  "ret x = (\<lambda>w. (Inr x, w))"

definition throw :: "js_error \<Rightarrow> ('w, 'a) io" where
  "throw e = (\<lambda>w. (Inl e, w))"

definition await :: "('w, 'a) io \<Rightarrow> ('a \<Rightarrow> ('w, 'b) io) \<Rightarrow> ('w, 'b) io" where
  "await m k = (\<lambda>w. case m w of (Inl e, w') \<Rightarrow> (Inl e, w') | (Inr x, w') \<Rightarrow> k x w')"

definition catch_err :: "('w, 'a) io \<Rightarrow> (js_error \<Rightarrow> ('w, 'a) io) \<Rightarrow> ('w, 'a) io" where
  "catch_err m h = (\<lambda>w. case m w of (Inl e, w') \<Rightarrow> h e w' | (Inr x, w') \<Rightarrow> (Inr x, w'))"

text \<open>A promise that is started and not awaited, its rejection handled by \<open>h\<close>; the model runs
  it to its end where it is started, one of the interleavings the event loop allows.\<close>

definition detached :: "('w, unit) io \<Rightarrow> (js_error \<Rightarrow> ('w, unit) io) \<Rightarrow> ('w, unit) io" where
  "detached m h = (\<lambda>w. (Inr (), snd (catch_err m h w)))"

fun for_each :: "'a list \<Rightarrow> ('a \<Rightarrow> ('w, unit) io) \<Rightarrow> ('w, unit) io" where
  "for_each [] f = ret ()"
| "for_each (x # xs) f = await (f x) (\<lambda>_. for_each xs f)"

fun fold_io :: "('a \<Rightarrow> 's \<Rightarrow> ('w, 's) io) \<Rightarrow> 'a list \<Rightarrow> 's \<Rightarrow> ('w, 's) io" where
  "fold_io f [] s = ret s"
| "fold_io f (x # xs) s = await (f x s) (fold_io f xs)"

lemma ret_app [io_simps]: "ret x w = (Inr x, w)"
  by (simp add: ret_def)

lemma throw_app [io_simps]: "throw e w = (Inl e, w)"
  by (simp add: throw_def)

lemma await_app [io_simps]:
  "await m k w = (case m w of (Inl e, w') \<Rightarrow> (Inl e, w') | (Inr x, w') \<Rightarrow> k x w')"
  by (simp add: await_def)

lemma catch_err_app [io_simps]:
  "catch_err m h w = (case m w of (Inl e, w') \<Rightarrow> h e w' | (Inr x, w') \<Rightarrow> (Inr x, w'))"
  by (simp add: catch_err_def)

lemma detached_app [io_simps]: "detached m h w = (Inr (), snd (catch_err m h w))"
  by (simp add: detached_def)

lemma io_result: "fst (m w) = r \<Longrightarrow> m w = (r, snd (m w))"
  by (metis prod.collapse)

lemma await_ret_left [simp]: "await (ret x) k = k x"
  by (simp add: await_def ret_def)

lemma await_throw [simp]: "await (throw e) k = throw e"
  by (simp add: await_def throw_def)

lemma await_assoc: "await (await m k) l = await m (\<lambda>x. await (k x) l)"
  by (auto simp: await_def fun_eq_iff split: prod.splits sum.splits)

text \<open>An effect that keeps a property of the world whatever it returns; the component proofs
  compose these facts along the code.\<close>

named_theorems keeps_intros \<open>preservation of a world property by the effect combinators\<close>

definition keeps :: "('w \<Rightarrow> bool) \<Rightarrow> ('w, 'a) io \<Rightarrow> bool" where
  "keeps Q m \<longleftrightarrow> (\<forall>w. Q w \<longrightarrow> Q (snd (m w)))"

lemma keepsI [intro?]: "(\<And>w. Q w \<Longrightarrow> Q (snd (m w))) \<Longrightarrow> keeps Q m"
  by (simp add: keeps_def)

lemma keepsD: "keeps Q m \<Longrightarrow> Q w \<Longrightarrow> Q (snd (m w))"
  by (simp add: keeps_def)

lemma keeps_ret [keeps_intros]: "keeps Q (ret x)"
  by (simp add: keeps_def ret_def)

lemma keeps_throw [keeps_intros]: "keeps Q (throw e)"
  by (simp add: keeps_def throw_def)

lemma keeps_await [keeps_intros]:
  "keeps Q m \<Longrightarrow> (\<And>x. keeps Q (k x)) \<Longrightarrow> keeps Q (await m k)"
  by (fastforce simp: keeps_def await_def split: prod.splits sum.splits)

lemma keeps_catch_err [keeps_intros]:
  "keeps Q m \<Longrightarrow> (\<And>e. keeps Q (h e)) \<Longrightarrow> keeps Q (catch_err m h)"
  by (fastforce simp: keeps_def catch_err_def split: prod.splits sum.splits)

lemma keeps_detached [keeps_intros]:
  "keeps Q m \<Longrightarrow> (\<And>e. keeps Q (h e)) \<Longrightarrow> keeps Q (detached m h)"
  using keeps_catch_err [of Q m h] by (simp add: keeps_def detached_def)

lemma keeps_for_each [keeps_intros]: "(\<And>x. keeps Q (f x)) \<Longrightarrow> keeps Q (for_each xs f)"
  by (induction xs) (auto intro: keeps_intros)

lemma keeps_fold_io [keeps_intros]: "(\<And>x s. keeps Q (f x s)) \<Longrightarrow> keeps Q (fold_io f xs s)"
  by (induction xs arbitrary: s) (auto intro: keeps_intros)

lemma keeps_if [keeps_intros]: "keeps Q m \<Longrightarrow> keeps Q n \<Longrightarrow> keeps Q (if b then m else n)"
  by simp

lemma keeps_result: "keeps Q m \<Longrightarrow> m w = (r, w') \<Longrightarrow> Q w \<Longrightarrow> Q w'"
  using keepsD [of Q m w] by simp

text \<open>An invariant of the accumulator of a loop.\<close>

lemma fold_io_inv:
  assumes "fold_io f xs s w = (Inr s', w')" and "J s"
    and "\<And>x s w s' w'. x \<in> set xs \<Longrightarrow> J s \<Longrightarrow> f x s w = (Inr s', w') \<Longrightarrow> J s'"
  shows "J s'"
  using assms
proof (induction xs arbitrary: s w)
  case (Cons x xs)
  then obtain s1 w1 where "f x s w = (Inr s1, w1)" "fold_io f xs s1 w1 = (Inr s', w')"
    by (auto simp: io_simps split: prod.splits sum.splits)
  with Cons show ?case by (metis list.set_intros)
qed (simp add: io_simps)

text \<open>A property of the traversed part of the list, the accumulator and the world.\<close>

lemma fold_io_prefix:
  assumes "fold_io f xs s w = (Inr s', w')" and "J ys s w"
    and "\<And>ys x s w s' w'. x \<in> set xs \<Longrightarrow> J ys s w \<Longrightarrow> f x s w = (Inr s', w') \<Longrightarrow> J (ys @ [x]) s' w'"
  shows "J (ys @ xs) s' w'"
  using assms
proof (induction xs arbitrary: ys s w)
  case (Cons x xs)
  then obtain s1 w1 where s1: "f x s w = (Inr s1, w1)" "fold_io f xs s1 w1 = (Inr s', w')"
    by (auto simp: io_simps split: prod.splits sum.splits)
  have "J ((ys @ [x]) @ xs) s' w'"
    using Cons.prems(3) by (intro Cons.IH [OF s1(2)]) (auto intro: Cons.prems(3) [OF _ Cons.prems(2) s1(1)])
  then show ?case by simp
qed (simp add: io_simps)

lemma await_Inr: "await m k w = (Inr y, w') \<longleftrightarrow> (\<exists>x w1. m w = (Inr x, w1) \<and> k x w1 = (Inr y, w'))"
  by (auto simp: await_def split: prod.splits sum.splits)

section \<open>Strings\<close>

text \<open>\<open>replace_all a b s\<close> is \<open>s.replace(/a/g, b)\<close> for one-character patterns.\<close>

definition replace_all :: "char \<Rightarrow> char \<Rightarrow> string \<Rightarrow> string" where
  "replace_all a b s = map (\<lambda>c. if c = a then b else c) s"

text \<open>\<open>strip_trailing c s\<close> is \<open>s.replace(/c+$/, '')\<close>.\<close>

definition strip_trailing :: "char \<Rightarrow> string \<Rightarrow> string" where
  "strip_trailing c s = rev (dropWhile (\<lambda>x. x = c) (rev s))"

definition starts_with :: "string \<Rightarrow> string \<Rightarrow> bool" where
  "starts_with p s \<longleftrightarrow> take (length p) s = p"

lemma starts_with_append [simp]: "starts_with p (p @ s)"
  by (simp add: starts_with_def)

lemma starts_with_Cons [simp]: "starts_with [c] (d # s) \<longleftrightarrow> c = d"
  by (auto simp: starts_with_def)

lemma strip_trailing_replicate [simp]:
  "s = [] \<or> last s \<noteq> c \<Longrightarrow> strip_trailing c (s @ replicate n c) = s"
proof -
  assume a: "s = [] \<or> last s \<noteq> c"
  have "dropWhile (\<lambda>x. x = c) (replicate n c @ rev s) = dropWhile (\<lambda>x. x = c) (rev s)"
    by (induction n) auto
  also have "\<dots> = rev s"
    using a by (cases s rule: rev_cases) auto
  finally show ?thesis by (simp add: strip_trailing_def)
qed

section \<open>Association lists as JavaScript maps\<close>

definition map_has :: "'k \<Rightarrow> ('k \<times> 'v) list \<Rightarrow> bool" where
  "map_has k m \<longleftrightarrow> map_of m k \<noteq> None"

lemma map_of_delete_all: "map_of (fold AList.delete ks al) k = (if k \<in> set ks then None else map_of al k)"
  by (induction ks arbitrary: al) (auto simp: delete_conv')

definition opt_or :: "'a option \<Rightarrow> 'a \<Rightarrow> 'a" where
  "opt_or x d = (case x of None \<Rightarrow> d | Some v \<Rightarrow> v)"

lemma opt_or_simps [simp]: "opt_or None d = d" "opt_or (Some v) d = v"
  by (simp_all add: opt_or_def)

lemma map_of_update: "map_of (AList.update k v m) = (map_of m)(k \<mapsto> v)"
  by (simp add: update_conv')

lemma map_of_update_app [simp]:
  "map_of (AList.update k v m) x = (if x = k then Some v else map_of m x)"
  by (simp add: map_of_update)

text \<open>\<open>push_to k x m\<close> is \<open>const l = m.get(k) ?? []; l.push(x); m.set(k, l)\<close>.\<close>

definition push_to :: "'k \<Rightarrow> 'a \<Rightarrow> ('k \<times> 'a list) list \<Rightarrow> ('k \<times> 'a list) list" where
  "push_to k x m = AList.update k (opt_or (map_of m k) [] @ [x]) m"

lemma map_of_push_to [simp]:
  "opt_or (map_of (push_to k x m) j) [] = opt_or (map_of m j) [] @ (if j = k then [x] else [])"
  by (simp add: push_to_def)

text \<open>Adding to a JavaScript \<open>Set\<close> keeps insertion order.\<close>

definition set_add :: "'a \<Rightarrow> 'a list \<Rightarrow> 'a list" where
  "set_add x s = (if x \<in> set s then s else s @ [x])"

lemma set_set_add [simp]: "set (set_add x s) = insert x (set s)"
  by (auto simp: set_add_def)

lemma distinct_set_add [simp]: "distinct (set_add x s) \<longleftrightarrow> distinct s"
  by (auto simp: set_add_def)

end
