(* ===== verification/Json.thy ===== *)
theory Json
  imports Prelude
begin

text \<open>
  \<open>JSON.stringify\<close> and \<open>JSON.parse\<close> of the language's standard library, which every wire format
  of the client goes through. Strings are UTF-8 bytes, so an escape \<open>\uXXXX\<close> (a surrogate pair
  included) decodes to the bytes of its code point. Integers are exact; a literal with a fraction
  or an exponent is a number too and is kept as its text. A repeated key of an object keeps its
  first position and its last value. The parser's fuel is bounded by the input's length; the
  result does not depend on it (\<open>p_value_fuel\<close>).
\<close>

datatype num = NInt int | NDec string

datatype json =
    JNull
  | JBool bool
  | JNum num
  | JStr string
  | JArr "json list"
  | JObj "(string \<times> json) list"

section \<open>Printing\<close>

definition digit :: "nat \<Rightarrow> char" where
  "digit n = char_of (48 + n)"

fun show_nat :: "nat \<Rightarrow> string" where
  "show_nat n = (if n < 10 then [digit n] else show_nat (n div 10) @ [digit (n mod 10)])"

declare show_nat.simps [simp del]

definition show_int :: "int \<Rightarrow> string" where
  "show_int i = (if i < 0 then ''-'' @ show_nat (nat (- i)) else show_nat (nat i))"

definition hexdigit :: "nat \<Rightarrow> char" where
  "hexdigit n = (if n < 10 then char_of (48 + n) else char_of (87 + n))"

definition quote_char :: "char \<Rightarrow> string" where
  "quote_char c =
     (if c = CHR 0x22 then [CHR 0x5C, CHR 0x22]
      else if c = CHR 0x5C then [CHR 0x5C, CHR 0x5C]
      else if c = CHR 0x08 then [CHR 0x5C, CHR ''b'']
      else if c = CHR 0x09 then [CHR 0x5C, CHR ''t'']
      else if c = CHR 0x0A then [CHR 0x5C, CHR ''n'']
      else if c = CHR 0x0C then [CHR 0x5C, CHR ''f'']
      else if c = CHR 0x0D then [CHR 0x5C, CHR ''r'']
      else if of_char c < (32::nat) then
        [CHR 0x5C, CHR ''u'', CHR ''0'', CHR ''0'', hexdigit (of_char c div 16), hexdigit (of_char c mod 16)]
      else [c])"

definition quote :: "string \<Rightarrow> string" where
  "quote s = CHR 0x22 # concat (map quote_char s) @ [CHR 0x22]"

fun show_num :: "num \<Rightarrow> string" where
  "show_num (NInt i) = show_int i"
| "show_num (NDec s) = s"

fun stringify :: "json \<Rightarrow> string"
  and show_elems :: "json list \<Rightarrow> string"
  and show_members :: "(string \<times> json) list \<Rightarrow> string" where
  "stringify JNull = ''null''"
| "stringify (JBool b) = (if b then ''true'' else ''false'')"
| "stringify (JNum n) = show_num n"
| "stringify (JStr s) = quote s"
| "stringify (JArr xs) = CHR ''['' # show_elems xs @ '']''"
| "stringify (JObj ms) = CHR ''{'' # show_members ms @ ''}''"
| "show_elems [] = []"
| "show_elems [x] = stringify x"
| "show_elems (x # y # xs) = stringify x @ CHR '','' # show_elems (y # xs)"
| "show_members [] = []"
| "show_members [(k, v)] = quote k @ CHR '':'' # stringify v"
| "show_members ((k, v) # m # ms) = quote k @ CHR '':'' # stringify v @ CHR '','' # show_members (m # ms)"

section \<open>Parsing\<close>

definition is_digit :: "char \<Rightarrow> bool" where
  "is_digit c \<longleftrightarrow> 48 \<le> (of_char c :: nat) \<and> (of_char c :: nat) \<le> 57"

definition digit_val :: "char \<Rightarrow> nat" where
  "digit_val c = of_char c - 48"

definition hexval :: "char \<Rightarrow> nat option" where
  "hexval c = (let n = of_char c in
     if 48 \<le> n \<and> n \<le> 57 then Some (n - 48)
     else if 97 \<le> n \<and> n \<le> 102 then Some (n - 87)
     else if 65 \<le> n \<and> n \<le> 70 then Some (n - 55) else None)"

definition utf8 :: "nat \<Rightarrow> string" where
  "utf8 cp =
     (if cp < 0x80 then [char_of cp]
      else if cp < 0x800 then [char_of (0xC0 + cp div 64), char_of (0x80 + cp mod 64)]
      else if cp < 0x10000 then
        [char_of (0xE0 + cp div 4096), char_of (0x80 + cp div 64 mod 64), char_of (0x80 + cp mod 64)]
      else [char_of (0xF0 + cp div 262144), char_of (0x80 + cp div 4096 mod 64),
            char_of (0x80 + cp div 64 mod 64), char_of (0x80 + cp mod 64)])"

fun hex4 :: "string \<Rightarrow> (nat \<times> string) option" where
  "hex4 (a # b # c # d # r) =
     (case (hexval a, hexval b, hexval c, hexval d) of
        (Some w, Some x, Some y, Some z) \<Rightarrow> Some (4096 * w + 256 * x + 16 * y + z, r)
      | _ \<Rightarrow> None)"
| "hex4 _ = None"

text \<open>The escape after \<open>\u\<close>: a high surrogate followed by an escaped low one is one code point.\<close>

definition low_surrogate :: "string \<Rightarrow> (nat \<times> string) option" where
  "low_surrogate r =
     (case r of b # u # r' \<Rightarrow>
        (if b = CHR 0x5C \<and> u = CHR ''u'' then
           (case hex4 r' of
              Some (lo, r'') \<Rightarrow> if 0xDC00 \<le> lo \<and> lo < 0xE000 then Some (lo, r'') else None
            | None \<Rightarrow> None)
         else None)
      | _ \<Rightarrow> None)"

definition p_unicode :: "string \<Rightarrow> (string \<times> string) option" where
  "p_unicode s =
     (case hex4 s of
        None \<Rightarrow> None
      | Some (cp, r) \<Rightarrow>
          (if 0xD800 \<le> cp \<and> cp < 0xDC00 then
             (case low_surrogate r of
                Some (lo, r') \<Rightarrow> Some (utf8 (0x10000 + (cp - 0xD800) * 0x400 + (lo - 0xDC00)), r')
              | None \<Rightarrow> Some (utf8 cp, r))
           else Some (utf8 cp, r)))"

definition simple_escape :: "char \<Rightarrow> char option" where
  "simple_escape e =
     (if e = CHR 0x22 \<or> e = CHR 0x5C \<or> e = CHR ''/'' then Some e
      else if e = CHR ''b'' then Some (CHR 0x08)
      else if e = CHR ''f'' then Some (CHR 0x0C)
      else if e = CHR ''n'' then Some (CHR 0x0A)
      else if e = CHR ''r'' then Some (CHR 0x0D)
      else if e = CHR ''t'' then Some (CHR 0x09) else None)"

lemma hex4_length: "hex4 s = Some (n, r) \<Longrightarrow> length r < length s"
  by (induction s rule: hex4.induct) (auto split: option.splits)

lemma low_surrogate_length: "low_surrogate s = Some (n, r) \<Longrightarrow> length r < length s"
  by (auto simp: low_surrogate_def split: list.splits if_splits option.splits dest: hex4_length)

lemma p_unicode_length: "p_unicode s = Some (t, r) \<Longrightarrow> length r < length s"
  by (auto simp: p_unicode_def split: option.splits if_splits dest!: hex4_length low_surrogate_length)

text \<open>The body of a string literal, after the opening quote.\<close>

function p_str :: "string \<Rightarrow> (string \<times> string) option" where
  "p_str [] = None"
| "p_str (c # s) =
     (if c = CHR 0x22 then Some ([], s)
      else if c = CHR 0x5C then
        (case s of
           [] \<Rightarrow> None
         | e # r \<Rightarrow>
             (if e = CHR ''u'' then
                (case p_unicode r of
                   None \<Rightarrow> None
                 | Some (t, r') \<Rightarrow> map_option (\<lambda>(u, q). (t @ u, q)) (p_str r'))
              else
                (case simple_escape e of
                   None \<Rightarrow> None
                 | Some d \<Rightarrow> map_option (\<lambda>(u, q). (d # u, q)) (p_str r))))
      else if of_char c < (32::nat) then None
      else map_option (\<lambda>(u, q). (c # u, q)) (p_str s))"
  by pat_completeness auto
termination
  by (relation "measure length") (auto dest: p_unicode_length)

definition is_ws :: "char \<Rightarrow> bool" where
  "is_ws c \<longleftrightarrow> c = CHR 0x20 \<or> c = CHR 0x09 \<or> c = CHR 0x0A \<or> c = CHR 0x0D"

definition skip_ws :: "string \<Rightarrow> string" where
  "skip_ws s = dropWhile is_ws s"

text \<open>The rest after white space and the character \<open>c\<close>.\<close>

definition expect :: "char \<Rightarrow> string \<Rightarrow> string option" where
  "expect c s = (case skip_ws s of [] \<Rightarrow> None | d # r \<Rightarrow> if d = c then Some r else None)"

definition nat_of_digits :: "string \<Rightarrow> nat" where
  "nat_of_digits ds = foldl (\<lambda>a c. 10 * a + digit_val c) 0 ds"

definition p_fraction :: "string \<Rightarrow> string \<times> string" where
  "p_fraction s =
     (case s of
        c # r \<Rightarrow> (if c = CHR ''.'' \<and> takeWhile is_digit r \<noteq> []
                then (c # takeWhile is_digit r, dropWhile is_digit r) else ([], s))
      | [] \<Rightarrow> ([], s))"

definition p_exponent :: "string \<Rightarrow> string \<times> string" where
  "p_exponent s =
     (case s of
        c # r \<Rightarrow>
          (let sg = (case r of d # _ \<Rightarrow> if d = CHR ''+'' \<or> d = CHR ''-'' then [d] else [] | [] \<Rightarrow> []);
               ds = drop (length sg) r
           in if (c = CHR ''e'' \<or> c = CHR ''E'') \<and> takeWhile is_digit ds \<noteq> []
              then (c # sg @ takeWhile is_digit ds, dropWhile is_digit ds) else ([], s))
      | [] \<Rightarrow> ([], s))"

definition p_num :: "string \<Rightarrow> (json \<times> string) option" where
  "p_num s =
     (let neg = starts_with ''-'' s; s1 = (if neg then tl s else s);
          ds = takeWhile is_digit s1; s2 = dropWhile is_digit s1
      in if ds = [] \<or> (hd ds = CHR ''0'' \<and> tl ds \<noteq> []) then None
         else
           (let (fr, s3) = p_fraction s2; (ex, s4) = p_exponent s3
            in if fr = [] \<and> ex = []
               then Some (JNum (NInt (if neg then - int (nat_of_digits ds) else int (nat_of_digits ds))), s2)
               else Some (JNum (NDec ((if neg then ''-'' else []) @ ds @ fr @ ex)), s4)))"

fun p_value :: "nat \<Rightarrow> string \<Rightarrow> (json \<times> string) option"
  and p_elems :: "nat \<Rightarrow> json list \<Rightarrow> string \<Rightarrow> (json \<times> string) option"
  and p_members :: "nat \<Rightarrow> (string \<times> json) list \<Rightarrow> string \<Rightarrow> (json \<times> string) option" where
  "p_value 0 s = None"
| "p_value (Suc n) s =
     (case skip_ws s of
        [] \<Rightarrow> None
      | c # r \<Rightarrow>
          (if c = CHR 0x22 then map_option (\<lambda>(t, q). (JStr t, q)) (p_str r)
           else if c = CHR ''{'' then
             (case expect (CHR ''}'') r of Some q \<Rightarrow> Some (JObj [], q) | None \<Rightarrow> p_members n [] r)
           else if c = CHR ''['' then
             (case expect (CHR '']'') r of Some q \<Rightarrow> Some (JArr [], q) | None \<Rightarrow> p_elems n [] r)
           else if starts_with ''true'' (c # r) then Some (JBool True, drop 3 r)
           else if starts_with ''false'' (c # r) then Some (JBool False, drop 4 r)
           else if starts_with ''null'' (c # r) then Some (JNull, drop 3 r)
           else p_num (c # r)))"
| "p_elems 0 acc s = None"
| "p_elems (Suc n) acc s =
     (case p_value n s of
        None \<Rightarrow> None
      | Some (v, r) \<Rightarrow>
          (case expect (CHR '','') r of
             Some q \<Rightarrow> p_elems n (acc @ [v]) q
           | None \<Rightarrow> map_option (\<lambda>q. (JArr (acc @ [v]), q)) (expect (CHR '']'') r)))"
| "p_members 0 acc s = None"
| "p_members (Suc n) acc s =
     (case expect (CHR 0x22) s of
        None \<Rightarrow> None
      | Some r1 \<Rightarrow>
          (case p_str r1 of
             None \<Rightarrow> None
           | Some (k, r2) \<Rightarrow>
               (case expect (CHR '':'') r2 of
                  None \<Rightarrow> None
                | Some r3 \<Rightarrow>
                    (case p_value n r3 of
                       None \<Rightarrow> None
                     | Some (v, r4) \<Rightarrow>
                         (case expect (CHR '','') r4 of
                            Some q \<Rightarrow> p_members n (AList.update k v acc) q
                          | None \<Rightarrow> map_option (\<lambda>q. (JObj (AList.update k v acc), q))
                                     (expect (CHR ''}'') r4))))))"

definition json_parse :: "string \<Rightarrow> json option" where
  "json_parse s =
     (case p_value (2 * length s + 2) s of
        Some (v, r) \<Rightarrow> if skip_ws r = [] then Some v else None
      | None \<Rightarrow> None)"

text \<open>Property reads on a parsed value: \<open>undefined\<close> is \<open>None\<close>; an array has none of the
  properties the client reads.\<close>

fun field :: "string \<Rightarrow> json \<Rightarrow> json option" where
  "field k (JObj ms) = map_of ms k"
| "field k _ = None"

fun is_object :: "json \<Rightarrow> bool" where
  "is_object (JObj _) = True"
| "is_object (JArr _) = True"
| "is_object _ = False"

definition str_field :: "string \<Rightarrow> json \<Rightarrow> string option" where
  "str_field k o' = (case field k o' of Some (JStr s) \<Rightarrow> Some s | _ \<Rightarrow> None)"

definition num_field :: "string \<Rightarrow> json \<Rightarrow> num option" where
  "num_field k o' = (case field k o' of Some (JNum n) \<Rightarrow> Some n | _ \<Rightarrow> None)"

definition bool_field :: "string \<Rightarrow> json \<Rightarrow> bool option" where
  "bool_field k o' = (case field k o' of Some (JBool b) \<Rightarrow> Some b | _ \<Rightarrow> None)"

definition obj_field :: "string \<Rightarrow> json \<Rightarrow> json option" where
  "obj_field k o' = (case field k o' of Some v \<Rightarrow> if is_object v then Some v else None | None \<Rightarrow> None)"

section \<open>Fuel\<close>

text \<open>Every parse consumes input, so the result does not depend on the fuel once there is more of
  it than twice the input's length.\<close>

lemma p_str_length: "p_str s = Some (t, r) \<Longrightarrow> length r < length s"
proof (induction s arbitrary: t r rule: p_str.induct)
  case (2 c s)
  then show ?case
    by (auto split: if_splits list.splits option.splits dest!: p_unicode_length)
       fastforce+
qed simp

lemma skip_ws_length: "length (skip_ws s) \<le> length s"
  by (simp add: skip_ws_def length_dropWhile_le)

lemma expect_length: "expect c s = Some r \<Longrightarrow> length r < length s"
  using skip_ws_length [of s] by (auto simp: expect_def split: list.splits if_splits)

lemma p_num_length: "p_num s = Some (v, r) \<Longrightarrow> length r < length s"
proof -
  assume p: "p_num s = Some (v, r)"
  define s1 where "s1 = (if starts_with ''-'' s then tl s else s)"
  have s1: "length s1 \<le> length s" by (simp add: s1_def)
  have ds: "takeWhile is_digit s1 \<noteq> []"
    using p by (auto simp: p_num_def Let_def s1_def split: if_splits)
  then have s2: "length (dropWhile is_digit s1) < length s1"
    by (cases s1) (auto simp: length_dropWhile_le less_Suc_eq_le split: if_splits)
  have fr: "length (snd (p_fraction t)) \<le> length t" for t
    by (auto simp: p_fraction_def length_dropWhile_le le_SucI split: list.splits)
  have ex: "length (snd (p_exponent t)) \<le> length t" for t
  proof (cases t)
    case (Cons c r)
    have "length (dropWhile is_digit (drop n r)) \<le> Suc (length r)" for n
      using length_dropWhile_le [of is_digit "drop n r"] by simp
    with Cons show ?thesis by (simp add: p_exponent_def Let_def)
  qed (simp add: p_exponent_def)
  have "length r \<le> length (dropWhile is_digit s1)"
    using p ds fr [of "dropWhile is_digit s1"] ex [of "snd (p_fraction (dropWhile is_digit s1))"]
    by (cases "starts_with ''-'' s") (auto simp: p_num_def Let_def s1_def split: if_splits prod.splits)
  with s1 s2 show ?thesis by simp
qed

lemma p_value_length:
  "p_value n s = Some (v, r) \<Longrightarrow> length r < length s"
  "p_elems n acc s = Some (v, r) \<Longrightarrow> length r < length s"
  "p_members n ms s = Some (v, r) \<Longrightarrow> length r < length s"
proof (induction n s and n acc s and n ms s arbitrary: v r and v r and v r
    rule: p_value_p_elems_p_members.induct)
  case (2 n s)
  obtain c q where q: "skip_ws s = c # q"
    using "2.prems" by (auto split: list.splits)
  then have len: "length q < length s"
    using skip_ws_length [of s] by simp
  consider "c = CHR 0x22" | "c = CHR ''{''" | "c = CHR ''[''"
    | "c \<noteq> CHR 0x22" "c \<noteq> CHR ''{''" "c \<noteq> CHR ''[''" by blast
  then show ?case
  proof cases
    case 1
    then show ?thesis using "2.prems" q len by (auto dest!: p_str_length)
  next
    case 2
    then show ?thesis using "2.prems" "2.IH"(1) [OF q] q len
      by (fastforce split: option.splits dest!: expect_length)
  next
    case 3
    then show ?thesis using "2.prems" "2.IH"(2) [OF q] q len
      by (fastforce split: option.splits dest!: expect_length)
  next
    case 4
    then show ?thesis using "2.prems" q len
      by (auto split: if_splits dest!: p_num_length)
  qed
next
  case (4 n acc s)
  then obtain w q where w: "p_value n s = Some (w, q)"
    by (auto split: option.splits)
  have len: "length q < length s" by (rule "4.IH"(1) [OF w])
  show ?case
  proof (cases "expect (CHR '','') q")
    case None
    with "4.prems" w len show ?thesis by (auto dest!: expect_length)
  next
    case (Some t)
    with "4.prems" w have "p_elems n (acc @ [w]) t = Some (v, r)" by simp
    from "4.IH"(2) [OF w refl Some this] expect_length [OF Some] len show ?thesis by simp
  qed
next
  case (6 n ms s)
  then obtain r1 k r2 r3 w r4 where
    *: "expect (CHR 0x22) s = Some r1" "p_str r1 = Some (k, r2)" "expect (CHR '':'') r2 = Some r3"
       "p_value n r3 = Some (w, r4)"
    by (auto split: option.splits)
  have len: "length r4 < length s"
    using expect_length [OF *(1)] p_str_length [OF *(2)] expect_length [OF *(3)]
      "6.IH"(1) [OF *(1,2) refl *(3,4)] by simp
  show ?case
  proof (cases "expect (CHR '','') r4")
    case None
    with "6.prems" * len show ?thesis by (auto dest!: expect_length)
  next
    case (Some t)
    with "6.prems" * have "p_members n (AList.update k w ms) t = Some (v, r)" by simp
    from "6.IH"(2) [OF *(1,2) refl *(3,4) refl Some this] expect_length [OF Some] len
    show ?thesis by simp
  qed
qed simp_all

lemma p_value_fuel:
  "2 * length s + 1 \<le> n \<Longrightarrow> 2 * length s + 1 \<le> m \<Longrightarrow> p_value n s = p_value m s"
  "2 * length s + 2 \<le> n \<Longrightarrow> 2 * length s + 2 \<le> m \<Longrightarrow> p_elems n acc s = p_elems m acc s"
  "2 * length s + 2 \<le> n \<Longrightarrow> 2 * length s + 2 \<le> m \<Longrightarrow> p_members n ms s = p_members m ms s"
proof (induction n s and n acc s and n ms s arbitrary: m and m and m
    rule: p_value_p_elems_p_members.induct)
  case (2 n s)
  obtain m' where m: "m = Suc m'" using "2.prems" by (cases m) auto
  show ?case
  proof (cases "skip_ws s")
    case Nil
    with m show ?thesis by simp
  next
    case (Cons c q)
    then have "length q < length s" using skip_ws_length [of s] by simp
    then have "2 * length q + 2 \<le> n" "2 * length q + 2 \<le> m'" using "2.prems" m by auto
    with 2(1,2) [OF Cons, of m'] Cons m show ?thesis
      by (auto split: option.splits)
  qed
next
  case (4 n acc s)
  obtain m' where m: "m = Suc m'" using "4.prems" by (cases m) auto
  have v: "p_value n s = p_value m' s" using "4.prems" "4.IH"(1) [of m'] m by simp
  have "p_elems n (acc @ [w]) t = p_elems m' (acc @ [w]) t"
    if "p_value n s = Some (w, q)" "expect (CHR '','') q = Some t" for w q t
  proof -
    have "length t < length s" using p_value_length(1) [OF that(1)] expect_length [OF that(2)] by simp
    then show ?thesis using "4.IH"(2) [OF that(1) refl that(2), of m'] "4.prems" m by simp
  qed
  with v m show ?case by (auto split: option.splits)
next
  case (6 n ms s)
  obtain m' where m: "m = Suc m'" using "6.prems" by (cases m) auto
  have v: "p_value n r3 = p_value m' r3"
    if *: "expect (CHR 0x22) s = Some r1" "p_str r1 = Some (k, r2)" "expect (CHR '':'') r2 = Some r3"
    for r1 k r2 r3
  proof -
    have "length r3 < length s"
      using expect_length [OF *(1)] p_str_length [OF *(2)] expect_length [OF *(3)] by simp
    then show ?thesis using "6.IH"(1) [OF *(1,2) refl *(3), of m'] "6.prems" m by simp
  qed
  have "p_members n (AList.update k w ms) t = p_members m' (AList.update k w ms) t"
    if *: "expect (CHR 0x22) s = Some r1" "p_str r1 = Some (k, r2)" "expect (CHR '':'') r2 = Some r3"
       "p_value n r3 = Some (w, r4)" "expect (CHR '','') r4 = Some t"
    for r1 k r2 r3 w r4 t
  proof -
    have "length t < length s"
      using expect_length [OF *(1)] p_str_length [OF *(2)] expect_length [OF *(3)]
        p_value_length(1) [OF *(4)] expect_length [OF *(5)] by simp
    then show ?thesis using "6.IH"(2) [OF *(1,2) refl *(3,4) refl *(5), of m'] "6.prems" m by simp
  qed
  with v m show ?case by (auto split: option.splits)
qed auto

section \<open>Parsing what was printed\<close>

lemma p_str_quote_char: "p_str (quote_char c @ s) = map_option (\<lambda>(u, q). (c # u, q)) (p_str s)"
proof (cases "of_char c < (32::nat) \<and> c \<notin> {CHR 0x08, CHR 0x09, CHR 0x0A, CHR 0x0C, CHR 0x0D}")
  case True
  define n where "n = (of_char c :: nat)"
  have n: "n < 32" using True by (simp add: n_def)
  have hex: "hexval (hexdigit k) = Some k" if "k < 16" for k
  proof -
    have "k < 10 \<or> 10 \<le> k \<and> k < 16" using that by auto
    then show ?thesis by (auto simp: hexval_def hexdigit_def Let_def)
  qed
  have "hexval (CHR ''0'') = Some 0" by (simp add: hexval_def)
  then have "hex4 (CHR ''0'' # CHR ''0'' # hexdigit (n div 16) # hexdigit (n mod 16) # s) = Some (n, s)"
    using hex [of "n div 16"] hex [of "n mod 16"] n by simp
  then have "p_unicode (CHR ''0'' # CHR ''0'' # hexdigit (n div 16) # hexdigit (n mod 16) # s)
      = Some ([char_of n], s)"
    using n by (simp add: p_unicode_def utf8_def)
  moreover have "char_of n = c" by (simp add: n_def)
  ultimately show ?thesis
    using True by (auto simp: quote_char_def simple_escape_def n_def [symmetric] split: option.splits)
next
  case False
  then show ?thesis
    by (auto simp: quote_char_def simple_escape_def split: option.splits)
qed

lemma p_str_concat: "p_str (concat (map quote_char s) @ CHR 0x22 # r) = Some (s, r)"
  by (induction s) (simp_all add: p_str_quote_char)

lemma digit_digit: "n < 10 \<Longrightarrow> is_digit (digit n) \<and> digit_val (digit n) = n"
  by (simp add: is_digit_def digit_def digit_val_def)

lemma digit_zero: "n < 10 \<Longrightarrow> digit n = CHR ''0'' \<longleftrightarrow> n = 0"
proof -
  assume n: "n < 10"
  have "digit n = CHR ''0'' \<longleftrightarrow> (of_char (digit n) :: nat) = of_char (CHR ''0'')"
    by (simp only: of_char_eq_iff)
  also have "\<dots> \<longleftrightarrow> n = 0" using n by (simp add: digit_def)
  finally show ?thesis .
qed

lemma nat_of_digits_snoc: "nat_of_digits (ds @ [c]) = 10 * nat_of_digits ds + digit_val c"
  by (simp add: nat_of_digits_def)

lemma show_nat_props:
  "show_nat n \<noteq> [] \<and> (\<forall>c \<in> set (show_nat n). is_digit c) \<and> nat_of_digits (show_nat n) = n \<and>
   (hd (show_nat n) = CHR ''0'' \<longrightarrow> n = 0) \<and> (n < 10 \<longrightarrow> tl (show_nat n) = [])"
proof (induction n rule: show_nat.induct)
  case (1 n)
  show ?case
  proof (cases "n < 10")
    case True
    then show ?thesis
      by (simp add: show_nat.simps [of n] nat_of_digits_def digit_digit digit_zero)
  next
    case False
    with 1 have IH: "show_nat (n div 10) \<noteq> []" "\<forall>c \<in> set (show_nat (n div 10)). is_digit c"
      "nat_of_digits (show_nat (n div 10)) = n div 10" "hd (show_nat (n div 10)) = CHR ''0'' \<longrightarrow> n div 10 = 0"
      by auto
    with False show ?thesis
      by (auto simp: show_nat.simps [of n] nat_of_digits_snoc digit_digit)
  qed
qed

definition num_stop :: "string \<Rightarrow> bool" where
  "num_stop r \<longleftrightarrow> (case r of [] \<Rightarrow> True | c # _ \<Rightarrow> \<not> is_digit c \<and> c \<noteq> CHR ''.'' \<and> c \<noteq> CHR ''e'' \<and> c \<noteq> CHR ''E'')"

lemma p_num_show_int:
  assumes "num_stop r"
  shows "p_num (show_int i @ r) = Some (JNum (NInt i), r)"
proof -
  define n where "n = nat \<bar>i\<bar>"
  note sn = show_nat_props [of n]
  have stop: "takeWhile is_digit r = []" "dropWhile is_digit r = r"
    using assms by (auto simp: num_stop_def split: list.splits)
  have tw: "takeWhile is_digit (show_nat n @ r) = show_nat n" "dropWhile is_digit (show_nat n @ r) = r"
    using sn stop by (auto simp: takeWhile_append2 dropWhile_append2)
  have fr: "p_fraction r = ([], r)" "p_exponent r = ([], r)"
    using assms by (auto simp: p_fraction_def p_exponent_def num_stop_def Let_def split: list.splits)
  obtain c u where cu: "show_nat n = c # u" using sn by (cases "show_nat n") auto
  have c: "is_digit c" using sn cu by auto
  then have minus: "c \<noteq> CHR ''-''" by (auto simp: is_digit_def)
  have lead: "hd (show_nat n) = CHR ''0'' \<Longrightarrow> tl (show_nat n) = []"
    using sn by auto
  show ?thesis
  proof (cases "i < 0")
    case True
    then have "show_int i = CHR ''-'' # show_nat n" by (simp add: show_int_def n_def)
    moreover have "- int n = i" using True by (simp add: n_def)
    ultimately show ?thesis
      using tw fr sn lead by (auto simp: p_num_def Let_def)
  next
    case False
    then have i: "show_int i = show_nat n" "int n = i" by (simp_all add: show_int_def n_def)
    have "\<not> starts_with ''-'' (show_nat n @ r)" using cu minus by simp
    with i tw fr sn lead show ?thesis by (auto simp: p_num_def Let_def)
  qed
qed

fun json_wf :: "json \<Rightarrow> bool" where
  "json_wf (JNum (NDec _)) = False"
| "json_wf (JArr xs) = (\<forall>x \<in> set xs. json_wf x)"
| "json_wf (JObj ms) = (distinct (map fst ms) \<and> (\<forall>m \<in> set ms. json_wf (snd m)))"
| "json_wf _ = True"

lemma update_new: "k \<notin> fst ` set m \<Longrightarrow> AList.update k v m = m @ [(k, v)]"
  by (induction m) auto

lemma is_digit_ws: "is_digit c \<Longrightarrow> \<not> is_ws c"
  by (auto simp: is_digit_def is_ws_def)

lemma show_int_head:
  obtains c u where "show_int i = c # u" "is_digit c \<or> c = CHR ''-''"
proof (cases "i < 0")
  case True
  then show ?thesis using that by (simp add: show_int_def)
next
  case False
  then show ?thesis using that show_nat_props [of "nat i"]
    by (cases "show_nat (nat i)") (auto simp: show_int_def)
qed

lemma stringify_head:
  assumes "json_wf v"
  obtains c u where "stringify v = c # u" "\<not> is_ws c" "c \<noteq> CHR '']''"
proof -
  have "\<exists>c u. stringify v = c # u \<and> \<not> is_ws c \<and> c \<noteq> CHR '']''"
  proof (cases v)
    case (JNum m)
    then obtain i where m: "m = NInt i" using assms by (cases m) auto
    obtain c u where "show_int i = c # u" "is_digit c \<or> c = CHR ''-''" by (rule show_int_head)
    moreover have "is_digit c \<Longrightarrow> c \<noteq> CHR '']''" by (auto simp: is_digit_def)
    ultimately show ?thesis using JNum m by (auto simp: is_digit_ws) (simp_all add: is_ws_def)
  qed (auto simp: is_ws_def quote_def)
  then show ?thesis using that by blast
qed

lemma skip_ws_stringify: "json_wf v \<Longrightarrow> skip_ws (stringify v @ r) = stringify v @ r"
  by (erule stringify_head [of v]) (simp add: skip_ws_def)

lemma expect_hit [simp]: "\<not> is_ws c \<Longrightarrow> expect c (c # r) = Some r"
  by (simp add: expect_def skip_ws_def)

lemma expect_miss [simp]: "\<not> is_ws d \<Longrightarrow> d \<noteq> c \<Longrightarrow> expect c (d # r) = None"
  by (simp add: expect_def skip_ws_def)

lemma expect_stringify: "json_wf v \<Longrightarrow> expect (CHR '']'') (stringify v @ r) = None"
  by (erule stringify_head [of v]) simp

lemma is_ws_marks [simp]:
  "\<not> is_ws (CHR '','')" "\<not> is_ws (CHR '':'')" "\<not> is_ws (CHR ''['')" "\<not> is_ws (CHR '']'')"
  "\<not> is_ws (CHR ''{'')" "\<not> is_ws (CHR ''}'')" "\<not> is_ws (CHR 0x22)"
  by (simp_all add: is_ws_def)

lemma num_stop_marks [simp]:
  "num_stop []" "num_stop (CHR '','' # r)" "num_stop (CHR '']'' # r)" "num_stop (CHR ''}'' # r)"
  by (simp_all add: num_stop_def is_digit_def)

lemma show_elems_head: "xs \<noteq> [] \<Longrightarrow> \<exists>u. show_elems xs = stringify (hd xs) @ u"
  by (cases xs rule: show_elems.cases) auto

lemma show_members_head: "ms \<noteq> [] \<Longrightarrow> \<exists>u. show_members ms = CHR 0x22 # u"
  by (cases ms rule: show_members.cases) (auto simp: quote_def)

lemma p_members_entry:
  "p_value n (stringify v @ t) = Some (v, t) \<Longrightarrow>
   p_members (Suc n) acc (quote k @ CHR '':'' # stringify v @ t) =
     (case expect (CHR '','') t of
        Some q \<Rightarrow> p_members n (AList.update k v acc) q
      | None \<Rightarrow> map_option (\<lambda>q. (JObj (AList.update k v acc), q)) (expect (CHR ''}'') t))"
  by (simp add: quote_def p_str_concat)

lemma p_num_value:
  assumes "num_stop r"
  shows "p_value (Suc n) (show_int i @ r) = Some (JNum (NInt i), r)"
proof -
  obtain c u where c: "show_int i = c # u" "is_digit c \<or> c = CHR ''-''" by (rule show_int_head)
  then have "c \<noteq> CHR 0x22 \<and> c \<noteq> CHR ''{'' \<and> c \<noteq> CHR ''['' \<and> c \<noteq> CHR ''t'' \<and> c \<noteq> CHR ''f'' \<and> c \<noteq> CHR ''n''"
    by (auto simp: is_digit_def)
  moreover have "skip_ws (show_int i @ r) = show_int i @ r"
    using c is_digit_ws [of c] by (auto simp: skip_ws_def is_ws_def)
  moreover have "p_num (show_int i @ r) = Some (JNum (NInt i), r)" by (rule p_num_show_int [OF assms])
  ultimately show ?thesis using c(1) by (simp add: starts_with_def)
qed

lemma p_value_stringify:
  "json_wf v \<Longrightarrow> 2 * length (stringify v @ r) + 1 \<le> n \<Longrightarrow> num_stop r \<Longrightarrow>
     p_value n (stringify v @ r) = Some (v, r)"
  "xs \<noteq> [] \<Longrightarrow> \<forall>x \<in> set xs. json_wf x \<Longrightarrow> 2 * length (show_elems xs @ CHR '']'' # r) + 2 \<le> n \<Longrightarrow>
     p_elems n xacc (show_elems xs @ CHR '']'' # r) = Some (JArr (xacc @ xs), r)"
  "ms \<noteq> [] \<Longrightarrow> \<forall>m \<in> set ms. json_wf (snd m) \<Longrightarrow> distinct (map fst (acc @ ms)) \<Longrightarrow>
     2 * length (show_members ms @ CHR ''}'' # r) + 2 \<le> n \<Longrightarrow>
     p_members n acc (show_members ms @ CHR ''}'' # r) = Some (JObj (acc @ ms), r)"
proof (induction v and xs and ms arbitrary: n r and n r xacc and n r acc
    rule: stringify_show_elems_show_members.induct)
  case (3 m)
  then obtain k where "n = Suc k" by (cases n) auto
  moreover obtain i where "m = NInt i" using 3 by (cases m) auto
  ultimately show ?case using p_num_value 3 by simp
next
  case (4 s)
  then obtain k where "n = Suc k" by (cases n) auto
  then show ?case by (simp add: quote_def skip_ws_def p_str_concat)
next
  case (5 xs)
  then obtain k where k: "n = Suc k" by (cases n) auto
  show ?case
  proof (cases "xs = []")
    case True
    with k show ?thesis by (simp add: skip_ws_def)
  next
    case False
    obtain u where "show_elems xs = stringify (hd xs) @ u" using show_elems_head [OF False] by blast
    then have "expect (CHR '']'') (show_elems xs @ CHR '']'' # r) = None"
      using expect_stringify 5(2) False by simp
    with 5 False k show ?thesis by (simp add: skip_ws_def)
  qed
next
  case (6 ms)
  then obtain k where k: "n = Suc k" by (cases n) auto
  show ?case
  proof (cases "ms = []")
    case True
    with k show ?thesis by (simp add: skip_ws_def)
  next
    case False
    obtain u where u: "show_members ms = CHR 0x22 # u" using show_members_head [OF False] by blast
    then have "expect (CHR ''}'') (show_members ms @ CHR ''}'' # r) = None" by simp
    with 6 False k show ?thesis by (simp add: skip_ws_def)
  qed
next
  case (8 x)
  then obtain k where "n = Suc k" by (cases n) auto
  with 8 show ?case by simp
next
  case (9 x y xs)
  then obtain k where "n = Suc k" by (cases n) auto
  with 9 show ?case by simp
next
  case (11 k v)
  then obtain j where j: "n = Suc j" by (cases n) auto
  with 11 have "p_value j (stringify v @ CHR ''}'' # r) = Some (v, CHR ''}'' # r)" by simp
  with j 11 show ?case by (simp add: p_members_entry update_new del: p_members.simps)
next
  case (12 k v m ms)
  then obtain j where j: "n = Suc j" by (cases n) auto
  define t where "t = CHR '','' # show_members (m # ms) @ CHR ''}'' # r"
  have "p_value j (stringify v @ t) = Some (v, t)" using 12 j by (simp add: t_def)
  moreover have "p_members j (acc @ [(k, v)]) (show_members (m # ms) @ CHR ''}'' # r) =
      Some (JObj ((acc @ [(k, v)]) @ m # ms), r)"
    using 12 j by (intro 12(2)) auto
  ultimately show ?case using 12 j by (simp add: p_members_entry update_new t_def del: p_members.simps)
qed (auto simp: skip_ws_def is_ws_def starts_with_def gr0_conv_Suc dest!: Suc_le_D)

theorem json_roundtrip: "json_wf v \<Longrightarrow> json_parse (stringify v) = Some v"
  using p_value_stringify(1) [of v "[]" "2 * length (stringify v) + 2"]
  by (simp add: json_parse_def skip_ws_def)

lemma json_wf_simps_fields [simp]:
  "str_field k (JObj ms) = (case map_of ms k of Some (JStr s) \<Rightarrow> Some s | _ \<Rightarrow> None)"
  "num_field k (JObj ms) = (case map_of ms k of Some (JNum n) \<Rightarrow> Some n | _ \<Rightarrow> None)"
  "bool_field k (JObj ms) = (case map_of ms k of Some (JBool b) \<Rightarrow> Some b | _ \<Rightarrow> None)"
  by (simp_all add: str_field_def num_field_def bool_field_def)

end
