(* ===== verification/Base64.thy ===== *)
theory Base64
  imports Json
begin

text \<open>
  Binary to text: \<open>btoa\<close> and \<open>atob\<close> of the platform, \<open>base64UrlEncode\<close> and
  \<open>base64UrlDecode\<close> of web/src/lib/crypto.ts, and the interface \<open>codec\<close> every encoder and
  decoder pair of the client is an instance of (JSON, base64, base64url here; the key-backup
  envelope and the wire payloads in their own theories). Decoding an invalid text is \<open>None\<close>: the
  source throws there.
\<close>

section \<open>The contract of an encoder and its decoder\<close>

locale codec =
  fixes valid :: "'a \<Rightarrow> bool"
    and enc :: "'a \<Rightarrow> 'b"
    and dec :: "'b \<Rightarrow> 'a option"
  assumes dec_enc: "valid x \<Longrightarrow> dec (enc x) = Some x"
begin

lemma enc_inj: "valid x \<Longrightarrow> valid y \<Longrightarrow> enc x = enc y \<longleftrightarrow> x = y"
  by (metis dec_enc option.inject)

lemma map_dec_enc: "\<forall>x \<in> set xs. valid x \<Longrightarrow> map (\<lambda>y. dec y) (map enc xs) = map Some xs"
  by (induction xs) (auto simp: dec_enc)

end

locale codec_chain = first: codec valid enc dec + second: codec valid2 enc2 dec2
  for valid :: "'a \<Rightarrow> bool" and enc :: "'a \<Rightarrow> 'b" and dec :: "'b \<Rightarrow> 'a option"
    and valid2 :: "'b \<Rightarrow> bool" and enc2 :: "'b \<Rightarrow> 'c" and dec2 :: "'c \<Rightarrow> 'b option" +
  assumes valid_enc: "valid x \<Longrightarrow> valid2 (enc x)"
begin

lemma chain_roundtrip: "valid x \<Longrightarrow> Option.bind (dec2 (enc2 (enc x))) dec = Some x"
  by (simp add: second.dec_enc first.dec_enc valid_enc)

end

sublocale codec_chain \<subseteq> chain: codec valid "\<lambda>x. enc2 (enc x)" "\<lambda>y. Option.bind (dec2 y) dec"
  by unfold_locales (rule chain_roundtrip)

interpretation json_codec: codec json_wf stringify json_parse
  by unfold_locales (rule json_roundtrip)

section \<open>btoa and atob\<close>

lemma of_char_div [simp]:
  "of_char c div 4 < (64::nat)" "of_char c div 16 < (16::nat)" "of_char c div 64 < (4::nat)"
  using nat_of_char_less_256 [of c] by (auto intro!: less_mult_imp_div_less simp del: nat_of_char_less_256)

definition b64_char :: "nat \<Rightarrow> char" where
  "b64_char n =
     (if n < 26 then char_of (65 + n) else if n < 52 then char_of (71 + n)
      else if n < 62 then char_of (n - 4) else if n = 62 then CHR ''+'' else CHR ''/'')"

definition b64_val :: "char \<Rightarrow> nat option" where
  "b64_val c = (let n = of_char c in
     if 65 \<le> n \<and> n \<le> 90 then Some (n - 65)
     else if 97 \<le> n \<and> n \<le> 122 then Some (n - 71)
     else if 48 \<le> n \<and> n \<le> 57 then Some (n + 4)
     else if n = 43 then Some 62 else if n = 47 then Some 63 else None)"

fun sextets :: "bytes \<Rightarrow> nat list" where
  "sextets (a # b # c # r) =
     (let x = of_char a; y = of_char b; z = of_char c
      in (x div 4) # (x mod 4 * 16 + y div 16) # (y mod 16 * 4 + z div 64) # (z mod 64) # sextets r)"
| "sextets [a, b] = (let x = of_char a; y = of_char b
      in [x div 4, x mod 4 * 16 + y div 16, y mod 16 * 4])"
| "sextets [a] = (let x = of_char a in [x div 4, x mod 4 * 16])"
| "sextets [] = []"

fun unsextets :: "nat list \<Rightarrow> bytes" where
  "unsextets (p # q # r # s # t) =
     char_of (p * 4 + q div 16) # char_of (q mod 16 * 16 + r div 4) # char_of (r mod 4 * 64 + s) # unsextets t"
| "unsextets [p, q, r] = [char_of (p * 4 + q div 16), char_of (q mod 16 * 16 + r div 4)]"
| "unsextets [p, q] = [char_of (p * 4 + q div 16)]"
| "unsextets _ = []"

definition pad4 :: "nat \<Rightarrow> string" where
  "pad4 n = replicate ((4 - n mod 4) mod 4) (CHR ''='')"

definition btoa :: "bytes \<Rightarrow> string" where
  "btoa b = map b64_char (sextets b) @ pad4 (length (sextets b))"

definition is_html_ws :: "char \<Rightarrow> bool" where
  "is_html_ws c \<longleftrightarrow> is_ws c \<or> c = CHR 0x0C"

definition drop_pad :: "string \<Rightarrow> string" where
  "drop_pad s =
     (if length s mod 4 = 0 \<and> s \<noteq> [] \<and> last s = CHR ''='' then
        (if butlast s \<noteq> [] \<and> last (butlast s) = CHR ''='' then butlast (butlast s) else butlast s)
      else s)"

definition atob :: "string \<Rightarrow> bytes option" where
  "atob s =
     (let t = drop_pad (filter (\<lambda>c. \<not> is_html_ws c) s); vs = map b64_val t
      in if length t mod 4 = 1 \<or> None \<in> set vs then None else Some (unsextets (map the vs)))"

lemma b64_val_char: "n < 64 \<Longrightarrow> b64_val (b64_char n) = Some n"
proof -
  assume "n < 64"
  then have "n < 26 \<or> 26 \<le> n \<and> n < 52 \<or> 52 \<le> n \<and> n < 62 \<or> n = 62 \<or> n = 63" by auto
  then show ?thesis by (auto simp: b64_val_def b64_char_def Let_def)
qed

lemma b64_char_not: "n < 64 \<Longrightarrow> \<not> is_html_ws (b64_char n) \<and> b64_char n \<noteq> CHR ''=''"
proof -
  assume "n < 64"
  then have v: "b64_val (b64_char n) = Some n" by (rule b64_val_char)
  have "b64_val c = None" if "is_html_ws c \<or> c = CHR ''=''" for c
    using that by (auto simp: b64_val_def is_html_ws_def is_ws_def Let_def)
  with v show ?thesis by fastforce
qed

lemma sextet_join: "(x::nat) < 4 \<Longrightarrow> y < 16 \<Longrightarrow> x * 16 + y < 64" "(x::nat) < 16 \<Longrightarrow> y < 4 \<Longrightarrow> x * 4 + y < 64"
  by simp_all

lemma sextets_bound: "n \<in> set (sextets b) \<Longrightarrow> n < 64"
proof (induction b rule: sextets.induct)
  case (1 a b c r)
  then show ?case by (auto simp: Let_def sextet_join)
next
  case (2 a b)
  have "(of_char b mod 16 * 4 :: nat) < 64" by simp
  with 2 show ?case by (auto simp: Let_def sextet_join)
qed (auto simp: Let_def)

lemma sextets_length: "length (sextets b) mod 4 \<noteq> 1"
  by (induction b rule: sextets.induct) (auto simp: Let_def)

lemma unsextets_sextets: "unsextets (sextets b) = b"
  by (induction b rule: sextets.induct) (simp_all add: Let_def add.commute)

lemma drop_pad_pad4:
  assumes "CHR ''='' \<notin> set s" and "length s mod 4 \<noteq> 1"
  shows "drop_pad (s @ pad4 (length s)) = s"
proof -
  have last: "s = [] \<or> last s \<noteq> CHR ''=''" using assms(1) by (metis last_in_set)
  have "length s mod 4 = 0 \<or> length s mod 4 = 2 \<or> length s mod 4 = 3"
    using assms(2) by presburger
  then consider "length s mod 4 = 0" | "length s mod 4 = 2" | "length s mod 4 = 3" by auto
  then show ?thesis
  proof cases
    case 1
    then show ?thesis using last by (auto simp: pad4_def drop_pad_def)
  next
    case 2
    then have "pad4 (length s) = [CHR ''='', CHR ''='']" "(length s + 2) mod 4 = 0"
      by (simp_all add: pad4_def numeral_2_eq_2) presburger
    then show ?thesis by (simp add: drop_pad_def butlast_append)
  next
    case 3
    then have "pad4 (length s) = [CHR ''='']" "(length s + 1) mod 4 = 0"
      by (simp_all add: pad4_def) presburger
    moreover have "s \<noteq> []" using 3 by auto
    ultimately show ?thesis using last by (simp add: drop_pad_def butlast_append)
  qed
qed

lemma b64_text:
  assumes "\<forall>n \<in> set ns. n < 64"
  shows "CHR ''='' \<notin> set (map b64_char ns)"
    and "filter (\<lambda>c. \<not> is_html_ws c) (map b64_char ns) = map b64_char ns"
    and "map b64_val (map b64_char ns) = map Some ns"
  using assms by (induction ns) (auto simp: b64_char_not b64_val_char dest: b64_char_not)

lemma filter_pad4: "filter (\<lambda>c. \<not> is_html_ws c) (pad4 n) = pad4 n"
  by (simp add: pad4_def is_html_ws_def is_ws_def)

text \<open>Any padding-complete spelling of sextets decodes.\<close>

lemma atob_padded:
  assumes "\<forall>n \<in> set ns. n < 64" and "length ns mod 4 \<noteq> 1"
  shows "atob (map b64_char ns @ pad4 (length ns)) = Some (unsextets ns)"
proof -
  have "drop_pad (map b64_char ns @ pad4 (length ns)) = map b64_char ns"
    using drop_pad_pad4 [of "map b64_char ns"] b64_text(1) [OF assms(1)] assms(2) by simp
  then have "drop_pad (filter (\<lambda>c. \<not> is_html_ws c) (map b64_char ns @ pad4 (length ns))) = map b64_char ns"
    by (simp only: filter_append b64_text(2) [OF assms(1)] filter_pad4)
  moreover have "None \<notin> set (map Some ns)" by auto
  moreover have "map the (map Some ns) = ns" by (simp add: comp_def)
  ultimately show ?thesis
    using assms(2) by (simp only: atob_def Let_def b64_text(3) [OF assms(1)]) simp
qed

lemma atob_btoa: "atob (btoa b) = Some b"
  using sextets_bound sextets_length by (simp add: btoa_def atob_padded unsextets_sextets)

interpretation b64: codec "\<lambda>_. True" btoa atob
  by unfold_locales (rule atob_btoa)

section \<open>web/src/lib/crypto.ts: base64url\<close>

definition base64UrlEncode :: "bytes \<Rightarrow> string" where
  "base64UrlEncode b =
     strip_trailing (CHR ''='') (replace_all (CHR ''/'') (CHR ''_'') (replace_all (CHR ''+'') (CHR ''-'') (btoa b)))"

definition base64UrlDecode :: "string \<Rightarrow> bytes option" where
  "base64UrlDecode s =
     (let b64 = replace_all (CHR ''_'') (CHR ''/'') (replace_all (CHR ''-'') (CHR ''+'') s);
          pad = replicate ((4 - length b64 mod 4) mod 4) (CHR ''='')
      in atob (b64 @ pad))"

definition url_char :: "char \<Rightarrow> char" where
  "url_char c = (if c = CHR ''+'' then CHR ''-'' else if c = CHR ''/'' then CHR ''_'' else c)"

definition url_alphabet :: "char \<Rightarrow> bool" where
  "url_alphabet c \<longleftrightarrow> (let n = of_char c :: nat in
     65 \<le> n \<and> n \<le> 90 \<or> 97 \<le> n \<and> n \<le> 122 \<or> 48 \<le> n \<and> n \<le> 57) \<or> c = CHR ''-'' \<or> c = CHR ''_''"

lemma replace_url: "replace_all (CHR ''/'') (CHR ''_'') (replace_all (CHR ''+'') (CHR ''-'') s) = map url_char s"
  by (simp add: replace_all_def url_char_def comp_def)

lemma url_char_pad: "url_char c = CHR ''='' \<longleftrightarrow> c = CHR ''=''"
  by (simp add: url_char_def)

lemma base64UrlEncode_eq: "base64UrlEncode b = map url_char (map b64_char (sextets b))"
proof -
  define t where "t = map url_char (map b64_char (sextets b))"
  have "CHR ''='' \<notin> set t"
    by (auto simp: t_def url_char_pad dest!: sextets_bound b64_char_not sym [of "CHR ''=''"])
  then have t: "t = [] \<or> last t \<noteq> CHR ''=''" by (metis last_in_set)
  have "map url_char (pad4 n) = pad4 n" for n by (simp add: pad4_def url_char_def)
  then have "base64UrlEncode b = strip_trailing (CHR ''='') (t @ pad4 (length (sextets b)))"
    by (simp only: base64UrlEncode_def replace_url btoa_def map_append t_def)
  with t show ?thesis by (simp only: pad4_def strip_trailing_replicate t_def)
qed

lemma url_char_back:
  "n < 64 \<Longrightarrow> (if url_char (b64_char n) = CHR ''_'' then CHR ''/''
     else if url_char (b64_char n) = CHR ''-'' then CHR ''+'' else url_char (b64_char n)) = b64_char n"
proof -
  assume "n < 64"
  then have v: "b64_val (b64_char n) = Some n" by (rule b64_val_char)
  have "b64_val (CHR ''_'') = None" "b64_val (CHR ''-'') = None" by (simp_all add: b64_val_def)
  then have "b64_char n \<noteq> CHR ''_''" "b64_char n \<noteq> CHR ''-''" using v by auto
  then show ?thesis by (auto simp: url_char_def)
qed

definition std_char :: "char \<Rightarrow> char" where
  "std_char c = (if c = CHR ''-'' then CHR ''+'' else if c = CHR ''_'' then CHR ''/'' else c)"

lemma replace_std: "replace_all (CHR ''_'') (CHR ''/'') (replace_all (CHR ''-'') (CHR ''+'') s) = map std_char s"
  by (simp add: replace_all_def std_char_def comp_def)

lemma std_url_char: "n < 64 \<Longrightarrow> std_char (url_char (b64_char n)) = b64_char n"
  using url_char_back [of n] by (auto simp: std_char_def)

lemma base64UrlDecode_Encode: "base64UrlDecode (base64UrlEncode b) = Some b"
proof -
  have "map std_char (base64UrlEncode b) = map b64_char (sextets b)"
    by (simp add: base64UrlEncode_eq std_url_char sextets_bound)
  then show ?thesis
    using atob_padded [of "sextets b"] sextets_bound sextets_length
    by (simp add: base64UrlDecode_def replace_std Let_def pad4_def unsextets_sextets)
qed

lemma base64UrlEncode_alphabet: "c \<in> set (base64UrlEncode b) \<Longrightarrow> url_alphabet c"
proof -
  assume "c \<in> set (base64UrlEncode b)"
  then obtain n where n: "n < 64" "c = url_char (b64_char n)"
    by (auto simp: base64UrlEncode_eq dest: sextets_bound)
  then have "n < 26 \<or> 26 \<le> n \<and> n < 52 \<or> 52 \<le> n \<and> n < 62 \<or> n = 62 \<or> n = 63" by auto
  then show ?thesis using n(2)
    by (auto simp: url_char_def b64_char_def url_alphabet_def Let_def)
qed

interpretation b64url: codec "\<lambda>_. True" base64UrlEncode base64UrlDecode
  by unfold_locales (rule base64UrlDecode_Encode)

end
