(* ===== verification/Paths.thy ===== *)
theory Paths
  imports Base64
begin

text \<open>
  web/src/lib/paths.ts (the S3 keys and prefixes), \<open>conversationId\<close> of
  web/src/lib/messaging.ts and the peer lookup of web/src/hooks/useConversations.ts.
\<close>

definition objectNameSafe :: "string \<Rightarrow> string" where
  "objectNameSafe sid =
     strip_trailing (CHR ''='')
       (replace_all (CHR ''/'') (CHR ''_'') (replace_all (CHR ''+'') (CHR ''-'') sid))"

definition path_profile :: "string \<Rightarrow> string" where
  "path_profile uid = ''users/'' @ uid @ ''/profile.json''"

definition path_device :: "string \<Rightarrow> string \<Rightarrow> string" where
  "path_device uid did = ''users/'' @ uid @ ''/devices/'' @ did @ ''.json''"

definition path_handle :: "string \<Rightarrow> string" where
  "path_handle h = ''handles/'' @ h @ ''.json''"

definition path_contacts :: "string \<Rightarrow> string" where
  "path_contacts uid = ''users/'' @ uid @ ''/contacts.json''"

definition path_readMarkers :: "string \<Rightarrow> string" where
  "path_readMarkers uid = ''users/'' @ uid @ ''/read-markers.json''"

definition path_user :: "string \<Rightarrow> string" where
  "path_user uid = ''users/'' @ uid @ ''/''"

definition path_devices :: "string \<Rightarrow> string" where
  "path_devices uid = ''users/'' @ uid @ ''/devices/''"

definition path_inboxLive :: "string \<Rightarrow> string" where
  "path_inboxLive uid = ''inbox/'' @ uid @ ''/live/''"

definition path_inboxArchive :: "string \<Rightarrow> string" where
  "path_inboxArchive uid = ''inbox/'' @ uid @ ''/archive/''"

definition path_keysLive :: "string \<Rightarrow> string" where
  "path_keysLive uid = ''keys/'' @ uid @ ''/live/''"

definition path_keysArchive :: "string \<Rightarrow> string" where
  "path_keysArchive uid = ''keys/'' @ uid @ ''/archive/''"

definition path_keyBackup :: "string \<Rightarrow> string \<Rightarrow> string" where
  "path_keyBackup uid sid = ''keys/'' @ uid @ ''/live/'' @ objectNameSafe sid"

definition path_keyChain :: "string \<Rightarrow> string" where
  "path_keyChain uid = ''keys/'' @ uid @ ''/key_chain.json''"

definition path_media :: "string \<Rightarrow> string \<Rightarrow> string" where
  "path_media uid u = ''media/'' @ uid @ ''/'' @ u"

section \<open>Object names of key backups\<close>

lemma objectNameSafe_btoa: "objectNameSafe (btoa b) = base64UrlEncode b"
  by (simp add: objectNameSafe_def base64UrlEncode_def)

lemma objectNameSafe_unpadded: "objectNameSafe (strip_trailing (CHR ''='') (btoa b)) = base64UrlEncode b"
proof -
  have pad: "strip_trailing (CHR ''='') (map b64_char ns @ pad4 n) = map b64_char ns"
    if "\<forall>n \<in> set ns. n < 64" for ns n
    using b64_text(1) [OF that] unfolding pad4_def
    by (intro strip_trailing_replicate) (metis last_in_set)
  have "strip_trailing (CHR ''='') (map url_char (map b64_char (sextets b))) = map url_char (map b64_char (sextets b))"
  proof -
    have "CHR ''='' \<notin> set (map url_char (map b64_char (sextets b)))"
      by (auto simp: url_char_pad dest!: sextets_bound b64_char_not sym [of "CHR ''=''"])
    then show ?thesis
      using strip_trailing_replicate [of "map url_char (map b64_char (sextets b))" "CHR ''=''" 0]
      by (metis append_Nil2 last_in_set replicate_0)
  qed
  then show ?thesis
    by (simp add: objectNameSafe_def btoa_def pad sextets_bound replace_url base64UrlEncode_eq del: map_map)
qed

text \<open>The object name a session's key backup is stored under is made of letters, digits,
  \<open>-\<close> and \<open>_\<close> only (no \<open>/\<close> that would split or void the S3 key), whether the session id
  carries its base64 padding or not, and it determines the session: two sessions never share a
  backup object.\<close>

lemma key_backup_object_name:
  "objectNameSafe (btoa b) = base64UrlEncode b
   \<and> objectNameSafe (strip_trailing (CHR ''='') (btoa b)) = base64UrlEncode b
   \<and> list_all url_alphabet (objectNameSafe (btoa b))
   \<and> (path_keyBackup u (btoa b) = path_keyBackup u (btoa c) \<longleftrightarrow> b = c)"
  using base64UrlEncode_alphabet b64url.enc_inj
  by (auto simp: objectNameSafe_btoa objectNameSafe_unpadded path_keyBackup_def list_all_iff)

section \<open>Conversation ids\<close>

definition conversationId :: "string \<Rightarrow> string \<Rightarrow> string" where
  "conversationId userA userB =
     (if userA = userB then ''self:'' @ userA
      else (case sort [userA, userB] of
              [a, b] \<Rightarrow> ''dm:'' @ a @ '':'' @ b
            | _ \<Rightarrow> []))"

fun split_on :: "char \<Rightarrow> string \<Rightarrow> string list" where
  "split_on c [] = [[]]"
| "split_on c (x # xs) =
     (if x = c then [] # split_on c xs
      else (case split_on c xs of h # t \<Rightarrow> (x # h) # t | [] \<Rightarrow> [[x]]))"

text \<open>\<open>parts[1] === userId ? parts[2] : parts[1]\<close>; a missing part is \<open>undefined\<close>.\<close>

definition nth_opt :: "'a list \<Rightarrow> nat \<Rightarrow> 'a option" where
  "nth_opt xs i = (if i < length xs then Some (xs ! i) else None)"

definition peerUserId :: "string \<Rightarrow> string \<Rightarrow> string option" where
  "peerUserId userId convId =
     (let parts = split_on (CHR '':'') convId
      in if nth_opt parts 1 = Some userId then nth_opt parts 2 else nth_opt parts 1)"

lemma split_on_no: "c \<notin> set a \<Longrightarrow> split_on c a = [a]"
  by (induction a) auto

lemma split_on_sep: "c \<notin> set a \<Longrightarrow> split_on c (a @ c # r) = a # split_on c r"
  by (induction a) auto

lemma conversationId_dm:
  "a < b \<Longrightarrow> conversationId a b = ''dm:'' @ a @ '':'' @ b \<and> conversationId b a = ''dm:'' @ a @ '':'' @ b"
  by (auto simp: conversationId_def)

lemma conversationId_split:
  assumes "a < b" and "CHR '':'' \<notin> set a" and "CHR '':'' \<notin> set b"
  shows "split_on (CHR '':'') (''dm:'' @ a @ '':'' @ b) = [''dm'', a, b]"
  using split_on_sep [of "CHR '':''" "''dm''" "a @ '':'' @ b"] split_on_sep [of "CHR '':''" a b]
    split_on_no [of "CHR '':''" b] assms by simp

lemma conversationId_commute: "conversationId a b = conversationId b a"
  by (cases a b rule: linorder_cases) (auto simp: conversationId_dm)

lemma conversationId_parts:
  assumes "CHR '':'' \<notin> set a" and "CHR '':'' \<notin> set b"
  shows "split_on (CHR '':'') (conversationId a b) =
    (if a = b then [''self'', a] else if a < b then [''dm'', a, b] else [''dm'', b, a])"
proof (cases a b rule: linorder_cases)
  case equal
  then show ?thesis
    using split_on_sep [of "CHR '':''" "''self''" a] split_on_no [OF assms(1)]
    by (simp add: conversationId_def)
qed (use assms conversationId_split in \<open>auto simp: conversationId_dm\<close>)

text \<open>A conversation id does not depend on who computes it, and for user ids without a
  colon it determines the unordered pair of users, so two different pairs never share a
  conversation.\<close>

lemma conversationId_determines_pair:
  assumes "CHR '':'' \<notin> set a \<union> set b \<union> set c \<union> set d"
  shows "conversationId a b = conversationId b a
    \<and> (conversationId a b = conversationId c d \<longleftrightarrow> {a, b} = {c, d})"
proof
  show "conversationId a b = conversationId b a" by (rule conversationId_commute)
  show "conversationId a b = conversationId c d \<longleftrightarrow> {a, b} = {c, d}"
  proof
    assume "conversationId a b = conversationId c d"
    then have "split_on (CHR '':'') (conversationId a b) = split_on (CHR '':'') (conversationId c d)" by simp
    then show "{a, b} = {c, d}"
      using assms by (auto simp: conversationId_parts split: if_splits)
  next
    assume "{a, b} = {c, d}"
    then show "conversationId a b = conversationId c d"
      by (auto simp: doubleton_eq_iff conversationId_commute)
  qed
qed

text \<open>The chat list recovers the peer of a direct conversation from its id, on both
  devices of the pair.\<close>

lemma peerUserId_conversationId:
  assumes "CHR '':'' \<notin> set me" and "CHR '':'' \<notin> set peer" and "me \<noteq> peer"
  shows "peerUserId me (conversationId me peer) = Some peer
    \<and> peerUserId peer (conversationId me peer) = Some me"
  using assms by (auto simp: peerUserId_def conversationId_parts nth_opt_def Let_def)

end
