(* ===== verification/Media.thy ===== *)
theory Media
  imports Paths
begin

text \<open>
  The pure part of web/src/lib/media.ts: the size cap, the optional wire fields, the image
  sniffing of decrypted bytes, the file-name guess and the download-name sanitizer; and the
  white space of the language's \<open>trim\<close> and \<open>\s\<close>, which the sanitizer and the chat preview use.
\<close>

section \<open>White space\<close>

text \<open>The UTF-8 spellings of the white space and line terminators of the language outside
  ASCII: U+00A0, U+1680, U+2000 to U+200A, U+2028, U+2029, U+202F, U+205F, U+3000, U+FEFF.\<close>

definition wide_spaces :: "string list" where
  "wide_spaces =
     [
      [CHR 0xC2, CHR 0xA0], [CHR 0xE1, CHR 0x9A, CHR 0x80],
      [CHR 0xE2, CHR 0x80, CHR 0x80], [CHR 0xE2, CHR 0x80, CHR 0x81],
      [CHR 0xE2, CHR 0x80, CHR 0x82], [CHR 0xE2, CHR 0x80, CHR 0x83],
      [CHR 0xE2, CHR 0x80, CHR 0x84], [CHR 0xE2, CHR 0x80, CHR 0x85],
      [CHR 0xE2, CHR 0x80, CHR 0x86], [CHR 0xE2, CHR 0x80, CHR 0x87],
      [CHR 0xE2, CHR 0x80, CHR 0x88], [CHR 0xE2, CHR 0x80, CHR 0x89],
      [CHR 0xE2, CHR 0x80, CHR 0x8A], [CHR 0xE2, CHR 0x80, CHR 0xA8],
      [CHR 0xE2, CHR 0x80, CHR 0xA9], [CHR 0xE2, CHR 0x80, CHR 0xAF],
      [CHR 0xE2, CHR 0x81, CHR 0x9F], [CHR 0xE3, CHR 0x80, CHR 0x80],
      [CHR 0xEF, CHR 0xBB, CHR 0xBF]]"

definition ascii_space :: "char \<Rightarrow> bool" where
  "ascii_space c \<longleftrightarrow> c = CHR 0x20 \<or> (9 \<le> (of_char c :: nat) \<and> (of_char c :: nat) \<le> 13)"

text \<open>The length of the white space character at the head of the text, 0 when there is none.\<close>

definition ws_len :: "string \<Rightarrow> nat" where
  "ws_len s =
     (case s of
        [] \<Rightarrow> 0
      | c # _ \<Rightarrow>
          (if ascii_space c then 1
           else if of_char c < (0x80 :: nat) then 0
           else (case find (\<lambda>w. starts_with w s) wide_spaces of Some w \<Rightarrow> length w | None \<Rightarrow> 0)))"

definition ws_len_end :: "string \<Rightarrow> nat" where
  "ws_len_end s =
     (case rev s of
        [] \<Rightarrow> 0
      | c # _ \<Rightarrow>
          (if ascii_space c then 1
           else if of_char c < (0x80 :: nat) then 0
           else (case find (\<lambda>w. starts_with (rev w) (rev s)) wide_spaces of Some w \<Rightarrow> length w | None \<Rightarrow> 0)))"

lemma ws_len_le: "ws_len s \<le> length s"
proof -
  have "length w \<le> length s" if "starts_with w s" for w
    using that by (metis length_take min.cobounded1 starts_with_def)
  then show ?thesis
    by (auto simp: ws_len_def find_Some_iff split: list.splits option.splits)
qed

function trim_start :: "string \<Rightarrow> string" where
  "trim_start s = (if ws_len s = 0 then s else trim_start (drop (ws_len s) s))"
  by pat_completeness auto
termination
proof (relation "measure length", goal_cases)
  case (2 s)
  then have "s \<noteq> []" by (auto simp: ws_len_def)
  with 2 show ?case by simp
qed simp

function trim_end :: "string \<Rightarrow> string" where
  "trim_end s = (if ws_len_end s = 0 then s else trim_end (take (length s - ws_len_end s) s))"
  by pat_completeness auto
termination
proof (relation "measure length", goal_cases)
  case (2 s)
  then have "s \<noteq> []" by (auto simp: ws_len_end_def)
  with 2 show ?case by simp
qed simp

declare trim_start.simps [simp del] trim_end.simps [simp del]

definition trim :: "string \<Rightarrow> string" where
  "trim s = trim_end (trim_start s)"

text \<open>\<open>s.replace(/\s+/g, ' ')\<close>: every maximal run of white space becomes one space.\<close>

lemma trim_start_length: "length (trim_start s) \<le> length s"
proof (induction s rule: trim_start.induct)
  case (1 s)
  then show ?case by (cases "ws_len s = 0") (auto simp: trim_start.simps [of s])
qed

lemma trim_start_less: "ws_len s \<noteq> 0 \<Longrightarrow> length (trim_start s) < length s"
proof -
  assume a: "ws_len s \<noteq> 0"
  then have "s \<noteq> []" by (auto simp: ws_len_def)
  then have "length (drop (ws_len s) s) < length s" using a by simp
  moreover have "trim_start s = trim_start (drop (ws_len s) s)" using a by (simp add: trim_start.simps [of s])
  ultimately show ?thesis using trim_start_length [of "drop (ws_len s) s"] by simp
qed

function collapse_ws :: "string \<Rightarrow> string" where
  "collapse_ws [] = []"
| "collapse_ws (c # s) =
     (if ws_len (c # s) = 0 then c # collapse_ws s
      else CHR 0x20 # collapse_ws (trim_start (c # s)))"
  by pat_completeness auto
termination
  by (relation "measure length") (auto dest: trim_start_less [of "c # s" for c s, simplified])

lemma set_trim_start: "set (trim_start s) \<subseteq> set s"
proof (induction s rule: trim_start.induct)
  case (1 s)
  then show ?case
    by (cases "ws_len s = 0") (auto simp: trim_start.simps [of s] dest: in_set_dropD)
qed

lemma trim_end_prefix: "\<exists>k. trim_end s = take k s"
proof (induction s rule: trim_end.induct)
  case (1 s)
  show ?case
  proof (cases "ws_len_end s = 0")
    case True
    then show ?thesis by (metis order_refl take_all trim_end.simps)
  next
    case False
    then obtain k where "trim_end s = take k (take (length s - ws_len_end s) s)"
      using 1 by (auto simp: trim_end.simps [of s])
    then show ?thesis by (metis take_take)
  qed
qed

lemma set_trim: "set (trim s) \<subseteq> set s"
  by (metis order_trans set_take_subset set_trim_start trim_def trim_end_prefix)

lemma length_trim: "length (trim s) \<le> length s"
  by (metis dual_order.trans length_take min.cobounded1 trim_def trim_end_prefix trim_start_length)

lemma collapse_ws_chars:
  "c \<in> set (collapse_ws s) \<Longrightarrow> c = CHR 0x20 \<or> c \<in> set s \<and> \<not> ascii_space c"
proof (induction s rule: collapse_ws.induct)
  case (2 d s)
  show ?case
  proof (cases "ws_len (d # s) = 0")
    case True
    then have "\<not> ascii_space d" by (auto simp: ws_len_def)
    with True 2 show ?thesis by auto
  next
    case False
    with 2 show ?thesis using set_trim_start [of "d # s"] by auto
  qed
qed simp

section \<open>The media types\<close>

definition MAX_MEDIA_BYTES :: nat where
  "MAX_MEDIA_BYTES = 25 * 1024 * 1024"

record media_extras =
  me_mime :: "string option"
  me_width :: "num option"
  me_height :: "num option"
  me_optimized :: "bool option"

record decoded_preview =
  dp_url :: string
  dp_key :: bytes
  dp_iv :: bytes
  dp_width :: num
  dp_height :: num

record media_file =
  mf_url :: string
  mf_key :: bytes
  mf_iv :: bytes
  mf_name :: string
  mf_size :: num
  mf_extras :: media_extras
  mf_preview :: "decoded_preview option"

section \<open>Sniffing\<close>

datatype inline_mime = ImagePng | ImageJpeg | ImageGif | ImageWebp

fun mime_text :: "inline_mime \<Rightarrow> string" where
  "mime_text ImagePng = ''image/png''"
| "mime_text ImageJpeg = ''image/jpeg''"
| "mime_text ImageGif = ''image/gif''"
| "mime_text ImageWebp = ''image/webp''"

definition byte_at :: "bytes \<Rightarrow> nat \<Rightarrow> nat" where
  "byte_at b i = of_char (b ! i)"

definition sniffInlineImageMime :: "bytes \<Rightarrow> inline_mime option" where
  "sniffInlineImageMime b =
     (if length b < 12 then None
      else if byte_at b 0 = 0x89 \<and> byte_at b 1 = 0x50 \<and> byte_at b 2 = 0x4e \<and> byte_at b 3 = 0x47
            \<and> byte_at b 4 = 0x0d \<and> byte_at b 5 = 0x0a \<and> byte_at b 6 = 0x1a \<and> byte_at b 7 = 0x0a
        then Some ImagePng
      else if byte_at b 0 = 0xff \<and> byte_at b 1 = 0xd8 \<and> byte_at b 2 = 0xff then Some ImageJpeg
      else if byte_at b 0 = 0x47 \<and> byte_at b 1 = 0x49 \<and> byte_at b 2 = 0x46 \<and> byte_at b 3 = 0x38
            \<and> (byte_at b 4 = 0x37 \<or> byte_at b 4 = 0x39) \<and> byte_at b 5 = 0x61
        then Some ImageGif
      else if byte_at b 0 = 0x52 \<and> byte_at b 1 = 0x49 \<and> byte_at b 2 = 0x46 \<and> byte_at b 3 = 0x46
            \<and> byte_at b 8 = 0x57 \<and> byte_at b 9 = 0x45 \<and> byte_at b 10 = 0x42 \<and> byte_at b 11 = 0x50
        then Some ImageWebp
      else None)"

definition lower_char :: "char \<Rightarrow> char" where
  "lower_char c = (if 65 \<le> (of_char c :: nat) \<and> (of_char c :: nat) \<le> 90 then char_of (of_char c + 32 :: nat) else c)"

definition ends_with :: "string \<Rightarrow> string \<Rightarrow> bool" where
  "ends_with p s \<longleftrightarrow> starts_with (rev p) (rev s)"

text \<open>\<open>/\.(jpe?g|png|gif|webp|avif|bmp)$/i\<close>.\<close>

definition isLikelyImage :: "string \<Rightarrow> bool" where
  "isLikelyImage name =
     list_ex (\<lambda>e. ends_with e (map lower_char name))
       [''.jpg'', ''.jpeg'', ''.png'', ''.gif'', ''.webp'', ''.avif'', ''.bmp'']"

section \<open>Download names\<close>

definition is_cont :: "char \<Rightarrow> bool" where
  "is_cont c \<longleftrightarrow> 0x80 \<le> (of_char c :: nat) \<and> (of_char c :: nat) < 0xC0"

definition seq_len :: "char \<Rightarrow> nat" where
  "seq_len c = (let n = (of_char c :: nat) in
     if n < 0x80 then 1 else if n < 0xE0 then 2 else if n < 0xF0 then 3 else 4)"

text \<open>\<open>TextDecoder.decode\<close> of a cut text gives U+FFFD for the incomplete last character, which
  the source's \<open>replace\<close> removes together with any U+FFFD before it.\<close>

definition drop_incomplete :: "bytes \<Rightarrow> string" where
  "drop_incomplete b =
     (let n = length (takeWhile is_cont (rev b)); k = length b - n
      in if k = 0 then [] else if n + 1 < seq_len (b ! (k - 1)) then take (k - 1) b else b)"

function strip_fffd :: "string \<Rightarrow> string" where
  "strip_fffd s =
     (if ends_with ([CHR 0xEF, CHR 0xBF, CHR 0xBD]) s then strip_fffd (take (length s - 3) s) else s)"
  by pat_completeness auto
termination
proof (relation "measure length", goal_cases)
  case (2 s)
  then have "s \<noteq> []" by (auto simp: ends_with_def starts_with_def)
  then show ?case by simp
qed simp

declare strip_fffd.simps [simp del]

definition name_char_ok :: "char \<Rightarrow> bool" where
  "name_char_ok c \<longleftrightarrow> c \<noteq> CHR ''/'' \<and> c \<noteq> CHR 0x5C \<and> 0x20 \<le> (of_char c :: nat) \<and> (of_char c :: nat) \<noteq> 0x7F"

definition sanitizeDownloadFilename :: "string \<Rightarrow> string" where
  "sanitizeDownloadFilename name =
     (let s = trim (dropWhile (\<lambda>c. c = CHR ''.'') (filter name_char_ok name))
      in if s = [] then ''download''
         else if length s \<le> 255 then s
         else strip_fffd (drop_incomplete (take 255 s)))"

lemma strip_fffd_prefix: "\<exists>k. strip_fffd s = take k s"
proof (induction s rule: strip_fffd.induct)
  case (1 s)
  show ?case
  proof (cases "ends_with ([CHR 0xEF, CHR 0xBF, CHR 0xBD]) s")
    case True
    then obtain k where "strip_fffd s = take k (take (length s - 3) s)"
      using 1 by (auto simp: strip_fffd.simps [of s])
    then show ?thesis by (metis take_take)
  next
    case False
    then show ?thesis by (metis order_refl strip_fffd.simps take_all)
  qed
qed

lemma drop_incomplete_prefix: "\<exists>k. drop_incomplete s = take k s"
  by (auto simp: drop_incomplete_def Let_def intro: exI [of _ 0] exI [of _ "length s"])

text \<open>Whatever name a sender chose, the download name has no path separator, no NUL or
  control character, and at most 255 bytes.\<close>

lemma sanitizeDownloadFilename_safe:
  "list_all name_char_ok (sanitizeDownloadFilename name) \<and> length (sanitizeDownloadFilename name) \<le> 255"
proof -
  define s where "s = trim (dropWhile (\<lambda>c. c = CHR ''.'') (filter name_char_ok name))"
  have "set s \<subseteq> set (filter name_char_ok name)"
    unfolding s_def using set_trim set_dropWhileD by fastforce
  then have ok: "\<forall>c \<in> set s. name_char_ok c" by auto
  obtain k where k: "strip_fffd (drop_incomplete (take 255 s)) = take k (take 255 s)"
    by (metis drop_incomplete_prefix strip_fffd_prefix take_take)
  then have "\<forall>c \<in> set (strip_fffd (drop_incomplete (take 255 s))). name_char_ok c"
    using ok by (auto dest!: in_set_takeD)
  moreover have "\<forall>c \<in> set ''download''. name_char_ok c" by (simp add: name_char_ok_def)
  ultimately show ?thesis
    using ok k unfolding sanitizeDownloadFilename_def s_def [symmetric] Let_def list_all_iff
    by (cases "s = []") auto
qed

lemma trim_examples:
  "trim '' ..'' = ''..''" "trim '' .bashrc'' = ''.bashrc''" "trim ''bashrc'' = ''bashrc''"
  by code_simp+

text \<open>The leading-dot strip runs before the trim, so a name that starts with white space
  keeps its dots: the source's claim that no hidden file and no \<open>..\<close> comes out does not hold.\<close>

lemma sanitizeDownloadFilename_hidden:
  "sanitizeDownloadFilename '' ..'' = ''..'' \<and> sanitizeDownloadFilename '' .bashrc'' = ''.bashrc''
   \<and> sanitizeDownloadFilename ''.bashrc'' = ''bashrc''"
  by (simp_all add: sanitizeDownloadFilename_def name_char_ok_def trim_examples)

end
