(* ===== verification/Payload.thy ===== *)
theory Payload
  imports Media
begin

text \<open>
  web/src/lib/payload.ts: parsing of the decrypted inner plaintext, and the outbound payloads of
  web/src/lib/messaging.ts that it must understand. \<open>parseInner\<close> reads concrete JSON text, so the
  round trips here go through the printer and the parser of theory Json.
\<close>

section \<open>Parsed shapes\<close>

record preview_ref =
  pr_url :: string
  pr_key :: string
  pr_iv :: string
  pr_width :: num
  pr_height :: num

record parsed_media_file =
  pf_url :: string
  pf_key :: string
  pf_iv :: string
  pf_name :: string
  pf_size :: num
  pf_extras :: media_extras
  pf_preview :: "preview_ref option"

datatype parsed_inner =
    PText string
  | PMedia string parsed_media_file
  | PAmendment (targetMsgId: string) (amend_action: string) (amend_body: "string option")
  | PUnknown

definition parse_preview_obj :: "json \<Rightarrow> preview_ref option" where
  "parse_preview_obj p =
     (case (str_field ''url'' p, str_field ''key'' p, str_field ''iv'' p,
            num_field ''width'' p, num_field ''height'' p) of
        (Some u, Some k, Some i, Some w, Some h) \<Rightarrow>
          Some \<lparr>pr_url = u, pr_key = k, pr_iv = i, pr_width = w, pr_height = h\<rparr>
      | _ \<Rightarrow> None)"

definition parse_preview :: "json \<Rightarrow> preview_ref option" where
  "parse_preview f = Option.bind (obj_field ''preview'' f) parse_preview_obj"

definition parse_media_file :: "json \<Rightarrow> parsed_media_file option" where
  "parse_media_file f =
     (case (str_field ''url'' f, str_field ''key'' f, str_field ''iv'' f,
            str_field ''name'' f, num_field ''size'' f) of
        (Some u, Some k, Some i, Some n, Some s) \<Rightarrow>
          Some \<lparr>pf_url = u, pf_key = k, pf_iv = i, pf_name = n, pf_size = s,
                pf_extras = \<lparr>me_mime = str_field ''mime'' f, me_width = num_field ''width'' f,
                             me_height = num_field ''height'' f, me_optimized = bool_field ''optimized'' f\<rparr>,
                pf_preview = parse_preview f\<rparr>
      | _ \<Rightarrow> None)"

definition parse_media :: "json \<Rightarrow> parsed_inner option" where
  "parse_media obj =
     (case (str_field ''type'' obj, str_field ''body'' obj, obj_field ''file'' obj) of
        (Some t, Some b, Some f) \<Rightarrow>
          (if t = ''media'' then map_option (PMedia b) (parse_media_file f) else None)
      | _ \<Rightarrow> None)"

definition parseInner :: "string \<Rightarrow> parsed_inner" where
  "parseInner text =
     (if \<not> starts_with ''{'' text then PText text
      else (case json_parse text of
         None \<Rightarrow> PText text
       | Some obj \<Rightarrow>
           (if \<not> is_object obj then PText text
            else if str_field ''type'' obj = Some ''text'' \<and> str_field ''body'' obj \<noteq> None
              then PText (the (str_field ''body'' obj))
            else (case parse_media obj of
               Some m \<Rightarrow> m
             | None \<Rightarrow>
                 (if str_field ''type'' obj = Some ''amendment'' \<and> str_field ''target_msg_id'' obj \<noteq> None
                  then PAmendment (the (str_field ''target_msg_id'' obj))
                         (opt_or (str_field ''action'' obj) []) (str_field ''body'' obj)
                  else PUnknown)))))"

definition isAmendment :: "string \<Rightarrow> bool" where
  "isAmendment text = (case parseInner text of PAmendment _ _ _ \<Rightarrow> True | _ \<Rightarrow> False)"

definition messagePreview :: "string \<Rightarrow> string" where
  "messagePreview text =
     (case parseInner text of
        PText b \<Rightarrow> trim (collapse_ws b)
      | PMedia _ f \<Rightarrow>
          (if (case me_mime (pf_extras f) of Some m \<Rightarrow> starts_with ''image/'' m | None \<Rightarrow> False)
              \<or> isLikelyImage (pf_name f)
           then ''<photo>'' else ''<file>'')
      | _ \<Rightarrow> [])"

section \<open>Outbound payloads\<close>

datatype amendment_action = EditA | DeleteA

fun action_text :: "amendment_action \<Rightarrow> string" where
  "action_text EditA = ''edit''"
| "action_text DeleteA = ''delete''"

datatype inner_payload =
    TextPayload string
  | MediaPayload string parsed_media_file
  | AmendmentPayload string amendment_action "string option"

text \<open>An optional property that is \<open>undefined\<close> is left out by \<open>JSON.stringify\<close>.\<close>

definition opt_member :: "string \<Rightarrow> ('a \<Rightarrow> json) \<Rightarrow> 'a option \<Rightarrow> (string \<times> json) list" where
  "opt_member k f v = (case v of Some x \<Rightarrow> [(k, f x)] | None \<Rightarrow> [])"

definition preview_json :: "preview_ref \<Rightarrow> json" where
  "preview_json p = JObj
     [(''url'', JStr (pr_url p)), (''key'', JStr (pr_key p)), (''iv'', JStr (pr_iv p)),
      (''width'', JNum (pr_width p)), (''height'', JNum (pr_height p))]"

definition extras_json :: "media_extras \<Rightarrow> (string \<times> json) list" where
  "extras_json e = opt_member ''mime'' JStr (me_mime e) @ opt_member ''optimized'' JBool (me_optimized e)
     @ opt_member ''width'' JNum (me_width e) @ opt_member ''height'' JNum (me_height e)"

definition media_file_json :: "parsed_media_file \<Rightarrow> json" where
  "media_file_json f = JObj
     ([(''url'', JStr (pf_url f)), (''key'', JStr (pf_key f)), (''iv'', JStr (pf_iv f)),
       (''name'', JStr (pf_name f)), (''size'', JNum (pf_size f))]
      @ extras_json (pf_extras f) @ opt_member ''preview'' preview_json (pf_preview f))"

fun payload_json :: "inner_payload \<Rightarrow> json" where
  "payload_json (TextPayload b) = JObj [(''type'', JStr ''text''), (''body'', JStr b)]"
| "payload_json (MediaPayload b f) =
     JObj [(''type'', JStr ''media''), (''body'', JStr b), (''file'', media_file_json f)]"
| "payload_json (AmendmentPayload t a b) =
     JObj ([(''type'', JStr ''amendment''), (''target_msg_id'', JStr t), (''action'', JStr (action_text a))]
           @ opt_member ''body'' JStr b)"

text \<open>What the receiver should see of a payload.\<close>

fun parsed_of :: "inner_payload \<Rightarrow> parsed_inner" where
  "parsed_of (TextPayload b) = PText b"
| "parsed_of (MediaPayload b f) = PMedia b f"
| "parsed_of (AmendmentPayload t a b) = PAmendment t (action_text a) b"

fun num_ok :: "num \<Rightarrow> bool" where
  "num_ok (NInt _) = True"
| "num_ok (NDec _) = False"

definition media_file_ok :: "parsed_media_file \<Rightarrow> bool" where
  "media_file_ok f \<longleftrightarrow> num_ok (pf_size f)
     \<and> pred_option num_ok (me_width (pf_extras f)) \<and> pred_option num_ok (me_height (pf_extras f))
     \<and> pred_option (\<lambda>p. num_ok (pr_width p) \<and> num_ok (pr_height p)) (pf_preview f)"

fun payload_ok :: "inner_payload \<Rightarrow> bool" where
  "payload_ok (MediaPayload _ f) = media_file_ok f"
| "payload_ok _ = True"

lemma json_wf_num [simp]: "json_wf (JNum n) \<longleftrightarrow> num_ok n"
  by (cases n) auto

lemma payload_json_wf: "payload_ok p \<Longrightarrow> json_wf (payload_json p)"
  by (cases p)
    (auto simp: media_file_json_def extras_json_def opt_member_def preview_json_def media_file_ok_def
      split: option.splits)

lemma parse_preview_ref [simp]: "parse_preview_obj (preview_json p) = Some p"
  by (simp add: parse_preview_obj_def preview_json_def)

lemma map_of_opt_member [simp]: "map_of (opt_member k f v) j = (if j = k then map_option f v else None)"
  by (cases v) (auto simp: opt_member_def)

lemma media_file_fields:
  "str_field ''url'' (media_file_json f) = Some (pf_url f)"
  "str_field ''key'' (media_file_json f) = Some (pf_key f)"
  "str_field ''iv'' (media_file_json f) = Some (pf_iv f)"
  "str_field ''name'' (media_file_json f) = Some (pf_name f)"
  "num_field ''size'' (media_file_json f) = Some (pf_size f)"
  by (simp_all add: media_file_json_def)

lemma media_file_extras:
  "str_field ''mime'' (media_file_json f) = me_mime (pf_extras f)"
  "num_field ''width'' (media_file_json f) = me_width (pf_extras f)"
  "num_field ''height'' (media_file_json f) = me_height (pf_extras f)"
  "bool_field ''optimized'' (media_file_json f) = me_optimized (pf_extras f)"
proof -
  note defs = media_file_json_def extras_json_def map_add_def
  show "str_field ''mime'' (media_file_json f) = me_mime (pf_extras f)"
    by (cases "me_mime (pf_extras f)") (simp_all add: defs)
  show "num_field ''width'' (media_file_json f) = me_width (pf_extras f)"
    by (cases "me_width (pf_extras f)") (simp_all add: defs)
  show "num_field ''height'' (media_file_json f) = me_height (pf_extras f)"
    by (cases "me_height (pf_extras f)") (simp_all add: defs)
  show "bool_field ''optimized'' (media_file_json f) = me_optimized (pf_extras f)"
    by (cases "me_optimized (pf_extras f)") (simp_all add: defs)
qed

lemma media_file_preview: "parse_preview (media_file_json f) = pf_preview f"
proof (cases "pf_preview f")
  case None
  then show ?thesis
    by (simp add: media_file_json_def extras_json_def parse_preview_def obj_field_def map_add_def)
next
  case (Some p)
  have "is_object (preview_json p)" by (simp add: preview_json_def)
  with Some show ?thesis
    by (simp add: media_file_json_def extras_json_def parse_preview_def obj_field_def map_add_def)
qed

lemma parse_media_file_json: "parse_media_file (media_file_json f) = Some f"
  by (simp add: parse_media_file_def media_file_fields media_file_extras media_file_preview)

lemma starts_with_object: "starts_with ''{'' (stringify (JObj ms))"
  by simp

lemma parseInner_stringify:
  assumes "json_wf (JObj ms)"
  shows "parseInner (stringify (JObj ms)) =
    (let obj = JObj ms in
     if str_field ''type'' obj = Some ''text'' \<and> str_field ''body'' obj \<noteq> None
     then PText (the (str_field ''body'' obj))
     else (case parse_media obj of
        Some m \<Rightarrow> m
      | None \<Rightarrow>
          (if str_field ''type'' obj = Some ''amendment'' \<and> str_field ''target_msg_id'' obj \<noteq> None
           then PAmendment (the (str_field ''target_msg_id'' obj))
                  (opt_or (str_field ''action'' obj) []) (str_field ''body'' obj)
           else PUnknown)))"
  by (simp only: parseInner_def Let_def starts_with_object json_roundtrip [OF assms] option.case
      is_object.simps not_True_eq_False if_False)

lemma parse_media_file_obj: "is_object (media_file_json f)"
  by (simp add: media_file_json_def)

lemma parseInner_payload: "payload_ok p \<Longrightarrow> parseInner (stringify (payload_json p)) = parsed_of p"
proof (cases p)
  case (TextPayload b)
  then show ?thesis using payload_json_wf [of p]
    by (simp add: parseInner_stringify del: stringify.simps)
next
  case (MediaPayload b f)
  moreover assume "payload_ok p"
  ultimately show ?thesis using payload_json_wf [of p]
    by (simp add: parseInner_stringify parse_media_def obj_field_def parse_media_file_obj
        parse_media_file_json del: stringify.simps)
next
  case (AmendmentPayload t a b)
  then show ?thesis using payload_json_wf [of p]
    by (cases b) (simp_all add: parseInner_stringify parse_media_def obj_field_def opt_member_def
        del: stringify.simps)
qed

text \<open>C25: every payload the client sends is understood by the parser exactly as it was meant:
  text, media with all its optional fields and preview, edit and delete amendments, through the
  concrete JSON text (integers only in the numeric fields).\<close>

theorem parseInner_roundtrip:
  assumes "payload_ok p"
  shows "parseInner (stringify (payload_json p)) = parsed_of p"
  using assms by (rule parseInner_payload)

theorem parseInner_roundtrip_witness:
  "parseInner (stringify (payload_json (AmendmentPayload ''01A'' EditA (Some [CHR 0x22])))) =
     PAmendment ''01A'' ''edit'' (Some [CHR 0x22])"
  using parseInner_roundtrip [of "AmendmentPayload ''01A'' EditA (Some [CHR 0x22])"] by simp

text \<open>The kinds of plaintext. A text that does not start with a brace, or is not valid JSON,
  is shown verbatim; an object of an unknown type is dropped; and only an object typed
  \<open>amendment\<close> with a string target is an amendment.\<close>

lemma parseInner_kinds:
  "(\<not> starts_with ''{'' t \<longrightarrow> parseInner t = PText t)
   \<and> (json_parse t = None \<longrightarrow> parseInner t = PText t)
   \<and> (json_parse t = Some (JObj ms) \<and> starts_with ''{'' t
        \<and> str_field ''type'' (JObj ms) \<notin> {Some ''text'', Some ''media'', Some ''amendment''}
      \<longrightarrow> parseInner t = PUnknown)
   \<and> (isAmendment t \<longrightarrow> (\<exists>obj. json_parse t = Some obj \<and> str_field ''type'' obj = Some ''amendment''
        \<and> str_field ''target_msg_id'' obj \<noteq> None))"
  by (auto simp: parseInner_def isAmendment_def parse_media_def split: option.splits if_splits)

text \<open>A chat-list preview is one line of printable text: no line break, tab or control white
  space survives, whatever the message holds.\<close>

lemma messagePreview_one_line:
  "filter ascii_space (messagePreview t) = filter (\<lambda>c. c = CHR 0x20) (messagePreview t)"
proof (rule filter_cong)
  fix c assume c: "c \<in> set (messagePreview t)"
  have "c = CHR 0x20 \<or> \<not> ascii_space c"
  proof (cases "parseInner t")
    case (PText b)
    with c have "c \<in> set (collapse_ws b)" using set_trim by (auto simp: messagePreview_def)
    then show ?thesis using collapse_ws_chars by blast
  qed (use c in \<open>auto simp: messagePreview_def ascii_space_def split: if_splits\<close>)
  then show "ascii_space c \<longleftrightarrow> c = CHR 0x20" by (auto simp: ascii_space_def)
qed simp

end
