(* ===== verification/Store.thy ===== *)
theory Store
  imports Prelude
begin

text \<open>
  IndexedDB object stores. A store is the list of its (primary key, record) pairs in key order,
  which is the order \<open>getAll\<close> and every cursor return them in; an index scan is a filter of it,
  a stable sort by the index key where the index is ordered by something else. The locale
  \<open>object_store\<close> is the contract the rest of the code relies on; it is interpreted here on the
  operations of the model.
\<close>

type_synonym ('k, 'v) store = "('k \<times> 'v) list"

fun st_put :: "'k::linorder \<Rightarrow> 'v \<Rightarrow> ('k, 'v) store \<Rightarrow> ('k, 'v) store" where
  "st_put k v [] = [(k, v)]"
| "st_put k v ((j, u) # s) =
     (if k < j then (k, v) # (j, u) # s else if k = j then (k, v) # s else (j, u) # st_put k v s)"

definition st_get :: "'k \<Rightarrow> ('k, 'v) store \<Rightarrow> 'v option" where
  "st_get k s = map_of s k"

definition st_delete :: "'k \<Rightarrow> ('k, 'v) store \<Rightarrow> ('k, 'v) store" where
  "st_delete k s = filter (\<lambda>(j, _). j \<noteq> k) s"

definition st_all :: "('k, 'v) store \<Rightarrow> 'v list" where
  "st_all s = map snd s"

definition st_keys :: "('k, 'v) store \<Rightarrow> 'k list" where
  "st_keys s = map fst s"

definition st_ok :: "('k::linorder, 'v) store \<Rightarrow> bool" where
  "st_ok s \<longleftrightarrow> sorted_wrt (<) (map fst s)"

definition st_filter :: "('v \<Rightarrow> bool) \<Rightarrow> ('k, 'v) store \<Rightarrow> ('k, 'v) store" where
  "st_filter p s = filter (\<lambda>(_, v). p v) s"

lemma set_st_put_keys: "set (map fst (st_put k v s)) = insert k (set (map fst s))"
  by (induction k v s rule: st_put.induct) auto

lemma st_ok_Nil [simp]: "st_ok []"
  by (simp add: st_ok_def)

lemma st_ok_put [simp]: "st_ok s \<Longrightarrow> st_ok (st_put k v s)"
proof (induction k v s rule: st_put.induct)
  case (2 k v j u s)
  have "set (map fst (st_put k v s)) = insert k (set (map fst s))"
    by (rule set_st_put_keys)
  with 2 show ?case
    by (auto simp: st_ok_def)
qed (simp add: st_ok_def)

lemma st_ok_filter: "st_ok s \<Longrightarrow> st_ok (filter p s)"
  by (induction s) (auto simp: st_ok_def)

lemma st_ok_delete [simp]: "st_ok s \<Longrightarrow> st_ok (st_delete k s)"
  by (simp add: st_delete_def st_ok_filter)

lemma st_ok_distinct: "st_ok s \<Longrightarrow> distinct (map fst s)"
  by (simp add: st_ok_def strict_sorted_iff)

lemma st_get_put: "st_ok s \<Longrightarrow> st_get j (st_put k v s) = (if j = k then Some v else st_get j s)"
proof (induction k v s rule: st_put.induct)
  case (1 k v)
  then show ?case by (simp add: st_get_def)
next
  case (2 k v i u s)
  then show ?case
    by (auto simp: st_get_def st_ok_def)
qed

lemma st_get_delete: "st_get j (st_delete k s) = (if j = k then None else st_get j s)"
  by (induction s) (auto simp: st_get_def st_delete_def)

lemma st_get_Nil [simp]: "st_get k [] = None"
  by (simp add: st_get_def)

lemma st_get_filter:
  "st_ok s \<Longrightarrow> st_get k (st_filter p s) =
     (case st_get k s of Some v \<Rightarrow> if p v then Some v else None | None \<Rightarrow> None)"
proof (induction s)
  case (Cons x s)
  obtain j v where x: "x = (j, v)" by force
  have ok: "st_ok s" using Cons.prems by (simp add: st_ok_def)
  show ?case
  proof (cases "j = k")
    case True
    then have "k \<notin> fst ` set s"
      using Cons.prems x by (auto simp: st_ok_def)
    then have "map_of (filter (\<lambda>(_, v). p v) s) k = None"
      by (force simp: map_of_eq_None_iff)
    with True x show ?thesis by (simp add: st_get_def st_filter_def)
  next
    case False
    with x Cons.IH [OF ok] show ?thesis by (simp add: st_get_def st_filter_def)
  qed
qed (simp add: st_get_def st_filter_def)

lemma st_get_in: "st_ok s \<Longrightarrow> st_get k s = Some v \<longleftrightarrow> (k, v) \<in> set s"
  by (simp add: st_get_def st_ok_distinct map_of_eq_Some_iff)

section \<open>The contract of an object store\<close>

locale object_store =
  fixes empty :: "'s"
    and put :: "'k \<Rightarrow> 'v \<Rightarrow> 's \<Rightarrow> 's"
    and get :: "'k \<Rightarrow> 's \<Rightarrow> 'v option"
    and delete :: "'k \<Rightarrow> 's \<Rightarrow> 's"
    and all :: "'s \<Rightarrow> 'v list"
    and keys :: "'s \<Rightarrow> 'k list"
    and ok :: "'s \<Rightarrow> bool"
  assumes ok_empty: "ok empty"
    and ok_put: "ok s \<Longrightarrow> ok (put k v s)"
    and ok_delete: "ok s \<Longrightarrow> ok (delete k s)"
    and get_empty: "get k empty = None"
    and get_put: "ok s \<Longrightarrow> get j (put k v s) = (if j = k then Some v else get j s)"
    and get_delete: "ok s \<Longrightarrow> get j (delete k s) = (if j = k then None else get j s)"
    and keys_get: "ok s \<Longrightarrow> k \<in> set (keys s) \<longleftrightarrow> get k s \<noteq> None"
    and all_get: "ok s \<Longrightarrow> v \<in> set (all s) \<longleftrightarrow> (\<exists>k. get k s = Some v)"
    and keys_distinct: "ok s \<Longrightarrow> distinct (keys s)"
begin

definition put_list :: "('k \<times> 'v) list \<Rightarrow> 's \<Rightarrow> 's" where
  "put_list kvs s = fold (\<lambda>(k, v). put k v) kvs s"

lemma put_list_simps: "put_list [] s = s" "put_list ((k, v) # kvs) s = put_list kvs (put k v s)"
  by (simp_all add: put_list_def)

lemma ok_put_list: "ok s \<Longrightarrow> ok (put_list kvs s)"
  by (induction kvs arbitrary: s) (auto simp: put_list_simps ok_put)

text \<open>After a batch of puts a key holds the last record written under it, or the old one.\<close>

lemma get_put_list:
  "ok s \<Longrightarrow> get k (put_list kvs s) =
     (case map_of (rev kvs) k of Some v \<Rightarrow> Some v | None \<Rightarrow> get k s)"
proof (induction kvs arbitrary: s)
  case (Cons x kvs)
  obtain j v where x: "x = (j, v)" by force
  have "get k (put_list kvs (put j v s)) =
      (case map_of (rev kvs) k of Some v \<Rightarrow> Some v | None \<Rightarrow> get k (put j v s))"
    using Cons by (simp add: ok_put)
  with Cons.prems x show ?case
    by (auto simp: put_list_simps get_put map_add_def split: option.splits)
qed (simp add: put_list_simps)

lemma put_list_keys:
  "ok s \<Longrightarrow> set (keys (put_list kvs s)) = set (map fst kvs) \<union> set (keys s)"
proof (rule set_eqI)
  fix k assume s: "ok s"
  show "k \<in> set (keys (put_list kvs s)) \<longleftrightarrow> k \<in> set (map fst kvs) \<union> set (keys s)"
    using s by (auto simp: keys_get ok_put_list get_put_list map_of_eq_None_iff weak_map_of_SomeI
        split: option.splits dest: map_of_SomeD) (metis image_eqI fst_conv set_rev map_of_SomeD)
qed

text \<open>Writing the same batch twice is writing it once: the reason a repeated sync is harmless
  to a store keyed by message id.\<close>

lemma get_put_list_idem:
  "ok s \<Longrightarrow> get k (put_list kvs (put_list kvs s)) = get k (put_list kvs s)"
  by (simp add: get_put_list ok_put_list split: option.splits)

lemma put_list_preserves_key:
  "ok s \<Longrightarrow> k \<notin> set (map fst kvs) \<Longrightarrow> get k (put_list kvs s) = get k s"
  by (auto simp: get_put_list map_of_eq_None_iff split: option.splits dest!: map_of_SomeD)
    (metis image_eqI fst_conv)

end

interpretation st: object_store "[]" st_put st_get st_delete st_all st_keys st_ok
proof (unfold_locales, goal_cases)
  case (7 s k)
  then show ?case by (simp add: st_keys_def st_get_def map_of_eq_None_iff)
next
  case (8 s v)
  then show ?case by (auto simp: st_all_def st_get_in) force
next
  case (9 s)
  then show ?case by (simp add: st_keys_def st_ok_distinct)
qed (simp_all add: st_get_put st_get_delete)

text \<open>A batch of puts in one transaction.\<close>

definition st_put_list :: "('k::linorder \<times> 'v) list \<Rightarrow> ('k, 'v) store \<Rightarrow> ('k, 'v) store" where
  "st_put_list kvs s = fold (\<lambda>(k, v). st_put k v) kvs s"

lemma st_put_list_eq: "st.put_list kvs s = st_put_list kvs s"
  by (simp add: st.put_list_def st_put_list_def)

lemmas st_ok_put_list [simp] = st.ok_put_list [unfolded st_put_list_eq]
lemmas st_get_put_list = st.get_put_list [unfolded st_put_list_eq]
lemmas st_put_list_keys = st.put_list_keys [unfolded st_put_list_eq]
lemmas st_put_list_idem = st.get_put_list_idem [unfolded st_put_list_eq]
lemmas st_put_list_other = st.put_list_preserves_key [unfolded st_put_list_eq]

text \<open>A condition on the rows of a store that every written row meets.\<close>

lemma set_st_put: "set (st_put k v s) \<subseteq> insert (k, v) (set s)"
  by (induction k v s rule: st_put.induct) auto

lemma set_st_put_list: "set (st_put_list kvs s) \<subseteq> set kvs \<union> set s"
proof (induction kvs arbitrary: s)
  case (Cons x kvs)
  obtain k v where "x = (k, v)" by force
  with Cons [of "st_put k v s"] set_st_put [of k v s] show ?case
    by (fastforce simp: st_put_list_def)
qed (simp add: st_put_list_def)

lemma st_rows_put: "(\<forall>(k, v) \<in> set s. R k v) \<Longrightarrow> R k v \<Longrightarrow> \<forall>(k, v) \<in> set (st_put k v s). R k v"
  using set_st_put by fastforce

lemma st_rows_put_list:
  "(\<forall>(k, v) \<in> set s. R k v) \<Longrightarrow> (\<forall>(k, v) \<in> set kvs. R k v) \<Longrightarrow> \<forall>(k, v) \<in> set (st_put_list kvs s). R k v"
  using set_st_put_list by fastforce

lemma st_rows_filter: "(\<forall>(k, v) \<in> set s. R k v) \<Longrightarrow> \<forall>(k, v) \<in> set (st_filter p s). R k v"
  by (auto simp: st_filter_def)

lemma st_all_put_list_in: "st_ok s \<Longrightarrow> v \<in> set (st_all s) \<longleftrightarrow> (\<exists>k. st_get k s = Some v)"
  by (rule st.all_get)

end
