(* ===== verification/Platform.thy ===== *)
theory Platform
  imports Payload Store
begin

text \<open>
  The state the client keeps and the platform it runs on.

  \<^item> \<open>idb\<close> is the IndexedDB database of web/src/lib/db.ts, one field per object store.
  \<^item> \<open>mgr\<close> is the closure state of the Megolm session manager of web/src/lib/megolm-session.ts.
  \<^item> \<open>world\<close> joins them with localStorage, the log of emitted auth events and the state \<open>'n\<close> of
    everything outside the client (network, server, clock, entropy).
  \<^item> \<open>platform\<close> is the parameter of the development: the operations the client calls that are
    not code of this repository's client (fetch, the commit or abort of an IndexedDB transaction,
    WebCrypto, the vodozemac WebAssembly module, ulid, the clock, CBOR, JCS, canvas). Nothing is
    assumed of them; a theorem that needs a law of one names it as a hypothesis.

  \<open>pl_page_limit\<close> bounds the pages of a listing the model follows; \<open>pl_online\<close> is \<open>navigator.onLine\<close>,
  \<open>pl_user_agent\<close> is \<open>navigator.userAgent\<close>, \<open>pl_uuid\<close> is \<open>crypto.randomUUID\<close> where the browser has it.

  A \<open>CryptoKey\<close> is its raw bytes with its \<open>extractable\<close> flag; a Megolm session object is its
  opaque state. \<open>Date\<close> values are milliseconds since the epoch; a date text that does not parse
  (NaN) is outside the model.
\<close>

section \<open>Records of the object stores\<close>

record crypto_key =
  ck_raw :: bytes
  ck_extractable :: bool

record stored_message =
  sm_id :: string
  sm_userId :: string
  sm_conversationId :: string
  sm_fromUser :: string
  sm_fromDevice :: string
  sm_text :: string
  sm_timestamp :: int

record stored_conversation =
  sc_conversationId :: string
  sc_lastMessageText :: string
  sc_lastMessageTimestamp :: int
  sc_messageCount :: int
  sc_lastMessageDeleted :: "bool option"
  sc_lastReadTimestamp :: "int option"

record stored_outbound =
  so_pickleJson :: string
  so_sessionId :: string
  so_messageIndex :: nat

record stored_inbound =
  si_fromUser :: string
  si_fromDevice :: string
  si_pickleJson :: string

record stored_media_blob =
  mb_bytes :: bytes
  mb_mime :: string
  mb_cachedAt :: int

record idb =
  db_keys :: "(string, crypto_key) store"
  db_messages :: "(string, stored_message) store"
  db_conversations :: "(string, stored_conversation) store"
  db_contacts :: "(string, string) store"
  db_outbound :: "(string, stored_outbound) store"
  db_inbound :: "(string, stored_inbound) store"
  db_key_shares :: "(string \<times> string, int) store"
  db_cursors :: "(string, string) store"
  db_backup_keys :: "(string \<times> int, crypto_key) store"
  db_pending :: "(string, string) store"
  db_ingested :: "(string, int) store"
  db_media :: "(string, stored_media_blob) store"

definition empty_idb :: idb where
  "empty_idb = \<lparr>db_keys = [], db_messages = [], db_conversations = [], db_contacts = [],
     db_outbound = [], db_inbound = [], db_key_shares = [], db_cursors = [],
     db_backup_keys = [], db_pending = [], db_ingested = [], db_media = []\<rparr>"

text \<open>Every store is in key order, and a message or conversation row is filed under its own key
  path.\<close>

definition idb_ok :: "idb \<Rightarrow> bool" where
  "idb_ok d \<longleftrightarrow> st_ok (db_keys d) \<and> st_ok (db_messages d) \<and> st_ok (db_conversations d)
     \<and> st_ok (db_contacts d) \<and> st_ok (db_outbound d) \<and> st_ok (db_inbound d)
     \<and> st_ok (db_key_shares d) \<and> st_ok (db_cursors d) \<and> st_ok (db_backup_keys d)
     \<and> st_ok (db_pending d) \<and> st_ok (db_ingested d) \<and> st_ok (db_media d)
     \<and> (\<forall>(k, m) \<in> set (db_messages d). sm_id m = k)
     \<and> (\<forall>(k, c) \<in> set (db_conversations d). sc_conversationId c = k)"

section \<open>HTTP\<close>

datatype http_method = GET | POST | PUT | DELETE

datatype http_body = NoBody | JsonBody json | BytesBody bytes

record http_request =
  rq_method :: http_method
  rq_path :: string
  rq_query :: "(string \<times> string) list"
  rq_token :: "string option"
  rq_body :: http_body

text \<open>\<open>rs_json\<close> is what \<open>res.json()\<close> yields (\<open>None\<close>: it rejects), \<open>rs_bytes\<close> what
  \<open>res.arrayBuffer()\<close> yields.\<close>

record http_response =
  rs_status :: nat
  rs_status_text :: string
  rs_json_type :: bool
  rs_json :: "json option"
  rs_bytes :: bytes

definition res_ok :: "http_response \<Rightarrow> bool" where
  "res_ok r \<longleftrightarrow> 200 \<le> rs_status r \<and> rs_status r \<le> 299"

section \<open>The platform\<close>

record 'n platform =
  pl_fetch :: "http_request \<Rightarrow> 'n \<Rightarrow> http_response option \<times> 'n"
  pl_page_limit :: nat
  pl_online :: "'n \<Rightarrow> bool"
  pl_user_agent :: string
  pl_uuid :: "('n \<Rightarrow> string \<times> 'n) option"
  pl_idb :: "'n \<Rightarrow> bool \<times> 'n"
  pl_now :: "'n \<Rightarrow> int \<times> 'n"
  pl_ulid :: "'n \<Rightarrow> string \<times> 'n"
  pl_random :: "nat \<Rightarrow> 'n \<Rightarrow> bytes \<times> 'n"
  pl_date_parse :: "string \<Rightarrow> int"
  pl_date_iso :: "int \<Rightarrow> string"
  pl_aes_encrypt :: "bytes \<Rightarrow> bytes \<Rightarrow> bytes \<Rightarrow> bytes"
  pl_aes_decrypt :: "bytes \<Rightarrow> bytes \<Rightarrow> bytes \<Rightarrow> bytes option"
  pl_aes_key_ok :: "bytes \<Rightarrow> bool"
  pl_hkdf :: "bytes \<Rightarrow> bytes \<Rightarrow> bytes \<Rightarrow> bytes"
  pl_p256_valid :: "bytes \<Rightarrow> bool"
  pl_p256_point_ok :: "bytes \<Rightarrow> bool"
  pl_p256_public :: "bytes \<Rightarrow> bytes"
  pl_p256_generate :: "'n \<Rightarrow> bytes \<times> 'n"
  pl_ecdh :: "bytes \<Rightarrow> bytes \<Rightarrow> bytes option"
  pl_ed25519_public :: "bytes \<Rightarrow> bytes"
  pl_ed25519_sign :: "bytes \<Rightarrow> bytes \<Rightarrow> bytes"
  pl_canonicalize :: "json \<Rightarrow> string option"
  pl_cbor_decode :: "bytes \<Rightarrow> json option"
  pl_argon2 :: "bytes \<Rightarrow> bytes \<Rightarrow> nat \<Rightarrow> nat \<Rightarrow> nat \<Rightarrow> bytes option"
  pl_pow :: "bytes \<Rightarrow> nat \<Rightarrow> nat \<Rightarrow> nat \<Rightarrow> nat \<Rightarrow> nat option"
  mo_new :: "'n \<Rightarrow> string \<times> 'n"
  mo_from_pickle :: "string \<Rightarrow> string option"
  mo_pickle :: "string \<Rightarrow> string"
  mo_session_id :: "string \<Rightarrow> string"
  mo_session_key :: "string \<Rightarrow> string"
  mo_message_index :: "string \<Rightarrow> nat"
  mo_encrypt :: "string \<Rightarrow> string \<Rightarrow> string \<times> string"
  mi_from_session_key :: "string \<Rightarrow> string option"
  mi_from_export :: "string \<Rightarrow> string option"
  mi_from_pickle :: "string \<Rightarrow> string option"
  mi_pickle :: "string \<Rightarrow> string"
  mi_session_id :: "string \<Rightarrow> string"
  mi_decrypt :: "string \<Rightarrow> string \<Rightarrow> string option \<times> string"

section \<open>The world\<close>

datatype auth_event = DeviceRevoked | Unauthorized | KeyVersionStale

record mgr =
  mg_outbound :: "string option"
  mg_outboundIsNew :: bool
  mg_inbound :: "(string \<times> string) list"
  mg_meta :: "(string \<times> (string \<times> string)) list"

definition empty_mgr :: mgr where
  "empty_mgr = \<lparr>mg_outbound = None, mg_outboundIsNew = False, mg_inbound = [], mg_meta = []\<rparr>"

record 'n world =
  w_db :: idb
  w_ls :: "(string \<times> string) list"
  w_mgr :: mgr
  w_events :: "auth_event list"
  w_net :: 'n

definition platform_io :: "('n \<Rightarrow> 'a \<times> 'n) \<Rightarrow> ('n world, 'a) io" where
  "platform_io f = (\<lambda>w. let (x, n) = f (w_net w) in (Inr x, w\<lparr>w_net := n\<rparr>))"

text \<open>One IndexedDB transaction: it commits, or it aborts and changes nothing.\<close>

definition db_tx :: "'n platform \<Rightarrow> (idb \<Rightarrow> 'a \<times> idb) \<Rightarrow> ('n world, 'a) io" where
  "db_tx P f = (\<lambda>w.
     let (ok, n) = pl_idb P (w_net w)
     in if ok then (let (x, d) = f (w_db w) in (Inr x, w\<lparr>w_db := d, w_net := n\<rparr>))
        else (Inl IdbError, w\<lparr>w_net := n\<rparr>))"

definition db_read :: "'n platform \<Rightarrow> (idb \<Rightarrow> 'a) \<Rightarrow> ('n world, 'a) io" where
  "db_read P f = db_tx P (\<lambda>d. (f d, d))"

definition db_write :: "'n platform \<Rightarrow> (idb \<Rightarrow> idb) \<Rightarrow> ('n world, unit) io" where
  "db_write P f = db_tx P (\<lambda>d. ((), f d))"

definition get_ls :: "string \<Rightarrow> ('n world, string option) io" where
  "get_ls k = (\<lambda>w. (Inr (map_of (w_ls w) k), w))"

definition set_ls :: "string \<Rightarrow> string \<Rightarrow> ('n world, unit) io" where
  "set_ls k v = (\<lambda>w. (Inr (), w\<lparr>w_ls := AList.update k v (w_ls w)\<rparr>))"

definition remove_ls :: "string \<Rightarrow> ('n world, unit) io" where
  "remove_ls k = (\<lambda>w. (Inr (), w\<lparr>w_ls := AList.delete k (w_ls w)\<rparr>))"

definition get_mgr :: "('n world, mgr) io" where
  "get_mgr = (\<lambda>w. (Inr (w_mgr w), w))"

definition mod_mgr :: "(mgr \<Rightarrow> mgr) \<Rightarrow> ('n world, unit) io" where
  "mod_mgr f = (\<lambda>w. (Inr (), w\<lparr>w_mgr := f (w_mgr w)\<rparr>))"

text \<open>A value the platform may fail to produce.\<close>

definition or_throw :: "js_error \<Rightarrow> 'a option \<Rightarrow> ('w, 'a) io" where
  "or_throw e x = (case x of None \<Rightarrow> throw e | Some v \<Rightarrow> ret v)"

lemma platform_io_app [io_simps]: "platform_io f w = (Inr (fst (f (w_net w))), w\<lparr>w_net := snd (f (w_net w))\<rparr>)"
  by (simp add: platform_io_def split: prod.splits)

lemma db_tx_app [io_simps]:
  "db_tx P f w =
     (if fst (pl_idb P (w_net w))
      then (Inr (fst (f (w_db w))), w\<lparr>w_db := snd (f (w_db w)), w_net := snd (pl_idb P (w_net w))\<rparr>)
      else (Inl IdbError, w\<lparr>w_net := snd (pl_idb P (w_net w))\<rparr>))"
  by (simp add: db_tx_def split: prod.splits)

lemma db_read_app [io_simps]:
  "db_read P f w =
     (if fst (pl_idb P (w_net w)) then Inr (f (w_db w)) else Inl IdbError,
      w\<lparr>w_net := snd (pl_idb P (w_net w))\<rparr>)"
  by (simp add: db_read_def db_tx_app)

lemma db_write_app [io_simps]:
  "db_write P f w =
     (if fst (pl_idb P (w_net w))
      then (Inr (), w\<lparr>w_db := f (w_db w), w_net := snd (pl_idb P (w_net w))\<rparr>)
      else (Inl IdbError, w\<lparr>w_net := snd (pl_idb P (w_net w))\<rparr>))"
  by (simp add: db_write_def db_tx_app)

lemma ls_app [io_simps]:
  "get_ls k w = (Inr (map_of (w_ls w) k), w)"
  "set_ls k v w = (Inr (), w\<lparr>w_ls := AList.update k v (w_ls w)\<rparr>)"
  "remove_ls k w = (Inr (), w\<lparr>w_ls := AList.delete k (w_ls w)\<rparr>)"
  by (simp_all add: get_ls_def set_ls_def remove_ls_def)

lemma mgr_app [io_simps]:
  "get_mgr w = (Inr (w_mgr w), w)" "mod_mgr f w = (Inr (), w\<lparr>w_mgr := f (w_mgr w)\<rparr>)"
  by (simp_all add: get_mgr_def mod_mgr_def)

lemma or_throw_app [io_simps]:
  "or_throw e x w = (case x of None \<Rightarrow> Inl e | Some v \<Rightarrow> Inr v, w)"
  by (simp add: or_throw_def io_simps split: option.splits)

text \<open>Preservation of a property of the database alone.\<close>

definition on_db :: "(idb \<Rightarrow> bool) \<Rightarrow> 'n world \<Rightarrow> bool" where
  "on_db Q w \<longleftrightarrow> Q (w_db w)"

lemma keeps_platform_io [keeps_intros]: "keeps (on_db Q) (platform_io f)"
  by (simp add: keeps_def io_simps on_db_def)

lemma keeps_db_read [keeps_intros]: "keeps (on_db Q) (db_read P f)"
  by (simp add: keeps_def io_simps on_db_def)

lemma keeps_db_write [keeps_intros]: "(\<And>d. Q d \<Longrightarrow> Q (f d)) \<Longrightarrow> keeps (on_db Q) (db_write P f)"
  by (simp add: keeps_def io_simps on_db_def)

lemma keeps_ls [keeps_intros]:
  "keeps (on_db Q) (get_ls k)" "keeps (on_db Q) (set_ls k v)" "keeps (on_db Q) (remove_ls k)"
  by (simp_all add: keeps_def io_simps on_db_def)

lemma keeps_mgr [keeps_intros]: "keeps (on_db Q) get_mgr" "keeps (on_db Q) (mod_mgr g)"
  by (simp_all add: keeps_def io_simps on_db_def)

lemma keeps_or_throw [keeps_intros]: "keeps Q (or_throw e x)"
  by (simp add: keeps_def io_simps)

section \<open>A concrete platform\<close>

text \<open>An offline device on which every transaction commits, the clock stands at 1000, the ciphers
  are the identity and the Megolm objects count messages: an instance of the parameter on which the
  definitions can be evaluated.\<close>

definition quiet_platform :: "'n platform" where
  "quiet_platform = \<lparr>
     pl_fetch = (\<lambda>_ n. (None, n)), pl_page_limit = 1, pl_online = (\<lambda>_. False), pl_user_agent = ''Firefox/1'', pl_uuid = None, pl_idb = (\<lambda>n. (True, n)), pl_now = (\<lambda>n. (1000, n)),
     pl_ulid = (\<lambda>n. (''01A'', n)), pl_random = (\<lambda>k n. (replicate k (CHR ''r''), n)),
     pl_date_parse = (\<lambda>t. int (length t)), pl_date_iso = (\<lambda>_. ''1970''),
     pl_aes_encrypt = (\<lambda>_ _ m. m), pl_aes_decrypt = (\<lambda>_ _ c. Some c), pl_aes_key_ok = (\<lambda>_. True),
     pl_hkdf = (\<lambda>ikm _ _. ikm), pl_p256_valid = (\<lambda>_. True), pl_p256_point_ok = (\<lambda>_. True), pl_p256_public = (\<lambda>k. k),
     pl_p256_generate = (\<lambda>n. (''k'', n)), pl_ecdh = (\<lambda>_ _. Some ''s''),
     pl_ed25519_public = (\<lambda>k. k), pl_ed25519_sign = (\<lambda>k m. k @ m),
     pl_canonicalize = (\<lambda>j. Some (stringify j)), pl_cbor_decode = json_parse,
     pl_argon2 = (\<lambda>p _ _ _ _. Some p), pl_pow = (\<lambda>_ _ _ _ _. Some 0),
     mo_new = (\<lambda>n. (''s'', n)), mo_from_pickle = Some, mo_pickle = (\<lambda>s. s),
     mo_session_id = (\<lambda>_. ''sid''), mo_session_key = (\<lambda>s. s), mo_message_index = length,
     mo_encrypt = (\<lambda>s m. (m, s @ ''+'')),
     mi_from_session_key = Some, mi_from_export = Some, mi_from_pickle = Some,
     mi_pickle = (\<lambda>s. s), mi_session_id = (\<lambda>_. ''sid''), mi_decrypt = (\<lambda>s c. (Some c, s))\<rparr>"

definition quiet_world :: "unit world" where
  "quiet_world = \<lparr>w_db = empty_idb, w_ls = [], w_mgr = empty_mgr, w_events = [], w_net = ()\<rparr>"

lemma quiet_world_ok [simp]: "idb_ok (w_db quiet_world)"
  by (simp add: quiet_world_def empty_idb_def idb_ok_def)

lemma quiet_commits [simp]: "fst (pl_idb quiet_platform n)"
  by (simp add: quiet_platform_def)

end
