(* ===== verification/Envelope.thy ===== *)
theory Envelope
  imports Platform
begin

text \<open>
  web/src/lib/envelope.ts: the wire envelopes, their JSON form in a send request, and how an
  inbound value (decoded from CBOR) is read as one.
\<close>

record key_share_payload =
  ks_conversation_id :: "string option"
  ks_ephemeral_key :: string
  ks_iv :: string
  ks_ciphertext :: string

record message_payload =
  mp_conversation_id :: "string option"
  mp_session_id :: string
  mp_ciphertext :: string

datatype envelope_content = KeyShareContent key_share_payload | MessageContent message_payload

record envelope =
  ev_to_user :: string
  ev_from_user :: string
  ev_from_device :: string
  ev_msg_id :: string
  ev_sent_at :: "string option"
  ev_content :: envelope_content

fun content_json :: "envelope_content \<Rightarrow> (string \<times> json) list" where
  "content_json (KeyShareContent p) =
     [(''content_type'', JStr ''megolm.key_share''),
      (''payload'', JObj (opt_member ''conversation_id'' JStr (ks_conversation_id p) @
        [(''ephemeral_key'', JStr (ks_ephemeral_key p)), (''iv'', JStr (ks_iv p)),
         (''ciphertext'', JStr (ks_ciphertext p))]))]"
| "content_json (MessageContent p) =
     [(''content_type'', JStr ''megolm.message''),
      (''payload'', JObj (opt_member ''conversation_id'' JStr (mp_conversation_id p) @
        [(''session_id'', JStr (mp_session_id p)), (''ciphertext'', JStr (mp_ciphertext p))]))]"

definition envelope_json :: "envelope \<Rightarrow> json" where
  "envelope_json e = JObj
     ([(''v'', JNum (NInt 1)), (''to_user'', JStr (ev_to_user e)), (''from_user'', JStr (ev_from_user e)),
       (''from_device'', JStr (ev_from_device e)), (''msg_id'', JStr (ev_msg_id e))]
      @ opt_member ''sent_at'' JStr (ev_sent_at e) @ content_json (ev_content e))"

text \<open>Reading a decoded value as an envelope; a value that has not the declared shape is \<open>None\<close>.\<close>

definition content_of :: "json \<Rightarrow> envelope_content option" where
  "content_of j =
     (case (str_field ''content_type'' j, field ''payload'' j) of
        (Some ct, Some p) \<Rightarrow>
          (if ct = ''megolm.key_share'' then
             (case (str_field ''ephemeral_key'' p, str_field ''iv'' p, str_field ''ciphertext'' p) of
                (Some e, Some i, Some c) \<Rightarrow> Some (KeyShareContent \<lparr>ks_conversation_id = str_field ''conversation_id'' p,
                   ks_ephemeral_key = e, ks_iv = i, ks_ciphertext = c\<rparr>)
              | _ \<Rightarrow> None)
           else if ct = ''megolm.message'' then
             (case (str_field ''session_id'' p, str_field ''ciphertext'' p) of
                (Some s, Some c) \<Rightarrow> Some (MessageContent \<lparr>mp_conversation_id = str_field ''conversation_id'' p,
                   mp_session_id = s, mp_ciphertext = c\<rparr>)
              | _ \<Rightarrow> None)
           else None)
      | _ \<Rightarrow> None)"

definition envelope_of :: "json \<Rightarrow> envelope option" where
  "envelope_of j =
     (case (str_field ''to_user'' j, str_field ''from_user'' j, str_field ''from_device'' j,
            str_field ''msg_id'' j, content_of j) of
        (Some t, Some f, Some d, Some m, Some c) \<Rightarrow>
          Some \<lparr>ev_to_user = t, ev_from_user = f, ev_from_device = d, ev_msg_id = m,
                ev_sent_at = str_field ''sent_at'' j, ev_content = c\<rparr>
      | _ \<Rightarrow> None)"

lemma content_of_json: "content_of (JObj (pre @ content_json c)) = Some c"
  if "map_of pre ''content_type'' = None" "map_of pre ''payload'' = None"
  using that by (cases c) (auto simp: content_of_def opt_member_def map_add_def str_field_def split: option.splits)

lemma envelope_roundtrip: "envelope_of (envelope_json e) = Some e"
proof -
  have c: "content_of (envelope_json e) = Some (ev_content e)"
    unfolding envelope_json_def append_assoc [symmetric]
    by (rule content_of_json) (auto simp: opt_member_def map_add_def split: option.splits)
  have s: "str_field ''sent_at'' (envelope_json e) = ev_sent_at e"
    by (cases "ev_content e"; cases "ev_sent_at e")
      (simp_all add: envelope_json_def opt_member_def map_add_def str_field_def)
  have h: "str_field ''to_user'' (envelope_json e) = Some (ev_to_user e)"
      "str_field ''from_user'' (envelope_json e) = Some (ev_from_user e)"
      "str_field ''from_device'' (envelope_json e) = Some (ev_from_device e)"
      "str_field ''msg_id'' (envelope_json e) = Some (ev_msg_id e)"
    by (simp_all add: envelope_json_def str_field_def)
  show ?thesis by (simp add: envelope_of_def c s h)
qed

end
