(* ===== verification/Api.thy ===== *)
theory Api
  imports Envelope
begin

text \<open>
  web/src/lib/api.ts: the HTTP client. A request is what the code passes to \<open>fetch\<close>; the server,
  and what reaches it, is the platform's \<open>pl_fetch\<close> (\<open>None\<close>: the promise rejects, a \<open>TypeError\<close>).
  A response body is kept as the JSON it is; the callers read its fields where they use them, and
  a body without the declared shape is a \<open>TypeErr\<close> there. Headers other than the token and the
  JSON content type, and abort timers, are left out; an aborted signal shows as a failed fetch.
\<close>

section \<open>Requests\<close>

definition emitAuth :: "auth_event \<Rightarrow> ('n world, unit) io" where
  "emitAuth ev = (\<lambda>w. (Inr (), w\<lparr>w_events := w_events w @ [ev]\<rparr>))"

definition do_fetch :: "'n platform \<Rightarrow> http_request \<Rightarrow> ('n world, http_response) io" where
  "do_fetch P rq = await (platform_io (pl_fetch P rq)) (or_throw (TypeErr ''Failed to fetch''))"

definition error_body :: "http_response \<Rightarrow> json" where
  "error_body res = opt_or (rs_json res)
     (JObj [(''error'', JStr ''unknown''), (''message'', JStr (rs_status_text res))])"

definition current_version :: "json \<Rightarrow> int" where
  "current_version err = (case num_field ''current'' err of Some (NInt i) \<Rightarrow> i | _ \<Rightarrow> -1)"

definition throwForErrorResponse :: "http_response \<Rightarrow> ('n world, 'a) io" where
  "throwForErrorResponse res =
     (let err = error_body res; code = opt_or (str_field ''error'' err) [] in
      if err = JNull then throw (TypeErr ''err is null'')
      else if code = ''key_version_stale''
        then await (emitAuth KeyVersionStale) (\<lambda>_. throw (KeyVersionStaleError (current_version err)))
      else await (if rs_status res = 403 \<and> code = ''device_revoked'' then emitAuth DeviceRevoked
                  else if rs_status res = 401 then emitAuth Unauthorized else ret ()) (\<lambda>_.
        throw (APIError (rs_status res) code (opt_or (str_field ''message'' err) []))))"

definition api_request :: "http_method \<Rightarrow> string \<Rightarrow> (string \<times> string) list \<Rightarrow> string option \<Rightarrow> json option \<Rightarrow> http_request" where
  "api_request method path query token body =
     \<lparr>rq_method = method, rq_path = path, rq_query = query,
      rq_token = (case token of Some t \<Rightarrow> if t = [] then None else Some t | None \<Rightarrow> None),
      rq_body = (case body of Some j \<Rightarrow> JsonBody j | None \<Rightarrow> NoBody)\<rparr>"

definition finish_request :: "http_response \<Rightarrow> ('n world, json option) io" where
  "finish_request res =
     (if \<not> res_ok res then throwForErrorResponse res
      else if rs_status res = 200 \<and> rs_json_type res
        then (case rs_json res of None \<Rightarrow> throw SyntaxErr | Some j \<Rightarrow> ret (Some j))
      else ret None)"

definition request :: "'n platform \<Rightarrow> http_request \<Rightarrow> ('n world, json option) io" where
  "request P rq = await (do_fetch P rq) finish_request"

text \<open>Reading a property of a response value: on \<open>undefined\<close> it is a \<open>TypeError\<close>.\<close>

definition read_body :: "(json \<Rightarrow> 'a option) \<Rightarrow> json option \<Rightarrow> ('w, 'a) io" where
  "read_body f j = or_throw (TypeErr ''undefined'') (Option.bind j f)"

definition read_unit :: "json option \<Rightarrow> ('w, unit) io" where
  "read_unit j = ret ()"

section \<open>Types\<close>

record kdf_params =
  kdf_m :: nat
  kdf_t :: nat
  kdf_p :: nat

definition kdf_json :: "kdf_params \<Rightarrow> json" where
  "kdf_json k = JObj [(''type'', JStr ''argon2id''), (''m'', JNum (NInt (int (kdf_m k)))),
     (''t'', JNum (NInt (int (kdf_t k)))), (''p'', JNum (NInt (int (kdf_p k))))]"

definition nat_field :: "string \<Rightarrow> json \<Rightarrow> nat option" where
  "nat_field k j = (case num_field k j of Some (NInt i) \<Rightarrow> if 0 \<le> i then Some (nat i) else None | _ \<Rightarrow> None)"

definition kdf_of :: "json \<Rightarrow> kdf_params option" where
  "kdf_of j = (case (nat_field ''m'' j, nat_field ''t'' j, nat_field ''p'' j) of
      (Some m, Some t, Some p) \<Rightarrow> Some \<lparr>kdf_m = m, kdf_t = t, kdf_p = p\<rparr> | _ \<Rightarrow> None)"

record pow_challenge =
  pc_nonce :: string
  pc_m :: nat
  pc_t :: nat
  pc_p :: nat
  pc_bits :: nat

definition pow_challenge_of :: "json \<Rightarrow> pow_challenge option" where
  "pow_challenge_of j = (case (str_field ''nonce'' j, nat_field ''m'' j, nat_field ''t'' j, nat_field ''p'' j, nat_field ''bits'' j) of
      (Some n, Some m, Some t, Some p, Some b) \<Rightarrow>
        Some \<lparr>pc_nonce = n, pc_m = m, pc_t = t, pc_p = p, pc_bits = b\<rparr>
    | _ \<Rightarrow> None)"

record pow_proof =
  pp_nonce :: string
  pp_counter :: nat

record register_request =
  rr_handle :: string
  rr_device_label :: string
  rr_auth_public_key :: string
  rr_sharing_public_key :: string
  rr_salt :: "string option"
  rr_kdf :: "kdf_params option"
  rr_pow :: pow_proof

definition register_json :: "register_request \<Rightarrow> json" where
  "register_json r = JObj
     ([(''handle'', JStr (rr_handle r)), (''device_label'', JStr (rr_device_label r)),
       (''auth_public_key'', JStr (rr_auth_public_key r)), (''sharing_public_key'', JStr (rr_sharing_public_key r))]
      @ opt_member ''salt'' JStr (rr_salt r) @ opt_member ''kdf'' kdf_json (rr_kdf r)
      @ [(''pow'', JObj [(''nonce'', JStr (pp_nonce (rr_pow r))), (''counter'', JNum (NInt (int (pp_counter (rr_pow r)))))])])"

record register_response =
  rg_user_id :: string
  rg_device_id :: string
  rg_token :: string
  rg_handle :: string

definition register_response_of :: "json \<Rightarrow> register_response option" where
  "register_response_of j = (case (str_field ''user_id'' j, str_field ''device_id'' j, str_field ''token'' j, str_field ''handle'' j) of
      (Some u, Some d, Some t, Some h) \<Rightarrow> Some \<lparr>rg_user_id = u, rg_device_id = d, rg_token = t, rg_handle = h\<rparr>
    | _ \<Rightarrow> None)"

record resolve_live =
  rl_user_id :: string
  rl_sharing_public_key :: string
  rl_display_name :: "string option"
  rl_avatar_url :: "string option"
  rl_salt :: "string option"
  rl_kdf :: "kdf_params option"
  rl_key_version :: "int option"

datatype resolve_result = Live resolve_live | NotFound | Released string string

definition int_field :: "string \<Rightarrow> json \<Rightarrow> int option" where
  "int_field k j = (case num_field k j of Some (NInt i) \<Rightarrow> Some i | _ \<Rightarrow> None)"

definition resolve_live_of :: "json \<Rightarrow> resolve_live option" where
  "resolve_live_of j = (case (str_field ''user_id'' j, str_field ''sharing_public_key'' j) of
      (Some u, Some k) \<Rightarrow> Some \<lparr>rl_user_id = u, rl_sharing_public_key = k,
          rl_display_name = str_field ''display_name'' j, rl_avatar_url = str_field ''avatar_url'' j,
          rl_salt = str_field ''salt'' j, rl_kdf = Option.bind (field ''kdf'' j) kdf_of,
          rl_key_version = int_field ''key_version'' j\<rparr>
    | _ \<Rightarrow> None)"

record auth_payload =
  ap_user_id :: string
  ap_device_id :: string
  ap_timestamp :: string
  ap_key_version :: int

definition auth_payload_json :: "auth_payload \<Rightarrow> json" where
  "auth_payload_json a = JObj [(''user_id'', JStr (ap_user_id a)), (''device_id'', JStr (ap_device_id a)),
     (''timestamp'', JStr (ap_timestamp a)), (''key_version'', JNum (NInt (ap_key_version a)))]"

definition auth_proof_json :: "auth_payload \<Rightarrow> string \<Rightarrow> json" where
  "auth_proof_json a sig = JObj [(''payload'', auth_payload_json a), (''signature'', JStr sig)]"

record rotate_request =
  rk_request_id :: string
  rk_key_version :: int
  rk_auth_public_key :: string
  rk_sharing_public_key :: string
  rk_salt :: string
  rk_kdf :: kdf_params

text \<open>The members of a rotation request without and with the continuity signature.\<close>

definition rotate_members :: "rotate_request \<Rightarrow> (string \<times> json) list" where
  "rotate_members r =
     [(''request_id'', JStr (rk_request_id r)), (''key_version'', JNum (NInt (rk_key_version r))),
      (''auth_public_key'', JStr (rk_auth_public_key r)), (''sharing_public_key'', JStr (rk_sharing_public_key r)),
      (''salt'', JStr (rk_salt r)), (''kdf'', kdf_json (rk_kdf r))]"

record device_info =
  di_device_id :: string
  di_device_label :: string
  di_created_at :: string

definition device_info_of :: "json \<Rightarrow> device_info option" where
  "device_info_of j = (case (str_field ''device_id'' j, str_field ''device_label'' j, str_field ''created_at'' j) of
      (Some d, Some l, Some c) \<Rightarrow> Some \<lparr>di_device_id = d, di_device_label = l, di_created_at = c\<rparr>
    | _ \<Rightarrow> None)"

record store_page =
  sp_keys :: "string list"
  sp_next_cursor :: string

definition str_list :: "json \<Rightarrow> string list option" where
  "str_list j = (case j of
      JArr xs \<Rightarrow> those (map (\<lambda>x. case x of JStr s \<Rightarrow> Some s | _ \<Rightarrow> None) xs)
    | _ \<Rightarrow> None)"

definition store_page_of :: "json \<Rightarrow> store_page option" where
  "store_page_of j = (case Option.bind (field ''keys'' j) str_list of
      Some ks \<Rightarrow> Some \<lparr>sp_keys = ks, sp_next_cursor = opt_or (str_field ''next_cursor'' j) []\<rparr>
    | None \<Rightarrow> None)"

section \<open>Account and device endpoints\<close>

definition getRegisterChallenge :: "'n platform \<Rightarrow> ('n world, pow_challenge) io" where
  "getRegisterChallenge P =
     await (request P (api_request GET ''/v1/register/challenge'' [] None None)) (read_body pow_challenge_of)"

definition register :: "'n platform \<Rightarrow> register_request \<Rightarrow> ('n world, register_response) io" where
  "register P req =
     await (request P (api_request POST ''/v1/register'' [] None (Some (register_json req)))) (read_body register_response_of)"

definition device_token_of :: "json \<Rightarrow> (string \<times> string) option" where
  "device_token_of j = (case (str_field ''device_id'' j, str_field ''token'' j) of
      (Some d, Some t) \<Rightarrow> Some (d, t) | _ \<Rightarrow> None)"

definition addDevice :: "'n platform \<Rightarrow> string \<Rightarrow> string \<Rightarrow> auth_payload \<Rightarrow> string \<Rightarrow> ('n world, string \<times> string) io" where
  "addDevice P userId label payload sig =
     await (request P (api_request POST ''/v1/devices'' [] None (Some (JObj
       [(''user_id'', JStr userId), (''device_label'', JStr label), (''auth_proof'', auth_proof_json payload sig)]))))
     (read_body device_token_of)"

definition rotate_response_of :: "json \<Rightarrow> (string \<times> int) option" where
  "rotate_response_of j = (case (str_field ''token'' j, int_field ''key_version'' j) of
      (Some t, Some v) \<Rightarrow> Some (t, v) | _ \<Rightarrow> None)"

definition rotateKeys :: "'n platform \<Rightarrow> string \<Rightarrow> rotate_request \<Rightarrow> string \<Rightarrow> ('n world, string \<times> int) io" where
  "rotateKeys P token req sig =
     await (request P (api_request POST ''/v1/rotate-keys'' [] (Some token)
       (Some (JObj (rotate_members req @ [(''continuity_signature'', JStr sig)])))))
     (read_body rotate_response_of)"

definition deleteDevice :: "'n platform \<Rightarrow> string \<Rightarrow> ('n world, unit) io" where
  "deleteDevice P token = await (request P (api_request DELETE ''/v1/devices'' [] (Some token) None)) read_unit"

definition deleteProfile :: "'n platform \<Rightarrow> string \<Rightarrow> ('n world, unit) io" where
  "deleteProfile P token = await (request P (api_request DELETE ''/v1/profile'' [] (Some token) None)) read_unit"

definition revokeDevice :: "'n platform \<Rightarrow> string \<Rightarrow> string \<Rightarrow> auth_payload \<Rightarrow> string \<Rightarrow> ('n world, unit) io" where
  "revokeDevice P token deviceId payload sig =
     await (request P (api_request POST ''/v1/devices/revoke'' [] (Some token) (Some (JObj
       [(''device_id'', JStr deviceId), (''auth_proof'', auth_proof_json payload sig)])))) read_unit"

definition updateProfile :: "'n platform \<Rightarrow> string \<Rightarrow> string option \<Rightarrow> string option \<Rightarrow> ('n world, unit) io" where
  "updateProfile P token displayName avatarUrl =
     await (request P (api_request PUT ''/v1/profile'' [] (Some token) (Some (JObj
       (opt_member ''display_name'' JStr displayName @ opt_member ''avatar_url'' JStr avatarUrl))))) read_unit"

section \<open>Resolve\<close>

definition uri_unreserved :: "char \<Rightarrow> bool" where
  "uri_unreserved c \<longleftrightarrow> (let n = (of_char c :: nat) in
     (48 \<le> n \<and> n \<le> 57) \<or> (65 \<le> n \<and> n \<le> 90) \<or> (97 \<le> n \<and> n \<le> 122)) \<or> c \<in> set ''-_.!~*()'' \<or> c = CHR 0x27"

definition upper_hex :: "nat \<Rightarrow> char" where
  "upper_hex n = (if n < 10 then char_of (48 + n) else char_of (55 + n))"

definition encodeURIComponent :: "string \<Rightarrow> string" where
  "encodeURIComponent s = concat (map (\<lambda>c. if uri_unreserved c then [c]
     else [CHR ''%'', upper_hex (of_char c div 16), upper_hex (of_char c mod 16)]) s)"

definition resolve_outcome :: "http_response \<Rightarrow> ('n world, resolve_result) io" where
  "resolve_outcome res =
     (if rs_status res = 404 then ret NotFound
      else if rs_status res = 410 then
        (let body = opt_or (rs_json res) (JObj [])
         in if body = JNull then throw (TypeErr ''null'')
            else ret (Released (opt_or (str_field ''released_at'' body) []) (opt_or (str_field ''available_at'' body) [])))
      else if \<not> res_ok res then throwForErrorResponse res
      else (case rs_json res of
          None \<Rightarrow> throw SyntaxErr
        | Some j \<Rightarrow> await (read_body resolve_live_of (Some j)) (\<lambda>d. ret (Live d))))"

definition resolve :: "'n platform \<Rightarrow> string \<Rightarrow> ('n world, resolve_result) io" where
  "resolve P handle =
     await (do_fetch P (api_request GET (''/v1/resolve/'' @ encodeURIComponent handle) [] None None)) resolve_outcome"

section \<open>Sending\<close>

definition SEND_ATTEMPTS :: nat where
  "SEND_ATTEMPTS = 3"

definition send_request :: "string \<Rightarrow> envelope list \<Rightarrow> http_request" where
  "send_request token envelopes =
     api_request POST ''/v1/send'' [] (Some token) (Some (JObj [(''envelopes'', JArr (map envelope_json envelopes))]))"

definition terminal_error :: "js_error \<Rightarrow> bool" where
  "terminal_error e = (case e of APIError s _ _ \<Rightarrow> s < 500 | _ \<Rightarrow> False)"

fun send_attempts :: "nat \<Rightarrow> js_error \<Rightarrow> 'n platform \<Rightarrow> http_request \<Rightarrow> ('n world, unit) io" where
  "send_attempts 0 lastErr P rq = throw lastErr"
| "send_attempts (Suc n) lastErr P rq = (\<lambda>w.
     (case request P rq w of
        (Inr _, w') \<Rightarrow> (Inr (), w')
      | (Inl e, w') \<Rightarrow> if terminal_error e then (Inl e, w') else send_attempts n e P rq w'))"

definition send :: "'n platform \<Rightarrow> string \<Rightarrow> envelope list \<Rightarrow> ('n world, unit) io" where
  "send P token envelopes = send_attempts SEND_ATTEMPTS (JsError ''undefined'') P (send_request token envelopes)"

section \<open>Store\<close>

definition list_request :: "string \<Rightarrow> string \<Rightarrow> string option \<Rightarrow> http_request" where
  "list_request token prefix cursor =
     api_request GET ''/v1/store/list''
       ((''prefix'', prefix) # (case cursor of Some c \<Rightarrow> if c = [] then [] else [(''cursor'', c)] | None \<Rightarrow> []))
       (Some token) None"

definition storeList :: "'n platform \<Rightarrow> string \<Rightarrow> string \<Rightarrow> string option \<Rightarrow> ('n world, store_page) io" where
  "storeList P token prefix cursor = await (request P (list_request token prefix cursor)) (read_body store_page_of)"

fun list_pages :: "nat \<Rightarrow> 'n platform \<Rightarrow> string \<Rightarrow> string \<Rightarrow> string option \<Rightarrow> string list \<Rightarrow> ('n world, string list) io" where
  "list_pages 0 P token prefix cursor keys = throw OutOfFuel"
| "list_pages (Suc n) P token prefix cursor keys =
     await (storeList P token prefix cursor) (\<lambda>page.
       if sp_next_cursor page = [] then ret (keys @ sp_keys page)
       else list_pages n P token prefix (Some (sp_next_cursor page)) (keys @ sp_keys page))"

definition storeListAll :: "'n platform \<Rightarrow> string \<Rightarrow> string \<Rightarrow> ('n world, string list) io" where
  "storeListAll P token prefix = list_pages (pl_page_limit P) P token prefix None []"

definition object_request :: "http_method \<Rightarrow> string \<Rightarrow> string \<Rightarrow> http_request" where
  "object_request m token key = api_request m ''/v1/store/object'' [(''key'', key)] (Some token) None"

definition storeGet :: "'n platform \<Rightarrow> string \<Rightarrow> string \<Rightarrow> ('n world, bytes) io" where
  "storeGet P token key = await (do_fetch P (object_request GET token key)) (\<lambda>res.
     if \<not> res_ok res then throwForErrorResponse res else ret (rs_bytes res))"

definition listDevices :: "'n platform \<Rightarrow> string \<Rightarrow> string \<Rightarrow> ('n world, device_info list) io" where
  "listDevices P token userId =
     await (storeList P token (path_devices userId) None) (\<lambda>listRes.
     fold_io (\<lambda>key devices.
       await (storeGet P token key) (\<lambda>blob.
       await (or_throw SyntaxErr (json_parse blob)) (\<lambda>j.
       await (or_throw (TypeErr ''device'') (device_info_of j)) (\<lambda>device.
       ret (devices @ [device]))))) (sp_keys listRes) [])"

record storage_usage =
  us_used_bytes :: nat
  us_quota_bytes :: nat
  us_blob_count :: nat
  us_quota_blob_cap :: nat

definition storage_usage_of :: "json \<Rightarrow> storage_usage option" where
  "storage_usage_of j = (case (nat_field ''used_bytes'' j, nat_field ''quota_bytes'' j, nat_field ''blob_count'' j, nat_field ''quota_blob_cap'' j) of
      (Some u, Some q, Some b, Some c) \<Rightarrow>
        Some \<lparr>us_used_bytes = u, us_quota_bytes = q, us_blob_count = b, us_quota_blob_cap = c\<rparr>
    | _ \<Rightarrow> None)"

definition getStorageUsage :: "'n platform \<Rightarrow> string \<Rightarrow> ('n world, storage_usage) io" where
  "getStorageUsage P token =
     await (request P (api_request GET ''/v1/store/usage'' [] (Some token) None)) (read_body storage_usage_of)"

definition storeDelete :: "'n platform \<Rightarrow> string \<Rightarrow> string \<Rightarrow> ('n world, unit) io" where
  "storeDelete P token key = await (request P (object_request DELETE token key)) read_unit"

definition presign_request :: "string \<Rightarrow> string \<Rightarrow> nat \<Rightarrow> http_request" where
  "presign_request token key n = api_request POST ''/v1/store/presign'' [] (Some token)
     (Some (JObj [(''key'', JStr key), (''bytes'', JNum (NInt (int n)))]))"

definition storePresign :: "'n platform \<Rightarrow> string \<Rightarrow> string \<Rightarrow> nat \<Rightarrow> ('n world, string) io" where
  "storePresign P token key n =
     await (request P (presign_request token key n)) (read_body (str_field ''presigned_url''))"

definition storeCompact :: "'n platform \<Rightarrow> string \<Rightarrow> string \<Rightarrow> string \<Rightarrow> ('n world, unit) io" where
  "storeCompact P token prefix upTo =
     await (request P (api_request POST ''/v1/store/compact'' [] (Some token)
       (Some (JObj [(''prefix'', JStr prefix), (''up_to'', JStr upTo)])))) read_unit"

section \<open>Media objects\<close>

text \<open>\<open>aborted\<close> is the state of the caller's \<open>AbortSignal\<close> (constantly false when there is none).\<close>

definition put_request :: "string \<Rightarrow> bytes \<Rightarrow> http_request" where
  "put_request url body = \<lparr>rq_method = PUT, rq_path = url, rq_query = [], rq_token = None, rq_body = BytesBody body\<rparr>"

definition decimal :: "nat \<Rightarrow> string" where
  "decimal n = show_nat n"

definition upload_error :: "nat \<Rightarrow> js_error" where
  "upload_error s = APIError s ''upload_failed'' (''PUT failed: '' @ decimal s)"

fun put_attempts :: "nat \<Rightarrow> js_error \<Rightarrow> 'n platform \<Rightarrow> http_request \<Rightarrow> ('n \<Rightarrow> bool) \<Rightarrow> ('n world, unit) io" where
  "put_attempts 0 lastErr P rq aborted = throw lastErr"
| "put_attempts (Suc n) lastErr P rq aborted = (\<lambda>w.
     (case do_fetch P rq w of
        (Inr res, w') \<Rightarrow>
          (if res_ok res then (Inr (), w')
           else if rs_status res < 500 then (Inl (upload_error (rs_status res)), w')
           else put_attempts n (upload_error (rs_status res)) P rq aborted w')
      | (Inl e, w') \<Rightarrow>
          (if aborted (w_net w') then (Inl AbortErr, w') else put_attempts n e P rq aborted w')))"

definition putWithRetry :: "'n platform \<Rightarrow> string \<Rightarrow> bytes \<Rightarrow> ('n \<Rightarrow> bool) \<Rightarrow> ('n world, unit) io" where
  "putWithRetry P url body aborted = put_attempts 2 (JsError ''undefined'') P (put_request url body) aborted"

record encrypted_media =
  em_ciphertext :: bytes
  em_key :: bytes
  em_iv :: bytes
  em_plaintextSize :: nat

definition uploadMedia :: "'n platform \<Rightarrow> string \<Rightarrow> string \<Rightarrow> encrypted_media \<Rightarrow> ('n \<Rightarrow> bool) \<Rightarrow> ('n world, string \<times> string) io" where
  "uploadMedia P token userId encrypted aborted =
     await (platform_io (pl_ulid P)) (\<lambda>mediaUlid.
     let key = path_media userId mediaUlid in
     await (storePresign P token key (length (em_ciphertext encrypted))) (\<lambda>presigned_url.
     await (putWithRetry P presigned_url (em_ciphertext encrypted) aborted) (\<lambda>_.
     ret (key, mediaUlid))))"

fun error_message :: "js_error \<Rightarrow> string" where
  "error_message (TypeErr m) = m"
| "error_message (APIError _ _ m) = m"
| "error_message (NetworkError m) = m"
| "error_message (JsError m) = m"
| "error_message _ = ''network error''"

definition fetchMedia :: "'n platform \<Rightarrow> string \<Rightarrow> string \<Rightarrow> ('n world, bytes) io" where
  "fetchMedia P token url =
     catch_err
       (await (do_fetch P (object_request GET token url)) (\<lambda>res.
          if rs_status res = 404 then throw NotFoundError
          else if \<not> res_ok res then throw (NetworkError (''status '' @ decimal (rs_status res)))
          else ret (rs_bytes res)))
       (\<lambda>e. case e of NotFoundError \<Rightarrow> throw NotFoundError | NetworkError m \<Rightarrow> throw (NetworkError m)
          | _ \<Rightarrow> throw (NetworkError (error_message e)))"

section \<open>What a call leaves alone\<close>

text \<open>An API call changes nothing of the client but the log of auth events and the platform's
  state; in particular it never writes the database.\<close>

definition on_local :: "(idb \<Rightarrow> (string \<times> string) list \<Rightarrow> mgr \<Rightarrow> bool) \<Rightarrow> 'n world \<Rightarrow> bool" where
  "on_local Q w \<longleftrightarrow> Q (w_db w) (w_ls w) (w_mgr w)"

lemma on_db_local: "on_db Q = on_local (\<lambda>d _ _. Q d)"
  by (simp add: fun_eq_iff on_db_def on_local_def)

lemma local_platform_io [keeps_intros]: "keeps (on_local Q) (platform_io f)"
  by (simp add: keeps_def io_simps on_local_def)

lemma local_emitAuth [keeps_intros]: "keeps (on_local Q) (emitAuth ev)"
  by (simp add: keeps_def emitAuth_def on_local_def)

lemma local_do_fetch [keeps_intros]: "keeps (on_local Q) (do_fetch P rq)"
  unfolding do_fetch_def by (intro keeps_intros)

lemma local_throw [keeps_intros]: "keeps (on_local Q) (throwForErrorResponse res)"
  unfolding throwForErrorResponse_def Let_def by (intro keeps_intros)

lemma local_request [keeps_intros]: "keeps (on_local Q) (request P rq)"
  unfolding request_def finish_request_def
  by (intro keeps_intros) (auto intro: keeps_intros split: option.splits)

lemma local_read [keeps_intros]: "keeps Q (read_body f j)" "keeps Q (read_unit j)"
  by (auto intro: keeps_intros simp: read_body_def read_unit_def)

lemma local_send_attempts [keeps_intros]: "keeps (on_local Q) (send_attempts n e P rq)"
proof (induction n arbitrary: e)
  case (Suc n)
  show ?case
  proof (rule keepsI)
    fix w :: "'a world" assume "on_local Q w"
    then have "on_local Q (snd (request P rq w))" by (rule keepsD [OF local_request])
    then show "on_local Q (snd (send_attempts (Suc n) e P rq w))"
      using Suc.IH by (auto simp: keeps_def split: prod.splits sum.splits)
  qed
qed (simp add: keeps_intros)

lemma local_put_attempts [keeps_intros]: "keeps (on_local Q) (put_attempts n e P rq ab)"
proof (induction n arbitrary: e)
  case (Suc n)
  show ?case
  proof (rule keepsI)
    fix w :: "'a world" assume "on_local Q w"
    then have "on_local Q (snd (do_fetch P rq w))" by (rule keepsD [OF local_do_fetch])
    then show "on_local Q (snd (put_attempts (Suc n) e P rq ab w))"
      using Suc.IH by (auto simp: keeps_def split: prod.splits sum.splits)
  qed
qed (simp add: keeps_intros)

lemma local_list_pages [keeps_intros]: "keeps (on_local Q) (list_pages n P t p c ks)"
  by (induction n arbitrary: c ks) (auto simp: storeList_def intro!: keeps_intros)

lemma api_keep_local [keeps_intros]:
  "keeps (on_local Q) (getRegisterChallenge P)" "keeps (on_local Q) (register P rr)"
  "keeps (on_local Q) (addDevice P u l pl s)" "keeps (on_local Q) (rotateKeys P t rk s)"
  "keeps (on_local Q) (deleteDevice P t)" "keeps (on_local Q) (deleteProfile P t)"
  "keeps (on_local Q) (revokeDevice P t d pl s)" "keeps (on_local Q) (updateProfile P t dn av)"
  "keeps (on_local Q) (send P t es)" "keeps (on_local Q) (storeList P t p co)"
  "keeps (on_local Q) (storeListAll P t p)" "keeps (on_local Q) (storeDelete P t key)"
  "keeps (on_local Q) (storePresign P t key n)" "keeps (on_local Q) (storeCompact P t p up)"
  "keeps (on_local Q) (putWithRetry P url b ab)" "keeps (on_local Q) (getStorageUsage P t)"
  by (auto intro!: keeps_intros simp: getRegisterChallenge_def register_def addDevice_def rotateKeys_def
      deleteDevice_def deleteProfile_def revokeDevice_def updateProfile_def send_def storeList_def
      storeListAll_def storeDelete_def storePresign_def storeCompact_def putWithRetry_def getStorageUsage_def)

lemma local_storeGet [keeps_intros]: "keeps (on_local Q) (storeGet P t key)"
  unfolding storeGet_def by (intro keeps_intros)

lemma local_resolve [keeps_intros]: "keeps (on_local Q) (resolve P h)"
  unfolding resolve_def resolve_outcome_def Let_def
  by (intro keeps_intros) (auto intro!: keeps_intros split: option.splits)

lemma local_listDevices [keeps_intros]: "keeps (on_local Q) (listDevices P t u)"
  unfolding listDevices_def by (intro keeps_intros)

lemma local_uploadMedia [keeps_intros]: "keeps (on_local Q) (uploadMedia P t u em ab)"
  unfolding uploadMedia_def Let_def by (intro keeps_intros)

lemma local_fetchMedia [keeps_intros]: "keeps (on_local Q) (fetchMedia P t url)"
  unfolding fetchMedia_def by (intro keeps_intros) (auto intro: keeps_intros split: js_error.splits)

lemmas api_keep_db [keeps_intros] =
  api_keep_local [where Q = "\<lambda>d _ _. Q d", folded on_db_local] for Q

lemmas api_keep_db' [keeps_intros] =
  local_storeGet [where Q = "\<lambda>d _ _. Q d", folded on_db_local]
  local_resolve [where Q = "\<lambda>d _ _. Q d", folded on_db_local]
  local_listDevices [where Q = "\<lambda>d _ _. Q d", folded on_db_local]
  local_uploadMedia [where Q = "\<lambda>d _ _. Q d", folded on_db_local]
  local_fetchMedia [where Q = "\<lambda>d _ _. Q d", folded on_db_local] for Q

section \<open>Error classification\<close>

lemma throwForErrorResponse_throws: "\<exists>e. fst (throwForErrorResponse res w) = Inl e"
  by (auto simp: throwForErrorResponse_def Let_def io_simps emitAuth_def)

lemma throwForErrorResponse_not_Inr [simp]: "throwForErrorResponse res w \<noteq> (Inr x, w')"
  by (metis throwForErrorResponse_throws fst_conv sum.distinct(2))

text \<open>An error response always throws, and the session is told exactly when it must end:
  \<open>key_version_stale\<close> becomes its typed error with the server's version and one event; a 403
  \<open>device_revoked\<close> and any other 401 emit theirs once; every other status emits nothing. A body that
  is not JSON is reported under the status text.\<close>

lemma throwForErrorResponse_classifies:
  "throwForErrorResponse res w =
     (let err = error_body res; code = opt_or (str_field ''error'' err) [] in
      if err = JNull then (Inl (TypeErr ''err is null''), w)
      else if code = ''key_version_stale''
        then (Inl (KeyVersionStaleError (current_version err)), w\<lparr>w_events := w_events w @ [KeyVersionStale]\<rparr>)
      else (Inl (APIError (rs_status res) code (opt_or (str_field ''message'' err) [])),
            if rs_status res = 403 \<and> code = ''device_revoked'' then w\<lparr>w_events := w_events w @ [DeviceRevoked]\<rparr>
            else if rs_status res = 401 then w\<lparr>w_events := w_events w @ [Unauthorized]\<rparr> else w))"
  by (simp add: throwForErrorResponse_def error_body_def Let_def io_simps emitAuth_def str_field_def)

section \<open>Retries\<close>

text \<open>A platform whose state is the log of the requests made.\<close>

definition logs_requests :: "http_request list platform \<Rightarrow> bool" where
  "logs_requests P \<longleftrightarrow> (\<forall>rq n. snd (pl_fetch P rq n) = n @ [rq])"

lemma request_log:
  assumes "logs_requests P"
  shows "w_net (snd (request P rq w)) = w_net w @ [rq]"
proof -
  have net: "w_net (snd (finish_request res w')) = w_net w'" for res and w' :: "http_request list world"
    by (auto simp: finish_request_def throwForErrorResponse_def Let_def io_simps emitAuth_def split: option.splits)
  have f: "snd (pl_fetch P rq n) = n @ [rq]" for n
    using assms by (simp add: logs_requests_def)
  show ?thesis
    by (cases "fst (pl_fetch P rq (w_net w))") (simp_all add: request_def do_fetch_def io_simps net f)
qed

lemma send_attempts_log:
  assumes "logs_requests P"
  shows "\<exists>k \<le> n. w_net (snd (send_attempts n e P rq w)) = w_net w @ replicate k rq
    \<and> (0 < n \<longrightarrow> 0 < k)
    \<and> (\<forall>e'. 0 < n \<and> fst (send_attempts n e P rq w) = Inl e' \<and> \<not> terminal_error e' \<longrightarrow> k = n)"
proof (induction n arbitrary: e w)
  case (Suc n)
  show ?case
  proof (cases "request P rq w")
    case (Pair r w1)
    have l: "w_net w1 = w_net w @ [rq]"
      using request_log [OF assms, of rq w] Pair by simp
    show ?thesis
    proof (cases r)
      case (Inl e1)
      show ?thesis
      proof (cases "terminal_error e1")
        case True
        with Pair Inl l show ?thesis by (intro exI [of _ 1]) simp
      next
        case False
        obtain k where k: "k \<le> n" "w_net (snd (send_attempts n e1 P rq w1)) = w_net w1 @ replicate k rq"
            "\<forall>e'. 0 < n \<and> fst (send_attempts n e1 P rq w1) = Inl e' \<and> \<not> terminal_error e' \<longrightarrow> k = n"
          using Suc.IH [of e1 w1] by blast
        with False Pair Inl l show ?thesis
          by (intro exI [of _ "Suc k"]) (cases n; simp)
      qed
    next
      case (Inr x)
      with Pair l show ?thesis by (intro exI [of _ 1]) simp
    qed
  qed
qed (simp add: io_simps)

text \<open>\<open>send\<close> makes between one and three attempts, every one of them the same request (the same
  envelopes with the same message ids, so a repeat cannot duplicate a message on a server that
  keys them by id), and gives up early only on a client error (status below 500).\<close>

lemma send_same_request:
  assumes "logs_requests P"
  shows "\<exists>k. 1 \<le> k \<and> k \<le> 3
    \<and> w_net (snd (send P token envs w)) = w_net w @ replicate k (send_request token envs)
    \<and> (\<forall>e. fst (send P token envs w) = Inl e \<and> k < 3 \<longrightarrow> terminal_error e)"
proof -
  obtain k where "k \<le> 3" "0 < k" "w_net (snd (send P token envs w)) = w_net w @ replicate k (send_request token envs)"
      "\<forall>e'. fst (send P token envs w) = Inl e' \<and> \<not> terminal_error e' \<longrightarrow> k = 3"
    using send_attempts_log [OF assms, of SEND_ATTEMPTS "JsError ''undefined''" "send_request token envs" w]
    by (auto simp: send_def SEND_ATTEMPTS_def)
  then show ?thesis by (intro exI [of _ k]) auto
qed

definition logging_platform :: "(http_request \<Rightarrow> http_response option) \<Rightarrow> http_request list platform" where
  "logging_platform server = quiet_platform\<lparr>pl_fetch := (\<lambda>rq n. (server rq, n @ [rq]))\<rparr>"

definition logging_world :: "http_request list world" where
  "logging_world = \<lparr>w_db = empty_idb, w_ls = [], w_mgr = empty_mgr, w_events = [], w_net = []\<rparr>"

lemma logging_platform_logs: "logs_requests (logging_platform server)"
  by (simp add: logs_requests_def logging_platform_def)

definition stale_response :: "int \<Rightarrow> http_response" where
  "stale_response v = \<lparr>rs_status = 401, rs_status_text = ''Unauthorized'', rs_json_type = True,
     rs_json = Some (JObj [(''error'', JStr ''key_version_stale''), (''current'', JNum (NInt v))]), rs_bytes = []\<rparr>"

lemma request_stale:
  "request (logging_platform (\<lambda>_. Some (stale_response v))) rq w =
     (Inl (KeyVersionStaleError v), w\<lparr>w_events := w_events w @ [KeyVersionStale], w_net := w_net w @ [rq]\<rparr>)"
  by (simp add: request_def do_fetch_def logging_platform_def io_simps finish_request_def res_ok_def
      stale_response_def throwForErrorResponse_def error_body_def current_version_def emitAuth_def
      str_field_def num_field_def)

text \<open>A superseded token is retried. The stale-version error is not an \<open>APIError\<close>, so \<open>send\<close> treats
  the server's 401 \<open>key_version_stale\<close> as transient: against a server that answers it, the client
  makes all three attempts and emits the event three times, although the code's comment says every
  4xx is terminal and fails fast.\<close>

lemma send_retries_stale_version:
  "fst (send (logging_platform (\<lambda>_. Some (stale_response v))) token envs w) = Inl (KeyVersionStaleError v)
   \<and> w_net (snd (send (logging_platform (\<lambda>_. Some (stale_response v))) token envs w)) =
       w_net w @ replicate 3 (send_request token envs)
   \<and> w_events (snd (send (logging_platform (\<lambda>_. Some (stale_response v))) token envs w)) =
       w_events w @ replicate 3 KeyVersionStale"
  by (simp add: send_def SEND_ATTEMPTS_def numeral_3_eq_3 request_stale terminal_error_def io_simps)

section \<open>Listing a prefix\<close>

text \<open>A server that holds the keys \<open>ks\<close> under the prefix, in order, and answers a listing with the
  \<open>k\<close> first of them after the cursor and, when more remain, the last of these as the next cursor.\<close>

definition keys_after :: "string list \<Rightarrow> string option \<Rightarrow> string list" where
  "keys_after ks cursor = (case cursor of None \<Rightarrow> ks | Some c \<Rightarrow> filter (\<lambda>x. c < x) ks)"

definition page_json :: "nat \<Rightarrow> string list \<Rightarrow> json" where
  "page_json k rest = JObj [(''keys'', JArr (map JStr (take k rest))),
     (''next_cursor'', JStr (if length rest \<le> k then [] else last (take k rest)))]"

definition serves_listing :: "'n platform \<Rightarrow> string \<Rightarrow> string \<Rightarrow> nat \<Rightarrow> string list \<Rightarrow> bool" where
  "serves_listing P token prefix k ks \<longleftrightarrow> (\<forall>cursor n. \<exists>res.
     fst (pl_fetch P (list_request token prefix cursor) n) = Some res
     \<and> rs_status res = 200 \<and> rs_json_type res \<and> rs_json res = Some (page_json k (keys_after ks cursor)))"

lemma str_list_map [simp]: "str_list (JArr (map JStr xs)) = Some xs"
  by (simp add: str_list_def comp_def) (induction xs; simp)

lemma storeList_page:
  assumes "serves_listing P token prefix k ks"
  shows "fst (storeList P token prefix cursor w) =
    Inr \<lparr>sp_keys = take k (keys_after ks cursor),
         sp_next_cursor = (if length (keys_after ks cursor) \<le> k then [] else last (take k (keys_after ks cursor)))\<rparr>"
proof -
  obtain res where res: "fst (pl_fetch P (list_request token prefix cursor) (w_net w)) = Some res"
      "rs_status res = 200" "rs_json_type res" "rs_json res = Some (page_json k (keys_after ks cursor))"
    using assms unfolding serves_listing_def by blast
  then show ?thesis
    by (simp add: storeList_def request_def do_fetch_def io_simps finish_request_def res_ok_def read_body_def
        store_page_of_def page_json_def str_field_def)
qed

lemma keys_after_step:
  assumes "sorted_wrt (<) ks" and "0 < k" and "k < length (keys_after ks cursor)"
  shows "keys_after ks (Some (last (take k (keys_after ks cursor)))) = drop k (keys_after ks cursor)"
proof -
  let ?r = "keys_after ks cursor"
  have sr: "sorted_wrt (<) ?r" using assms(1) by (auto simp: keys_after_def sorted_wrt_filter split: option.splits)
  obtain a where a: "last (take k ?r) = a" "a \<in> set (take k ?r)"
    using assms(2,3) by (metis last_in_set length_greater_0_conv length_take min_less_iff_conj list.size(3) less_trans)
  have cut: "?r = take k ?r @ drop k ?r" by simp
  have above: "\<forall>x \<in> set (drop k ?r). a < x"
    using sr a(2) cut by (metis sorted_wrt_append)
  have below: "\<forall>x \<in> set (take k ?r). \<not> a < x"
  proof -
    have "sorted_wrt (<) (take k ?r)" using sr by (rule sorted_wrt_take)
    moreover have "take k ?r = butlast (take k ?r) @ [a]"
      using a assms(2,3) by (metis append_butlast_last_id empty_iff empty_set)
    ultimately have "\<forall>x \<in> set (butlast (take k ?r)). x < a"
      by (metis sorted_wrt_append list.set_intros(1))
    with \<open>take k ?r = butlast (take k ?r) @ [a]\<close> show ?thesis
      by (metis Un_iff empty_iff empty_set insert_iff less_asym less_irrefl list.set(2) set_append)
  qed
  have "filter (\<lambda>x. a < x) ?r = drop k ?r"
    using above below by (subst cut) (simp only: filter_append, simp add: filter_id_conv)
  moreover have "filter (\<lambda>x. a < x) ?r = filter (\<lambda>x. a < x) ks"
  proof (cases cursor)
    case (Some c)
    have "a \<in> set ?r" using a(2) by (rule in_set_takeD)
    then have "c < a" using Some by (simp add: keys_after_def)
    then show ?thesis using Some by (auto simp: keys_after_def intro!: filter_cong dest: less_trans)
  qed (simp add: keys_after_def)
  ultimately show ?thesis unfolding a(1) by (simp add: keys_after_def [of ks "Some a"])
qed

lemma list_pages_complete:
  assumes "serves_listing P token prefix k ks" and "sorted_wrt (<) ks" and "[] \<notin> set ks" and "0 < k"
    and "length (keys_after ks cursor) < n"
  shows "fst (list_pages n P token prefix cursor acc w) = Inr (acc @ keys_after ks cursor)"
  using assms(5)
proof (induction n arbitrary: cursor acc w)
  case (Suc n)
  let ?r = "keys_after ks cursor"
  define page where "page = \<lparr>sp_keys = take k ?r,
      sp_next_cursor = (if length ?r \<le> k then [] else last (take k ?r))\<rparr>"
  define w1 where "w1 = snd (storeList P token prefix cursor w)"
  have page: "storeList P token prefix cursor w = (Inr page, w1)"
      "sp_keys page = take k ?r" "sp_next_cursor page = (if length ?r \<le> k then [] else last (take k ?r))"
    using io_result [where m = "storeList P token prefix cursor" and w = w, OF storeList_page [OF assms(1)]] by (simp_all add: page_def w1_def)
  show ?case
  proof (cases "length ?r \<le> k")
    case True
    with page show ?thesis by (simp add: io_simps)
  next
    case False
    then have "last (take k ?r) \<in> set ?r"
      using assms(4) by (metis in_set_takeD last_in_set length_take min_def not_less list.size(3) nat_neq_iff not_less0 take_eq_Nil)
    moreover have "set ?r \<subseteq> set ks" by (auto simp: keys_after_def split: option.splits)
    ultimately have ne: "last (take k ?r) \<noteq> []" using assms(3) by auto
    have step: "keys_after ks (Some (last (take k ?r))) = drop k ?r"
      using keys_after_step [OF assms(2,4)] False by simp
    have "fst (list_pages n P token prefix (Some (last (take k ?r))) (acc @ take k ?r) w1) =
        Inr ((acc @ take k ?r) @ keys_after ks (Some (last (take k ?r))))"
      by (rule Suc.IH) (use Suc.prems False assms(4) step in simp)
    with page False ne step show ?thesis by (simp add: io_simps)
  qed
qed simp

text \<open>C31: \<open>storeListAll\<close> ends and misses nothing. Against a server that pages through its keys as the
  store does (a page size of at least one, the last key of a full page as the cursor), the loop
  returns, after finitely many pages, every key under the prefix, in order and each once.\<close>

theorem storeListAll_complete:
  assumes "serves_listing P token prefix k ks" and "sorted_wrt (<) ks" and "[] \<notin> set ks" and "0 < k"
    and "length ks < pl_page_limit P"
  shows "fst (storeListAll P token prefix w) = Inr ks"
  using list_pages_complete [OF assms(1-4), of None "pl_page_limit P" "[]" w] assms(5)
  by (simp add: storeListAll_def keys_after_def)

definition demo_listing :: "http_request list platform" where
  "demo_listing = (logging_platform (\<lambda>rq. Some \<lparr>rs_status = 200, rs_status_text = [], rs_json_type = True,
     rs_json = Some (page_json 1 (keys_after [''a'', ''b''] (map_of (rq_query rq) ''cursor''))), rs_bytes = []\<rparr>))
     \<lparr>pl_page_limit := 3\<rparr>"

theorem storeListAll_complete_witness:
  "fst (storeListAll demo_listing ''t'' ''p'' logging_world) = Inr [''a'', ''b'']"
proof (rule storeListAll_complete)
  have "keys_after [''a'', ''b''] (Some []) = [''a'', ''b'']" by (simp add: keys_after_def)
  then show "serves_listing demo_listing ''t'' ''p'' 1 [''a'', ''b'']"
    by (auto simp: serves_listing_def demo_listing_def logging_platform_def list_request_def api_request_def
        keys_after_def split: option.splits)
qed (simp_all add: demo_listing_def)

section \<open>Object transfer\<close>

text \<open>An upload is attempted at most twice. \<open>putWithRetry\<close> returns exactly on a 2xx of one of the
  attempts; a status below 500 ends it at once; after a 5xx or a network error it tries once more,
  unless the caller aborted, and then fails with the last error.\<close>

lemma putWithRetry_attempts:
  "putWithRetry P url body aborted w =
    (let rq = put_request url body in
     case do_fetch P rq w of
       (Inr res, w1) \<Rightarrow>
         if res_ok res then (Inr (), w1)
         else if rs_status res < 500 then (Inl (upload_error (rs_status res)), w1)
         else (case do_fetch P rq w1 of
                 (Inr res2, w2) \<Rightarrow> (if res_ok res2 then Inr () else Inl (upload_error (rs_status res2)), w2)
               | (Inl e, w2) \<Rightarrow> (Inl (if aborted (w_net w2) then AbortErr else e), w2))
     | (Inl e, w1) \<Rightarrow>
         if aborted (w_net w1) then (Inl AbortErr, w1)
         else (case do_fetch P rq w1 of
                 (Inr res2, w2) \<Rightarrow> (if res_ok res2 then Inr () else Inl (upload_error (rs_status res2)), w2)
               | (Inl e2, w2) \<Rightarrow> (Inl (if aborted (w_net w2) then AbortErr else e2), w2)))"
  by (simp add: putWithRetry_def numeral_2_eq_2 Let_def io_simps split: prod.splits sum.splits)

text \<open>\<open>fetchMedia\<close> fails only with \<open>NotFoundError\<close>, exactly on a 404, or with \<open>NetworkError\<close>.\<close>

lemma fetchMedia_errors:
  "fetchMedia P token url w = (case fst (pl_fetch P (object_request GET token url) (w_net w)) of
      None \<Rightarrow> Inl (NetworkError ''Failed to fetch'')
    | Some res \<Rightarrow> if rs_status res = 404 then Inl NotFoundError
        else if res_ok res then Inr (rs_bytes res)
        else Inl (NetworkError (''status '' @ decimal (rs_status res))),
    w\<lparr>w_net := snd (pl_fetch P (object_request GET token url) (w_net w))\<rparr>)"
  by (simp add: fetchMedia_def do_fetch_def io_simps split: option.splits)

text \<open>A handle resolves to one of its three states by status: 404 is unknown and 410 is released,
  whatever the body; another error status throws; a success needs a live projection.\<close>

lemma resolve_states:
  assumes "resolve P h w = (Inr r, w')"
  shows "\<exists>res. fst (pl_fetch P (api_request GET (''/v1/resolve/'' @ encodeURIComponent h) [] None None) (w_net w)) = Some res
    \<and> (r = NotFound \<longleftrightarrow> rs_status res = 404)
    \<and> ((\<exists>a b. r = Released a b) \<longleftrightarrow> rs_status res = 410)
    \<and> ((\<exists>d. r = Live d) \<longleftrightarrow> res_ok res) \<and> (\<forall>d. r = Live d \<longrightarrow> Option.bind (rs_json res) resolve_live_of = Some d)"
  using assms
  by (auto simp: resolve_def do_fetch_def io_simps resolve_outcome_def Let_def read_body_def res_ok_def
      split: option.splits if_splits)

end
