(* ===== verification/Crypto.thy ===== *)
theory Crypto
  imports Api
begin

text \<open>
  web/src/lib/crypto.ts: key derivation, auth proofs, the ECIES key share and AES-GCM backup
  encryption, over the primitives of the platform. A rejected WebCrypto promise is an
  \<open>OperationErr\<close>. The laws the lemmas need of the primitives (authenticated decryption inverts
  encryption, Diffie-Hellman agreement) are named predicates on the platform.
\<close>

definition bytes_of :: "nat list \<Rightarrow> bytes" where
  "bytes_of ns = map char_of ns"

definition ED25519_PKCS8_PREFIX :: bytes where
  "ED25519_PKCS8_PREFIX = bytes_of [0x30, 0x2e, 0x02, 0x01, 0x00, 0x30, 0x05, 0x06, 0x03, 0x2b, 0x65, 0x70,
     0x04, 0x22, 0x04, 0x20]"

definition wrapPkcs8 :: "bytes \<Rightarrow> bytes \<Rightarrow> bytes" where
  "wrapPkcs8 prefix seed = prefix @ seed"

definition generateBackupSecret :: "'n platform \<Rightarrow> ('n world, bytes) io" where
  "generateBackupSecret P = platform_io (pl_random P 16)"

definition DEFAULT_KDF :: kdf_params where
  "DEFAULT_KDF = \<lparr>kdf_m = 65536, kdf_t = 3, kdf_p = 1\<rparr>"

definition generateSalt :: "'n platform \<Rightarrow> ('n world, bytes) io" where
  "generateSalt P = platform_io (pl_random P 16)"

definition HKDF_SALT :: bytes where
  "HKDF_SALT = ''atmin.net''"

definition hkdfDerive :: "'n platform \<Rightarrow> bytes \<Rightarrow> string \<Rightarrow> bytes" where
  "hkdfDerive P secret info = pl_hkdf P secret HKDF_SALT info"

record derived_keys =
  dk_authPrivate :: crypto_key
  dk_authPublicBytes :: bytes
  dk_sharingPrivate :: crypto_key
  dk_sharingPublicBytes :: bytes
  dk_backupKey :: crypto_key

definition deriveKeys :: "'n platform \<Rightarrow> bytes \<Rightarrow> bool \<Rightarrow> ('n world, derived_keys) io" where
  "deriveKeys P secret extractable =
     (let authSeed = hkdfDerive P secret ''auth-v1'';
          sharingSeed = hkdfDerive P secret ''sharing-v1'';
          backupKeyBytes = hkdfDerive P secret ''backup-v1'';
          authPrivate = wrapPkcs8 ED25519_PKCS8_PREFIX authSeed
      in if \<not> pl_p256_valid P sharingSeed then throw (JsError ''sharing seed out of range for P-256'')
         else ret \<lparr>dk_authPrivate = \<lparr>ck_raw = authPrivate, ck_extractable = True\<rparr>,
                   dk_authPublicBytes = pl_ed25519_public P authPrivate,
                   dk_sharingPrivate = \<lparr>ck_raw = sharingSeed, ck_extractable = False\<rparr>,
                   dk_sharingPublicBytes = pl_p256_public P sharingSeed,
                   dk_backupKey = \<lparr>ck_raw = backupKeyBytes, ck_extractable = extractable\<rparr>\<rparr>)"

section \<open>Signatures\<close>

definition canonicalizeForSign :: "'n platform \<Rightarrow> json \<Rightarrow> ('n world, bytes) io" where
  "canonicalizeForSign P obj = or_throw (JsError ''canonicalize returned undefined'') (pl_canonicalize P obj)"

definition signContinuity :: "'n platform \<Rightarrow> crypto_key \<Rightarrow> rotate_request \<Rightarrow> ('n world, bytes) io" where
  "signContinuity P privateKey body =
     await (canonicalizeForSign P (JObj (rotate_members body))) (\<lambda>data.
     ret (pl_ed25519_sign P (ck_raw privateKey) data))"

definition signAuthProofV2 :: "'n platform \<Rightarrow> crypto_key \<Rightarrow> auth_payload \<Rightarrow> ('n world, bytes) io" where
  "signAuthProofV2 P privateKey payload =
     await (canonicalizeForSign P (auth_payload_json payload)) (\<lambda>data.
     ret (pl_ed25519_sign P (ck_raw privateKey) data))"

section \<open>ECIES\<close>

record ecies_ciphertext =
  ec_ephemeralKey :: bytes
  ec_iv :: bytes
  ec_ciphertext :: bytes

definition ECIES_INFO :: bytes where
  "ECIES_INFO = ''atmin.net key share''"

definition ecies_aes_key :: "'n platform \<Rightarrow> bytes \<Rightarrow> bytes" where
  "ecies_aes_key P shared = pl_hkdf P shared [] ECIES_INFO"

definition eciesEncrypt :: "'n platform \<Rightarrow> bytes \<Rightarrow> bytes \<Rightarrow> ('n world, ecies_ciphertext) io" where
  "eciesEncrypt P recipientPublicKey plaintext =
     await (platform_io (pl_p256_generate P)) (\<lambda>ephemeral.
     await (or_throw OperationErr (pl_ecdh P ephemeral recipientPublicKey)) (\<lambda>shared.
     await (platform_io (pl_random P 12)) (\<lambda>iv.
     ret \<lparr>ec_ephemeralKey = pl_p256_public P ephemeral, ec_iv = iv,
          ec_ciphertext = pl_aes_encrypt P (ecies_aes_key P shared) iv plaintext\<rparr>)))"

definition importSharingPublicKey :: "'n platform \<Rightarrow> bytes \<Rightarrow> ('n world, bytes) io" where
  "importSharingPublicKey P raw = (if pl_p256_point_ok P raw then ret raw else throw OperationErr)"

definition eciesDecrypt :: "'n platform \<Rightarrow> crypto_key \<Rightarrow> ecies_ciphertext \<Rightarrow> ('n world, bytes) io" where
  "eciesDecrypt P recipientPrivateKey ec =
     await (importSharingPublicKey P (ec_ephemeralKey ec)) (\<lambda>ephPub.
     await (or_throw OperationErr (pl_ecdh P (ck_raw recipientPrivateKey) ephPub)) (\<lambda>shared.
     or_throw OperationErr (pl_aes_decrypt P (ecies_aes_key P shared) (ec_iv ec) (ec_ciphertext ec))))"

section \<open>Backup encryption\<close>

record aes_ciphertext =
  ae_iv :: bytes
  ae_ciphertext :: bytes

definition backupEncrypt :: "'n platform \<Rightarrow> crypto_key \<Rightarrow> bytes \<Rightarrow> ('n world, aes_ciphertext) io" where
  "backupEncrypt P backupKey plaintext =
     await (platform_io (pl_random P 12)) (\<lambda>iv.
     ret \<lparr>ae_iv = iv, ae_ciphertext = pl_aes_encrypt P (ck_raw backupKey) iv plaintext\<rparr>)"

definition backupDecrypt :: "'n platform \<Rightarrow> crypto_key \<Rightarrow> aes_ciphertext \<Rightarrow> ('n world, bytes) io" where
  "backupDecrypt P backupKey c =
     or_throw OperationErr (pl_aes_decrypt P (ck_raw backupKey) (ae_iv c) (ae_ciphertext c))"

section \<open>Media encryption\<close>

text \<open>\<open>encryptMedia\<close> and \<open>decryptMedia\<close> of web/src/lib/media.ts; a file is its bytes.\<close>

definition encryptMedia :: "'n platform \<Rightarrow> bytes \<Rightarrow> ('n world, encrypted_media) io" where
  "encryptMedia P file =
     (if length file > MAX_MEDIA_BYTES then throw FileTooLargeError
      else await (platform_io (pl_random P 32)) (\<lambda>key.
        await (platform_io (pl_random P 12)) (\<lambda>iv.
        ret \<lparr>em_ciphertext = pl_aes_encrypt P key iv file, em_key = key, em_iv = iv,
             em_plaintextSize = length file\<rparr>)))"

definition decryptMedia :: "'n platform \<Rightarrow> bytes \<Rightarrow> bytes \<Rightarrow> bytes \<Rightarrow> ('n world, bytes) io" where
  "decryptMedia P ciphertext key iv =
     (if \<not> pl_aes_key_ok P key then throw OperationErr
      else or_throw MediaCorruptError (pl_aes_decrypt P key iv ciphertext))"

lemma crypto_keep [keeps_intros]:
  "keeps (on_local Q) (generateBackupSecret P)" "keeps (on_local Q) (generateSalt P)"
  "keeps (on_local Q) (deriveKeys P s x)" "keeps (on_local Q) (signContinuity P k rk)"
  "keeps (on_local Q) (signAuthProofV2 P k pl)" "keeps (on_local Q) (eciesEncrypt P pk m)"
  "keeps (on_local Q) (eciesDecrypt P sk ec)" "keeps (on_local Q) (backupEncrypt P bk m)"
  "keeps (on_local Q) (backupDecrypt P bk c)" "keeps (on_local Q) (importSharingPublicKey P raw)"
  "keeps (on_local Q) (encryptMedia P f)" "keeps (on_local Q) (decryptMedia P ct rk' iv)"
  by (auto intro!: keeps_intros simp: generateBackupSecret_def generateSalt_def deriveKeys_def Let_def
      signContinuity_def signAuthProofV2_def canonicalizeForSign_def eciesEncrypt_def eciesDecrypt_def
      backupEncrypt_def backupDecrypt_def importSharingPublicKey_def encryptMedia_def decryptMedia_def)

lemmas crypto_keep_db [keeps_intros] = crypto_keep [where Q = "\<lambda>d _ _. Q d", folded on_db_local] for Q

section \<open>Laws of the primitives\<close>

text \<open>AES-GCM: decryption under the same key and nonce gives the plaintext back.\<close>

definition aes_law :: "'n platform \<Rightarrow> bool" where
  "aes_law P \<longleftrightarrow> (\<forall>k iv m. pl_aes_decrypt P k iv (pl_aes_encrypt P k iv m) = Some m)"

text \<open>ECDH: both sides compute the same secret, and a generated public key imports.\<close>

definition ecdh_law :: "'n platform \<Rightarrow> bool" where
  "ecdh_law P \<longleftrightarrow> (\<forall>a b. pl_ecdh P a (pl_p256_public P b) = pl_ecdh P b (pl_p256_public P a))
     \<and> (\<forall>a. pl_p256_point_ok P (pl_p256_public P a))"

lemma backup_roundtrip:
  assumes "aes_law P" and "backupEncrypt P k m w = (Inr c, w')"
  shows "backupDecrypt P k c w'' = (Inr m, w'')"
  using assms by (auto simp: backupEncrypt_def backupDecrypt_def io_simps aes_law_def)

lemma ecies_roundtrip:
  assumes "aes_law P" and "ecdh_law P" and a: "eciesEncrypt P (pl_p256_public P (ck_raw sk)) m w = (Inr ec, w1)"
  shows "eciesDecrypt P sk ec w2 = (Inr m, w2)"
proof -
  have "\<forall>a b. pl_ecdh P a (pl_p256_public P b) = pl_ecdh P b (pl_p256_public P a)"
    using assms(2) by (simp add: ecdh_law_def)
  then have c: "pl_ecdh P a (pl_p256_public P (ck_raw sk)) = pl_ecdh P (ck_raw sk) (pl_p256_public P a)" for a
    by blast
  show "eciesDecrypt P sk ec w2 = (Inr m, w2)"
    using a assms(1,2)
    by (auto simp: eciesEncrypt_def eciesDecrypt_def io_simps importSharingPublicKey_def aes_law_def
        ecdh_law_def c split: option.splits)
qed

text \<open>A key share can be opened by its recipient and a backup by the holder of the backup key:
  what \<open>eciesEncrypt\<close> produces for a user's public sharing key, that user's private key decrypts to
  the same bytes, and likewise for \<open>backupEncrypt\<close>, \<open>encryptMedia\<close> and their inverses.\<close>

lemma encryption_roundtrips:
  assumes "aes_law P" and "ecdh_law P"
  shows "(eciesEncrypt P (pl_p256_public P (ck_raw sk)) m w = (Inr ec, w1) \<longrightarrow>
            eciesDecrypt P sk ec w2 = (Inr m, w2))
    \<and> (backupEncrypt P bk m w = (Inr c, w1) \<longrightarrow> backupDecrypt P bk c w2 = (Inr m, w2))
    \<and> (encryptMedia P m w = (Inr em, w1) \<and> pl_aes_key_ok P (em_key em) \<longrightarrow>
         decryptMedia P (em_ciphertext em) (em_key em) (em_iv em) w2 = (Inr m, w2)
         \<and> em_plaintextSize em = length m \<and> length m \<le> MAX_MEDIA_BYTES)"
proof (intro conjI impI)
  show "eciesDecrypt P sk ec w2 = (Inr m, w2)"
    if "eciesEncrypt P (pl_p256_public P (ck_raw sk)) m w = (Inr ec, w1)"
    using assms that by (rule ecies_roundtrip)
qed (use assms(1) in \<open>auto simp: backup_roundtrip encryptMedia_def decryptMedia_def io_simps aes_law_def
    split: if_splits\<close>)

lemma quiet_laws: "aes_law quiet_platform" "ecdh_law quiet_platform"
  by (simp_all add: aes_law_def ecdh_law_def quiet_platform_def)

end
