(* ===== verification/KeyEnvelope.thy ===== *)
theory KeyEnvelope
  imports Crypto
begin

text \<open>
  web/src/lib/key-backup-envelope.ts: the versioned envelope of an encrypted backup blob. It is an
  instance of the codec contract of theory Base64, and so is its JSON text, by the chain of the two
  codecs.
\<close>

record kb_envelope =
  kb_v :: int
  kb_iv :: bytes
  kb_ciphertext :: bytes
  kb_sessionId :: "string option"

definition wrapKeyBackupEnvelope :: "int \<Rightarrow> bytes \<Rightarrow> bytes \<Rightarrow> string option \<Rightarrow> json" where
  "wrapKeyBackupEnvelope v iv ciphertext sessionId = JObj
     ([(''v'', JNum (NInt v)), (''iv'', JStr (btoa iv)), (''ciphertext'', JStr (btoa ciphertext))]
      @ (case sessionId of
           Some s \<Rightarrow> if s \<noteq> [] then [(''session_id'', JStr s), (''msg_id'', JStr s)] else []
         | None \<Rightarrow> []))"

definition envelope_version :: "json \<Rightarrow> int" where
  "envelope_version obj = (case num_field ''v'' obj of Some (NInt i) \<Rightarrow> if 0 < i then i else 1 | _ \<Rightarrow> 1)"

definition parseKeyBackupEnvelope :: "json \<Rightarrow> js_error + kb_envelope" where
  "parseKeyBackupEnvelope raw =
     (if \<not> is_object raw then Inl (JsError ''envelope: not an object'')
      else (case (str_field ''iv'' raw, str_field ''ciphertext'' raw) of
         (Some iv, Some ct) \<Rightarrow>
           (case (atob iv, atob ct) of
              (Some i, Some c) \<Rightarrow> Inr \<lparr>kb_v = envelope_version raw, kb_iv = i, kb_ciphertext = c,
                                     kb_sessionId = str_field ''session_id'' raw\<rparr>
            | _ \<Rightarrow> Inl InvalidCharacterError)
       | _ \<Rightarrow> Inl (JsError ''envelope: missing iv or ciphertext'')))"

definition envelope_valid :: "kb_envelope \<Rightarrow> bool" where
  "envelope_valid e \<longleftrightarrow> 0 < kb_v e \<and> kb_sessionId e \<noteq> Some []"

definition wrap_envelope :: "kb_envelope \<Rightarrow> json" where
  "wrap_envelope e = wrapKeyBackupEnvelope (kb_v e) (kb_iv e) (kb_ciphertext e) (kb_sessionId e)"

definition right_opt :: "'e + 'a \<Rightarrow> 'a option" where
  "right_opt r = (case r of Inl _ \<Rightarrow> None | Inr x \<Rightarrow> Some x)"

lemma right_opt_simps [simp]: "right_opt (Inl e) = None" "right_opt (Inr x) = Some x"
  by (simp_all add: right_opt_def)

lemma right_opt_Some: "right_opt r = Some x \<longleftrightarrow> r = Inr x"
  by (cases r) auto

lemma parse_wrap_envelope: "envelope_valid e \<Longrightarrow> parseKeyBackupEnvelope (wrap_envelope e) = Inr e"
  by (auto simp: wrap_envelope_def wrapKeyBackupEnvelope_def parseKeyBackupEnvelope_def envelope_valid_def
      str_field_def num_field_def envelope_version_def atob_btoa split: option.splits)

lemma wrap_envelope_wf: "json_wf (wrap_envelope e)"
  by (auto simp: wrap_envelope_def wrapKeyBackupEnvelope_def split: option.splits)

interpretation backup_envelope: codec envelope_valid wrap_envelope "\<lambda>j. right_opt (parseKeyBackupEnvelope j)"
  by unfold_locales (simp add: parse_wrap_envelope)

interpretation backup_text: codec_chain envelope_valid wrap_envelope
  "\<lambda>j. right_opt (parseKeyBackupEnvelope j)" json_wf stringify json_parse
  by unfold_locales (simp add: wrap_envelope_wf)

text \<open>A backup blob reads back as it was written: parsing the stored JSON text of an envelope with
  a positive key version gives its version, nonce, ciphertext and session id, and two different
  envelopes never have the same text. A blob without a usable version is read as version 1.\<close>

lemma envelope_text_roundtrip:
  assumes "envelope_valid e"
  shows "Option.bind (json_parse (stringify (wrap_envelope e))) (\<lambda>j. right_opt (parseKeyBackupEnvelope j)) = Some e
    \<and> (envelope_valid e' \<and> stringify (wrap_envelope e') = stringify (wrap_envelope e) \<longrightarrow> e' = e)
    \<and> envelope_version (JObj (filter (\<lambda>(k, _). k \<noteq> ''v'') ms)) = 1"
proof (intro conjI impI)
  show "Option.bind (json_parse (stringify (wrap_envelope e))) (\<lambda>j. right_opt (parseKeyBackupEnvelope j)) = Some e"
    using assms by (rule backup_text.chain_roundtrip)
  show "e' = e" if "envelope_valid e' \<and> stringify (wrap_envelope e') = stringify (wrap_envelope e)"
    using that assms backup_text.chain.enc_inj [of e' e] by simp
  have "map_of (filter (\<lambda>(k, _). k \<noteq> ''v'') ms) ''v'' = None"
    by (induction ms) auto
  then show "envelope_version (JObj (filter (\<lambda>(k, _). k \<noteq> ''v'') ms)) = 1"
    by (simp add: envelope_version_def num_field_def)
qed

end
