(* ===== verification/Idb.thy ===== *)
theory Idb
  imports Platform
begin

text \<open>
  web/src/lib/db.ts: the operations on the stores that hold one kind of record each (keys, backup
  keys, pending key backups, contacts, Megolm sessions, key shares, cursors, ingested archives,
  media cache) and the version 10 upgrade. Messages and conversations are in theory
  Conversations.
\<close>

section \<open>Keys\<close>

definition putKey :: "'n platform \<Rightarrow> string \<Rightarrow> crypto_key \<Rightarrow> ('n world, unit) io" where
  "putKey P name key = db_write P (\<lambda>d. d\<lparr>db_keys := st_put name key (db_keys d)\<rparr>)"

definition getKey :: "'n platform \<Rightarrow> string \<Rightarrow> ('n world, crypto_key option) io" where
  "getKey P name = db_read P (\<lambda>d. st_get name (db_keys d))"

definition clearKeys :: "'n platform \<Rightarrow> ('n world, unit) io" where
  "clearKeys P = db_write P (\<lambda>d. d\<lparr>db_keys := []\<rparr>)"

section \<open>Backup keys by version\<close>

definition putBackupKey :: "'n platform \<Rightarrow> string \<Rightarrow> int \<Rightarrow> crypto_key \<Rightarrow> ('n world, unit) io" where
  "putBackupKey P userId version key =
     db_write P (\<lambda>d. d\<lparr>db_backup_keys := st_put (userId, version) key (db_backup_keys d)\<rparr>)"

definition getBackupKey :: "'n platform \<Rightarrow> string \<Rightarrow> int \<Rightarrow> ('n world, crypto_key option) io" where
  "getBackupKey P userId version = db_read P (\<lambda>d. st_get (userId, version) (db_backup_keys d))"

definition clearBackupKeys :: "'n platform \<Rightarrow> ('n world, unit) io" where
  "clearBackupKeys P = db_write P (\<lambda>d. d\<lparr>db_backup_keys := []\<rparr>)"

section \<open>Pending key backups\<close>

definition enqueuePendingKeyBackup :: "'n platform \<Rightarrow> string \<Rightarrow> string \<Rightarrow> ('n world, unit) io" where
  "enqueuePendingKeyBackup P sessionId sessionKeyB64 =
     db_write P (\<lambda>d. d\<lparr>db_pending := st_put sessionId sessionKeyB64 (db_pending d)\<rparr>)"

definition listPendingKeyBackups :: "'n platform \<Rightarrow> ('n world, (string \<times> string) list) io" where
  "listPendingKeyBackups P = db_read P (\<lambda>d. db_pending d)"

definition deletePendingKeyBackup :: "'n platform \<Rightarrow> string \<Rightarrow> ('n world, unit) io" where
  "deletePendingKeyBackup P sessionId =
     db_write P (\<lambda>d. d\<lparr>db_pending := st_delete sessionId (db_pending d)\<rparr>)"

definition clearPendingKeyBackups :: "'n platform \<Rightarrow> ('n world, unit) io" where
  "clearPendingKeyBackups P = db_write P (\<lambda>d. d\<lparr>db_pending := []\<rparr>)"

text \<open>The deletion waits while another connection is open, in another tab for instance, and runs when it
  closes; the model is the run in which it gets there.\<close>

definition deleteDatabase :: "'n platform \<Rightarrow> ('n world, unit) io" where
  "deleteDatabase P = db_write P (\<lambda>_. empty_idb)"

section \<open>Contacts\<close>

definition saveContact :: "'n platform \<Rightarrow> string \<Rightarrow> string \<Rightarrow> ('n world, unit) io" where
  "saveContact P userId handle = db_write P (\<lambda>d. d\<lparr>db_contacts := st_put userId handle (db_contacts d)\<rparr>)"

definition getContact :: "'n platform \<Rightarrow> string \<Rightarrow> ('n world, string option) io" where
  "getContact P userId = db_read P (\<lambda>d. st_get userId (db_contacts d))"

definition loadAllContacts :: "'n platform \<Rightarrow> ('n world, (string \<times> string) list) io" where
  "loadAllContacts P = db_read P (\<lambda>d. db_contacts d)"

section \<open>Megolm sessions and key shares\<close>

definition saveOutboundSession :: "'n platform \<Rightarrow> string \<Rightarrow> nat \<Rightarrow> string \<Rightarrow> ('n world, unit) io" where
  "saveOutboundSession P sessionId messageIndex pickleJson =
     db_write P (\<lambda>d. d\<lparr>db_outbound := st_put ''current''
       \<lparr>so_pickleJson = pickleJson, so_sessionId = sessionId, so_messageIndex = messageIndex\<rparr> (db_outbound d)\<rparr>)"

definition loadOutboundSession :: "'n platform \<Rightarrow> ('n world, stored_outbound option) io" where
  "loadOutboundSession P = db_read P (\<lambda>d. st_get ''current'' (db_outbound d))"

definition clearOutboundSession :: "'n platform \<Rightarrow> ('n world, unit) io" where
  "clearOutboundSession P = db_write P (\<lambda>d. d\<lparr>db_outbound := []\<rparr>)"

definition saveInboundSession ::
  "'n platform \<Rightarrow> string \<Rightarrow> string \<Rightarrow> string \<Rightarrow> string \<Rightarrow> ('n world, unit) io" where
  "saveInboundSession P sessionId fromUser fromDevice pickleJson =
     db_write P (\<lambda>d. d\<lparr>db_inbound := st_put sessionId
       \<lparr>si_fromUser = fromUser, si_fromDevice = fromDevice, si_pickleJson = pickleJson\<rparr> (db_inbound d)\<rparr>)"

definition loadInboundSession :: "'n platform \<Rightarrow> string \<Rightarrow> ('n world, stored_inbound option) io" where
  "loadInboundSession P sessionId = db_read P (\<lambda>d. st_get sessionId (db_inbound d))"

definition clearInboundSessions :: "'n platform \<Rightarrow> ('n world, unit) io" where
  "clearInboundSessions P = db_write P (\<lambda>d. d\<lparr>db_inbound := []\<rparr>)"

definition recordKeyShare :: "'n platform \<Rightarrow> string \<Rightarrow> string \<Rightarrow> ('n world, unit) io" where
  "recordKeyShare P sessionId recipientUserId =
     await (platform_io (pl_now P)) (\<lambda>now.
     db_write P (\<lambda>d. d\<lparr>db_key_shares := st_put (sessionId, recipientUserId) now (db_key_shares d)\<rparr>))"

definition hasKeyShare :: "'n platform \<Rightarrow> string \<Rightarrow> string \<Rightarrow> ('n world, bool) io" where
  "hasKeyShare P sessionId recipientUserId =
     db_read P (\<lambda>d. st_get (sessionId, recipientUserId) (db_key_shares d) \<noteq> None)"

text \<open>\<open>clearKeyShares(sessionId?)\<close>: an absent or empty id clears the whole store.\<close>

definition clearKeyShares :: "'n platform \<Rightarrow> string option \<Rightarrow> ('n world, unit) io" where
  "clearKeyShares P sessionId =
     db_write P (\<lambda>d. d\<lparr>db_key_shares :=
       (case sessionId of
          Some s \<Rightarrow> if s \<noteq> [] then filter (\<lambda>((sid, _), _). sid \<noteq> s) (db_key_shares d) else []
        | None \<Rightarrow> [])\<rparr>)"

section \<open>Sync cursors and ingested archives\<close>

definition saveSyncCursor :: "'n platform \<Rightarrow> string \<Rightarrow> string \<Rightarrow> ('n world, unit) io" where
  "saveSyncCursor P prefix cursor = db_write P (\<lambda>d. d\<lparr>db_cursors := st_put prefix cursor (db_cursors d)\<rparr>)"

definition loadSyncCursor :: "'n platform \<Rightarrow> string \<Rightarrow> ('n world, string option) io" where
  "loadSyncCursor P prefix = db_read P (\<lambda>d. st_get prefix (db_cursors d))"

definition clearSyncCursors :: "'n platform \<Rightarrow> ('n world, unit) io" where
  "clearSyncCursors P = db_write P (\<lambda>d. d\<lparr>db_cursors := []\<rparr>)"

definition markArchiveIngested :: "'n platform \<Rightarrow> string \<Rightarrow> ('n world, unit) io" where
  "markArchiveIngested P key =
     await (platform_io (pl_now P)) (\<lambda>now.
     db_write P (\<lambda>d. d\<lparr>db_ingested := st_put key now (db_ingested d)\<rparr>))"

definition loadIngestedArchiveKeys :: "'n platform \<Rightarrow> ('n world, string list) io" where
  "loadIngestedArchiveKeys P = db_read P (\<lambda>d. st_keys (db_ingested d))"

definition clearIngestedArchives :: "'n platform \<Rightarrow> ('n world, unit) io" where
  "clearIngestedArchives P = db_write P (\<lambda>d. d\<lparr>db_ingested := []\<rparr>)"

section \<open>Media cache\<close>

definition getMediaBlob :: "'n platform \<Rightarrow> string \<Rightarrow> ('n world, stored_media_blob option) io" where
  "getMediaBlob P url = db_read P (\<lambda>d. st_get url (db_media d))"

definition putMediaBlob :: "'n platform \<Rightarrow> string \<Rightarrow> stored_media_blob \<Rightarrow> ('n world, unit) io" where
  "putMediaBlob P url entry = db_write P (\<lambda>d. d\<lparr>db_media := st_put url entry (db_media d)\<rparr>)"

definition deleteMediaBlob :: "'n platform \<Rightarrow> string \<Rightarrow> ('n world, unit) io" where
  "deleteMediaBlob P url = db_write P (\<lambda>d. d\<lparr>db_media := st_delete url (db_media d)\<rparr>)"

definition clearMediaCache :: "'n platform \<Rightarrow> ('n world, unit) io" where
  "clearMediaCache P = db_write P (\<lambda>d. d\<lparr>db_media := []\<rparr>)"

section \<open>The version 10 upgrade\<close>

text \<open>On a database older than version 10 every conversation row without a watermark gets its
  last message's timestamp as one.\<close>

definition upgrade_v10 :: "nat \<Rightarrow> idb \<Rightarrow> idb" where
  "upgrade_v10 oldVersion d =
     (if oldVersion < 10
      then d\<lparr>db_conversations :=
        map (\<lambda>(k, row). (k, if sc_lastReadTimestamp row = None
               then row\<lparr>sc_lastReadTimestamp := Some (sc_lastMessageTimestamp row)\<rparr> else row))
          (db_conversations d)\<rparr>
      else d)"

section \<open>The database invariant\<close>

lemma idb_ok_empty: "idb_ok empty_idb"
  by (simp add: idb_ok_def empty_idb_def)

lemma st_ok_cong_keys: "map fst s = map fst t \<Longrightarrow> st_ok s \<longleftrightarrow> st_ok t"
  by (simp only: st_ok_def)

lemma st_ok_map_snd: "st_ok (map (\<lambda>(k, v). (k, f v)) s) \<longleftrightarrow> st_ok s"
  by (rule st_ok_cong_keys) (induction s; auto)

lemma upgrade_v10_ok: "idb_ok d \<Longrightarrow> idb_ok (upgrade_v10 v d)"
  using st_ok_map_snd [of "\<lambda>row. if sc_lastReadTimestamp row = None
       then row\<lparr>sc_lastReadTimestamp := Some (sc_lastMessageTimestamp row)\<rparr> else row" "db_conversations d"]
  by (fastforce simp: idb_ok_def upgrade_v10_def)

lemmas db_op_defs = putKey_def getKey_def clearKeys_def putBackupKey_def getBackupKey_def
  clearBackupKeys_def enqueuePendingKeyBackup_def listPendingKeyBackups_def
  deletePendingKeyBackup_def clearPendingKeyBackups_def deleteDatabase_def saveContact_def
  getContact_def loadAllContacts_def saveOutboundSession_def loadOutboundSession_def
  clearOutboundSession_def saveInboundSession_def loadInboundSession_def clearInboundSessions_def
  recordKeyShare_def hasKeyShare_def clearKeyShares_def saveSyncCursor_def loadSyncCursor_def
  clearSyncCursors_def markArchiveIngested_def loadIngestedArchiveKeys_def clearIngestedArchives_def
  getMediaBlob_def putMediaBlob_def deleteMediaBlob_def clearMediaCache_def

text \<open>Every operation of these stores keeps the database well formed, commit or abort.\<close>

lemma db_ops_keep_ok [keeps_intros]:
  "keeps (on_db idb_ok) (putKey P n k)" "keeps (on_db idb_ok) (getKey P n)"
  "keeps (on_db idb_ok) (clearKeys P)"
  "keeps (on_db idb_ok) (putBackupKey P u v k)" "keeps (on_db idb_ok) (getBackupKey P u v)"
  "keeps (on_db idb_ok) (clearBackupKeys P)"
  "keeps (on_db idb_ok) (enqueuePendingKeyBackup P s t)" "keeps (on_db idb_ok) (listPendingKeyBackups P)"
  "keeps (on_db idb_ok) (deletePendingKeyBackup P s)" "keeps (on_db idb_ok) (clearPendingKeyBackups P)"
  "keeps (on_db idb_ok) (deleteDatabase P)"
  "keeps (on_db idb_ok) (saveContact P u h)" "keeps (on_db idb_ok) (getContact P u)"
  "keeps (on_db idb_ok) (loadAllContacts P)"
  by (auto intro!: keeps_intros simp: db_op_defs idb_ok_empty) (auto simp: idb_ok_def)

lemma session_ops_keep_ok [keeps_intros]:
  "keeps (on_db idb_ok) (saveOutboundSession P s i j)" "keeps (on_db idb_ok) (loadOutboundSession P)"
  "keeps (on_db idb_ok) (clearOutboundSession P)"
  "keeps (on_db idb_ok) (saveInboundSession P s fu fd j)" "keeps (on_db idb_ok) (loadInboundSession P s)"
  "keeps (on_db idb_ok) (clearInboundSessions P)"
  "keeps (on_db idb_ok) (recordKeyShare P s u)" "keeps (on_db idb_ok) (hasKeyShare P s u)"
  "keeps (on_db idb_ok) (clearKeyShares P so)"
  by (auto intro!: keeps_intros simp: db_op_defs) (auto simp: idb_ok_def st_ok_filter split: option.splits)

lemma sync_ops_keep_ok [keeps_intros]:
  "keeps (on_db idb_ok) (saveSyncCursor P p c)" "keeps (on_db idb_ok) (loadSyncCursor P p)"
  "keeps (on_db idb_ok) (clearSyncCursors P)"
  "keeps (on_db idb_ok) (markArchiveIngested P key)" "keeps (on_db idb_ok) (loadIngestedArchiveKeys P)"
  "keeps (on_db idb_ok) (clearIngestedArchives P)"
  "keeps (on_db idb_ok) (getMediaBlob P url)" "keeps (on_db idb_ok) (putMediaBlob P url e)"
  "keeps (on_db idb_ok) (deleteMediaBlob P url)" "keeps (on_db idb_ok) (clearMediaCache P)"
  by (auto intro!: keeps_intros simp: db_op_defs) (auto simp: idb_ok_def)

end
