(* ===== verification/KeyChain.thy ===== *)
theory KeyChain
  imports KeyEnvelope Idb
begin

text \<open>
  web/src/lib/key-chain.ts: the chain of backup keys. Each rotation appends a link that wraps the
  older backup key under the newer one; a device walks it back from the current version to the
  version of a blob, memoizing every key it recovers. A chain object whose links have not the
  declared shape is read as an empty chain.
\<close>

record chain_link =
  kl_from :: int
  kl_to :: int
  kl_iv :: string
  kl_ciphertext :: string

definition link_json :: "chain_link \<Rightarrow> json" where
  "link_json l = JObj [(''from'', JNum (NInt (kl_from l))), (''to'', JNum (NInt (kl_to l))),
     (''iv'', JStr (kl_iv l)), (''ciphertext'', JStr (kl_ciphertext l))]"

definition link_of :: "json \<Rightarrow> chain_link option" where
  "link_of j = (case (int_field ''from'' j, int_field ''to'' j, str_field ''iv'' j, str_field ''ciphertext'' j) of
      (Some f, Some t, Some i, Some c) \<Rightarrow> Some \<lparr>kl_from = f, kl_to = t, kl_iv = i, kl_ciphertext = c\<rparr>
    | _ \<Rightarrow> None)"

definition chain_json :: "chain_link list \<Rightarrow> json" where
  "chain_json links = JObj [(''links'', JArr (map link_json links))]"

definition chain_of :: "json \<Rightarrow> chain_link list" where
  "chain_of j = (case field ''links'' j of Some (JArr xs) \<Rightarrow> opt_or (those (map link_of xs)) [] | _ \<Rightarrow> [])"

definition fetchChain :: "'n platform \<Rightarrow> string \<Rightarrow> string \<Rightarrow> ('n world, chain_link list) io" where
  "fetchChain P token userId =
     catch_err
       (await (storeGet P token (path_keyChain userId)) (\<lambda>blob.
        await (or_throw SyntaxErr (json_parse blob)) (\<lambda>parsed.
        ret (chain_of parsed))))
       (\<lambda>_. ret [])"

definition buildChainLink :: "'n platform \<Rightarrow> int \<Rightarrow> int \<Rightarrow> crypto_key \<Rightarrow> crypto_key \<Rightarrow> ('n world, chain_link) io" where
  "buildChainLink P fromVersion toVersion prevKey toKey =
     (if \<not> ck_extractable prevKey then throw OperationErr
      else await (platform_io (pl_random P 12)) (\<lambda>iv.
        ret \<lparr>kl_from = fromVersion, kl_to = toVersion, kl_iv = btoa iv,
             kl_ciphertext = btoa (pl_aes_encrypt P (ck_raw toKey) iv (ck_raw prevKey))\<rparr>))"

definition append_link :: "chain_link \<Rightarrow> chain_link list \<Rightarrow> chain_link list" where
  "append_link link links = filter (\<lambda>l. \<not> (kl_from l = kl_from link \<and> kl_to l = kl_to link)) links @ [link]"

definition never_aborted :: "'n \<Rightarrow> bool" where
  "never_aborted n = False"

text \<open>The presigned upload the client's blobs go through.\<close>

definition upload_object :: "'n platform \<Rightarrow> string \<Rightarrow> string \<Rightarrow> bytes \<Rightarrow> ('n world, unit) io" where
  "upload_object P token key body =
     await (storePresign P token key (length body)) (\<lambda>presigned_url.
     putWithRetry P presigned_url body never_aborted)"

definition appendChainLink :: "'n platform \<Rightarrow> string \<Rightarrow> string \<Rightarrow> chain_link \<Rightarrow> ('n world, unit) io" where
  "appendChainLink P token userId link =
     await (fetchChain P token userId) (\<lambda>current.
     upload_object P token (path_keyChain userId) (stringify (chain_json (append_link link current))))"

section \<open>Walking the chain\<close>

definition open_link :: "'n platform \<Rightarrow> crypto_key \<Rightarrow> chain_link \<Rightarrow> crypto_key option" where
  "open_link P key link =
     (case (atob (kl_iv link), atob (kl_ciphertext link)) of
        (Some iv, Some ct) \<Rightarrow>
          (case pl_aes_decrypt P (ck_raw key) iv ct of
             Some prev \<Rightarrow> if pl_aes_key_ok P prev then Some \<lparr>ck_raw = prev, ck_extractable = False\<rparr> else None
           | None \<Rightarrow> None)
      | _ \<Rightarrow> None)"

fun first_opening :: "'n platform \<Rightarrow> crypto_key \<Rightarrow> chain_link list \<Rightarrow> crypto_key option" where
  "first_opening P key [] = None"
| "first_opening P key (l # ls) =
     (case open_link P key l of Some k \<Rightarrow> Some k | None \<Rightarrow> first_opening P key ls)"

definition hop_links :: "int \<Rightarrow> chain_link list \<Rightarrow> chain_link list" where
  "hop_links version links = filter (\<lambda>l. kl_to l = version \<and> kl_from l = version - 1) links"

definition version_message :: "string \<Rightarrow> int \<Rightarrow> js_error" where
  "version_message what v = JsError (''key chain: '' @ what @ '' v'' @ show_int v)"

text \<open>\<open>walk n\<close> makes the \<open>n\<close> hops of the \<open>while\<close> loop.\<close>

fun walk :: "nat \<Rightarrow> 'n platform \<Rightarrow> string \<Rightarrow> chain_link list \<Rightarrow> crypto_key \<Rightarrow> int \<Rightarrow> ('n world, crypto_key) io" where
  "walk 0 P userId links key version = ret key"
| "walk (Suc n) P userId links key version =
     await (getBackupKey P userId (version - 1)) (\<lambda>memoed.
       case memoed of
         Some k \<Rightarrow> walk n P userId links k (version - 1)
       | None \<Rightarrow>
           (if hop_links version links = [] then throw (version_message ''missing link to'' version)
            else (case first_opening P key (hop_links version links) of
                None \<Rightarrow> throw (version_message ''no link decrypts to'' version)
              | Some prevKey \<Rightarrow>
                  await (putBackupKey P userId (version - 1) prevKey) (\<lambda>_.
                  walk n P userId links prevKey (version - 1)))))"

definition resolveBackupKey ::
  "'n platform \<Rightarrow> string \<Rightarrow> crypto_key \<Rightarrow> int \<Rightarrow> int \<Rightarrow> chain_link list \<Rightarrow> ('n world, crypto_key) io" where
  "resolveBackupKey P userId currentKey currentVersion targetVersion links =
     (if targetVersion = currentVersion then ret currentKey
      else if targetVersion > currentVersion then throw (version_message ''target is newer'' targetVersion)
      else await (getBackupKey P userId targetVersion) (\<lambda>direct.
        case direct of
          Some k \<Rightarrow> ret k
        | None \<Rightarrow> walk (nat (currentVersion - targetVersion)) P userId links currentKey currentVersion))"

section \<open>Well-formed state\<close>

lemma fetchChain_keep [keeps_intros]: "keeps (on_local Q) (fetchChain P t u)"
  unfolding fetchChain_def by (intro keeps_intros)

lemma upload_object_keep [keeps_intros]: "keeps (on_local Q) (upload_object P t key b)"
  unfolding upload_object_def by (intro keeps_intros)

lemma chain_ops_keep [keeps_intros]:
  "keeps (on_local Q) (buildChainLink P f t k1 k2)" "keeps (on_local Q) (appendChainLink P tok u l)"
  unfolding buildChainLink_def appendChainLink_def by (intro keeps_intros)+

lemmas chain_ops_keep_db [keeps_intros] =
  fetchChain_keep [where Q = "\<lambda>d _ _. Q d", folded on_db_local]
  upload_object_keep [where Q = "\<lambda>d _ _. Q d", folded on_db_local]
  chain_ops_keep [where Q = "\<lambda>d _ _. Q d", folded on_db_local] for Q

lemma walk_keep [keeps_intros]: "keeps (on_db idb_ok) (walk n P u ls k v)"
  by (induction n arbitrary: k v) (auto intro!: keeps_intros split: option.splits)

lemma resolveBackupKey_keep [keeps_intros]: "keeps (on_db idb_ok) (resolveBackupKey P u k cv tv ls)"
  unfolding resolveBackupKey_def by (intro keeps_intros) (auto intro: keeps_intros split: option.splits)

section \<open>The walk recovers the old key\<close>

text \<open>\<open>K v\<close> is the raw backup key of version \<open>v\<close>. The chain is sound when every link of a hop that
  opens under the newer key holds the older one (AES-GCM is authenticated, and only the rotating
  device knew the key), whatever orphans of abandoned rotations lie beside it, and complete when
  every hop has a link that opens. The memo is sound when it holds only right keys.\<close>

definition chain_sound :: "'n platform \<Rightarrow> (int \<Rightarrow> bytes) \<Rightarrow> chain_link list \<Rightarrow> bool" where
  "chain_sound P K links \<longleftrightarrow> (\<forall>v k. ck_raw k = K v \<longrightarrow>
     (\<forall>l \<in> set (hop_links v links). \<forall>k'. open_link P k l = Some k' \<longrightarrow> ck_raw k' = K (v - 1)))"

definition chain_complete :: "'n platform \<Rightarrow> (int \<Rightarrow> bytes) \<Rightarrow> int \<Rightarrow> int \<Rightarrow> chain_link list \<Rightarrow> bool" where
  "chain_complete P K target current links \<longleftrightarrow> (\<forall>v k. target < v \<and> v \<le> current \<and> ck_raw k = K v \<longrightarrow>
     (\<exists>l \<in> set (hop_links v links). open_link P k l \<noteq> None))"

definition memo_sound :: "string \<Rightarrow> (int \<Rightarrow> bytes) \<Rightarrow> idb \<Rightarrow> bool" where
  "memo_sound userId K d \<longleftrightarrow> st_ok (db_backup_keys d)
     \<and> (\<forall>v k. st_get (userId, v) (db_backup_keys d) = Some k \<longrightarrow> ck_raw k = K v)"

lemma first_opening_Some:
  "first_opening P key ls = Some k \<Longrightarrow> \<exists>l \<in> set ls. open_link P key l = Some k"
  by (induction ls) (auto split: option.splits)

lemma first_opening_None: "first_opening P key ls = None \<longleftrightarrow> (\<forall>l \<in> set ls. open_link P key l = None)"
  by (induction ls) (auto split: option.splits)

lemma memo_sound_put:
  "memo_sound u K d \<Longrightarrow> ck_raw k = K v \<Longrightarrow> memo_sound u K (d\<lparr>db_backup_keys := st_put (u, v) k (db_backup_keys d)\<rparr>)"
  by (auto simp: memo_sound_def st_get_put)

lemma walk_correct:
  assumes "chain_sound P K links" and "chain_complete P K (v - int n) v links"
    and "\<And>m. fst (pl_idb P m)" and "memo_sound u K (w_db w)" and "ck_raw key = K v"
  shows "\<exists>k w'. walk n P u links key v w = (Inr k, w') \<and> ck_raw k = K (v - int n) \<and> memo_sound u K (w_db w')"
  using assms(2,4,5)
proof (induction n arbitrary: v key w)
  case (Suc n)
  let ?w = "w\<lparr>w_net := snd (pl_idb P (w_net w))\<rparr>"
  have c: "chain_complete P K ((v - 1) - int n) (v - 1) links"
    using Suc.prems(1) by (auto simp: chain_complete_def)
  show ?case
  proof (cases "st_get (u, v - 1) (db_backup_keys (w_db w))")
    case (Some k)
    then have "ck_raw k = K (v - 1)" using Suc.prems(2) by (simp add: memo_sound_def)
    from Suc.IH [OF c _ this, of ?w] Some Suc.prems(2) show ?thesis
      by (auto simp: getBackupKey_def io_simps assms(3) algebra_simps)
  next
    case None
    have "\<exists>l \<in> set (hop_links v links). open_link P key l \<noteq> None"
      using Suc.prems(1,3) unfolding chain_complete_def by force
    then obtain k' where f: "first_opening P key (hop_links v links) = Some k'" and ne: "hop_links v links \<noteq> []"
      by (metis empty_iff empty_set first_opening_None not_None_eq)
    then have k': "ck_raw k' = K (v - 1)"
      using first_opening_Some [OF f] assms(1) Suc.prems(3) unfolding chain_sound_def by blast
    let ?w2 = "?w\<lparr>w_db := (w_db w)\<lparr>db_backup_keys := st_put (u, v - 1) k' (db_backup_keys (w_db w))\<rparr>,
        w_net := snd (pl_idb P (snd (pl_idb P (w_net w))))\<rparr>"
    have "memo_sound u K (w_db ?w2)" using memo_sound_put [of u K "w_db w", OF Suc.prems(2) k'] by simp
    from Suc.IH [OF c this k'] None f ne show ?thesis
      by (auto simp: getBackupKey_def putBackupKey_def io_simps assms(3) algebra_simps)
  qed
qed (simp add: io_simps)

lemma resolve_on_chain:
  assumes "chain_sound P K links" and "chain_complete P K target current links" and "target \<le> current"
    and "\<And>m. fst (pl_idb P m)" and "memo_sound u K (w_db w)" and "ck_raw key = K current"
  shows "\<exists>k w'. resolveBackupKey P u key current target links w = (Inr k, w')
    \<and> ck_raw k = K target \<and> memo_sound u K (w_db w')"
proof (cases "target = current")
  case False
  have n: "current - int (nat (current - target)) = target" using assms(3) by simp
  show ?thesis
  proof (cases "st_get (u, target) (db_backup_keys (w_db w))")
    case (Some k)
    with False assms show ?thesis
      by (auto simp: resolveBackupKey_def getBackupKey_def io_simps memo_sound_def)
  next
    case None
    have "chain_complete P K (current - int (nat (current - target))) current links"
      using assms(2) n by simp
    from walk_correct [OF assms(1) this assms(4) _ assms(6), of u "w\<lparr>w_net := snd (pl_idb P (w_net w))\<rparr>"]
    show ?thesis
      using False None assms n by (auto simp: resolveBackupKey_def getBackupKey_def io_simps)
  qed
qed (use assms in \<open>simp add: resolveBackupKey_def io_simps\<close>)

text \<open>C7: history stays readable across rotations. When the chain has, for every hop from the current
  version down to the target, a link that opens under the newer key (and, beside it, any number of
  orphan links of abandoned rotations), \<open>resolveBackupKey\<close> returns the target version's own key,
  whatever part of the walk was memoized before, and every key it memoizes is right.\<close>

theorem resolveBackupKey_correct:
  assumes "chain_sound P K links" and "chain_complete P K target current links" and "target \<le> current"
    and "\<And>m. fst (pl_idb P m)" and "memo_sound u K (w_db w)" and "ck_raw key = K current"
  shows "\<exists>k w'. resolveBackupKey P u key current target links w = (Inr k, w')
    \<and> ck_raw k = K target \<and> memo_sound u K (w_db w')"
  using resolve_on_chain [OF assms] .

definition demo_keys :: "int \<Rightarrow> bytes" where
  "demo_keys v = (if v \<le> 1 then ''k1'' else ''k2'')"

definition demo_link :: chain_link where
  "demo_link = \<lparr>kl_from = 1, kl_to = 2, kl_iv = btoa [], kl_ciphertext = btoa ''k1''\<rparr>"

lemma demo_open: "open_link quiet_platform k demo_link = Some \<lparr>ck_raw = ''k1'', ck_extractable = False\<rparr>"
  by (simp add: open_link_def demo_link_def atob_btoa quiet_platform_def)

theorem resolveBackupKey_correct_witness:
  "\<exists>k w'. resolveBackupKey quiet_platform ''U1'' \<lparr>ck_raw = ''k2'', ck_extractable = False\<rparr> 2 1 [demo_link] quiet_world
     = (Inr k, w') \<and> ck_raw k = ''k1''"
proof -
  let ?P = "quiet_platform :: unit platform"
  have "chain_sound ?P demo_keys [demo_link]"
    by (auto simp: chain_sound_def hop_links_def demo_open demo_keys_def demo_link_def [THEN arg_cong [where f = kl_to]]
        demo_link_def [THEN arg_cong [where f = kl_from]])
  moreover have "chain_complete ?P demo_keys 1 2 [demo_link]"
  proof -
    have "v = 2" if "1 < v" "v \<le> 2" for v :: int using that by simp
    then show ?thesis
      by (auto simp: chain_complete_def hop_links_def demo_open demo_link_def [THEN arg_cong [where f = kl_to]]
          demo_link_def [THEN arg_cong [where f = kl_from]])
  qed
  moreover have "(1::int) \<le> 2" by simp
  moreover have "memo_sound ''U1'' demo_keys (w_db quiet_world)"
    by (simp add: memo_sound_def quiet_world_def empty_idb_def)
  ultimately have "\<exists>k w'. resolveBackupKey ?P ''U1'' \<lparr>ck_raw = ''k2'', ck_extractable = False\<rparr> 2 1 [demo_link] quiet_world
     = (Inr k, w') \<and> ck_raw k = demo_keys 1 \<and> memo_sound ''U1'' demo_keys (w_db w')"
    by (rule resolveBackupKey_correct [OF _ _ _ quiet_commits]) (simp_all add: demo_keys_def)
  then obtain k w' where "resolveBackupKey ?P ''U1'' \<lparr>ck_raw = ''k2'', ck_extractable = False\<rparr> 2 1 [demo_link] quiet_world
     = (Inr k, w')" "ck_raw k = demo_keys 1" by blast
  then show ?thesis by (intro exI conjI) (assumption, simp add: demo_keys_def)
qed

section \<open>Extending the chain\<close>

lemma hop_links_append:
  "hop_links v (append_link link links) =
     (if kl_to link = v \<and> kl_from link = v - 1 then [link] else hop_links v links)"
  by (auto simp: hop_links_def append_link_def filter_empty_conv intro!: filter_cong)

lemma built_link_opens:
  assumes "aes_law P" and "buildChainLink P f t prev new w = (Inr link, w')" and "pl_aes_key_ok P (ck_raw prev)"
    and "ck_raw k = ck_raw new"
  shows "open_link P k link = Some \<lparr>ck_raw = ck_raw prev, ck_extractable = False\<rparr> \<and> kl_from link = f \<and> kl_to link = t"
  using assms by (auto simp: buildChainLink_def open_link_def io_simps atob_btoa aes_law_def split: if_splits)

lemma chain_extended:
  assumes "aes_law P" and "\<And>v. pl_aes_key_ok P (K v)"
    and "chain_sound P K links" and "chain_complete P K target current links"
    and "buildChainLink P current (current + 1) prev new w = (Inr link, w')"
    and "ck_raw prev = K current" and "ck_raw new = K (current + 1)"
  shows "hop_links (current + 1) (append_link link links) = [link]
    \<and> chain_sound P K (append_link link links) \<and> chain_complete P K target (current + 1) (append_link link links)"
proof -
  have fields: "kl_from link = current" "kl_to link = current + 1"
    using built_link_opens [OF assms(1,5)] assms(2,6) by auto
  have opens: "ck_raw k = K (current + 1) \<Longrightarrow> open_link P k link = Some \<lparr>ck_raw = K current, ck_extractable = False\<rparr>" for k
    using built_link_opens [OF assms(1,5), of k] assms(2,6,7) by simp
  have hop: "hop_links v (append_link link links) = (if v = current + 1 then [link] else hop_links v links)" for v
    using fields by (auto simp: hop_links_append)
  have "chain_sound P K (append_link link links)"
    unfolding chain_sound_def hop
  proof (intro allI impI ballI)
    fix v and k k' :: crypto_key and l assume k: "ck_raw k = K v" and o': "open_link P k l = Some k'"
      and l: "l \<in> set (if v = current + 1 then [link] else hop_links v links)"
    show "ck_raw k' = K (v - 1)"
    proof (cases "v = current + 1")
      case True
      then have "Some k' = Some \<lparr>ck_raw = K current, ck_extractable = False\<rparr>"
        using l k o' opens [of k] by (metis empty_iff empty_set insert_iff list.set(2))
      then show ?thesis using True by (simp only: option.inject) simp
    next
      case False
      then have "l \<in> set (hop_links v links)" using l by simp
      then show ?thesis using assms(3) k o' unfolding chain_sound_def by blast
    qed
  qed
  moreover have "chain_complete P K target (current + 1) (append_link link links)"
    unfolding chain_complete_def hop
  proof (intro allI impI)
    fix v and k :: crypto_key assume v: "target < v \<and> v \<le> current + 1 \<and> ck_raw k = K v"
    show "\<exists>l \<in> set (if v = current + 1 then [link] else hop_links v links). open_link P k l \<noteq> None"
    proof (cases "v = current + 1")
      case True
      then show ?thesis using v opens [of k] by simp
    next
      case False
      then have "\<exists>l \<in> set (hop_links v links). open_link P k l \<noteq> None"
        using assms(4) v unfolding chain_complete_def by force
      then show ?thesis using False by simp
    qed
  qed
  ultimately show ?thesis by (simp add: hop)
qed

text \<open>A chain of one link leads one version back and no further.\<close>

lemma lone_link_strands:
  assumes "aes_law P" and "\<And>v. pl_aes_key_ok P (K v)" and "\<And>m. fst (pl_idb P m)"
    and b: "buildChainLink P current (current + 1) prev new w = (Inr link, w')"
    and "ck_raw prev = K current" and "ck_raw new = K (current + 1)" and "ck_raw key = K (current + 1)"
    and "t < current" and "st_ok (db_backup_keys (w_db v))" and "\<And>x. x < current \<Longrightarrow> st_get (u, x) (db_backup_keys (w_db v)) = None"
  shows "fst (resolveBackupKey P u key (current + 1) t [link] v) = Inl (version_message ''missing link to'' current)"
proof -
  have o: "open_link P key link = Some \<lparr>ck_raw = K current, ck_extractable = False\<rparr>" "kl_from link = current" "kl_to link = current + 1"
    using built_link_opens [OF assms(1) b, of key] assms(2,5-7) by auto
  then have h: "hop_links (current + 1) [link] = [link]" "hop_links current [link] = []" by (simp_all add: hop_links_def)
  obtain m where m: "nat (current + 1 - t) = Suc (Suc m)"
    using that [of "nat (current - 1 - t)"] assms(8) by (simp add: nat_eq_iff2 Suc_nat_eq_nat_zadd1)
  show ?thesis
  proof (cases "st_get (u, current) (db_backup_keys (w_db v))")
    case None
    then show ?thesis using assms(3,8-10) o h m
      by (simp add: resolveBackupKey_def getBackupKey_def putBackupKey_def io_simps st_get_put)
  next
    case (Some k)
    then show ?thesis using assms(3,8,10) h m
      by (simp add: resolveBackupKey_def getBackupKey_def io_simps)
  qed
qed

text \<open>A rotation extends the chain without a fork. After a rotation built the link from the current
  key to the new one and appended it, the hop has that link only (a retry replaces its own earlier
  attempt), the other hops keep their links, and the chain is complete and sound one version up, so
  every older key stays reachable from the new one.\<close>

lemma rotation_extends_chain:
  assumes "aes_law P" and "\<And>v. pl_aes_key_ok P (K v)"
    and "chain_sound P K links" and "chain_complete P K target current links"
    and "buildChainLink P current (current + 1) prev new w = (Inr link, w')"
    and "ck_raw prev = K current" and "ck_raw new = K (current + 1)"
  shows "hop_links (current + 1) (append_link link links) = [link]
    \<and> chain_sound P K (append_link link links) \<and> chain_complete P K target (current + 1) (append_link link links)"
  using chain_extended [OF assms] .

section \<open>A failed read empties the chain\<close>

definition chain_server :: "nat \<Rightarrow> http_request \<Rightarrow> http_response option" where
  "chain_server status rq =
     (if rq_method rq = GET then Some \<lparr>rs_status = status, rs_status_text = [], rs_json_type = False, rs_json = None, rs_bytes = []\<rparr>
      else if rq_method rq = POST then Some \<lparr>rs_status = 200, rs_status_text = [], rs_json_type = True,
        rs_json = Some (JObj [(''presigned_url'', JStr ''https://s3'')]), rs_bytes = []\<rparr>
      else Some \<lparr>rs_status = 200, rs_status_text = [], rs_json_type = False, rs_json = None, rs_bytes = []\<rparr>)"

lemma throwForErrorResponse_unknown:
  "rs_json res = None \<Longrightarrow> rs_status res \<noteq> 401 \<Longrightarrow> throwForErrorResponse res w =
     (Inl (APIError (rs_status res) ''unknown'' (rs_status_text res)), w)"
  by (simp add: throwForErrorResponse_def error_body_def Let_def io_simps str_field_def)

text \<open>A transient failure while rotating destroys the chain. \<open>fetchChain\<close> answers the empty chain on
  every error, not only on a 404, so when the read of the chain fails with, say, a 500 or a 503 and
  the writes succeed, \<open>appendChainLink\<close> uploads a chain of the new link alone over the stored one,
  and reports success: the keys of all earlier versions are lost.\<close>

lemma appendChainLink_overwrites_on_error:
  assumes "500 \<le> status"
  shows "fst (appendChainLink (logging_platform (chain_server status)) token u link w) = Inr ()
    \<and> last (w_net (snd (appendChainLink (logging_platform (chain_server status)) token u link w))) =
        put_request ''https://s3'' (stringify (chain_json [link]))"
proof -
  let ?P = "logging_platform (chain_server status)"
  have f: "fst (fetchChain ?P token u w) = Inr []"
    using assms
    by (simp add: fetchChain_def storeGet_def do_fetch_def io_simps logging_platform_def chain_server_def
        object_request_def api_request_def res_ok_def throwForErrorResponse_unknown)
  have up: "upload_object ?P token key b w1 = (Inr (), w1\<lparr>w_net := w_net w1 @ [presign_request token key (length b), put_request ''https://s3'' b]\<rparr>)"
    for key b w1
    by (simp add: upload_object_def storePresign_def request_def do_fetch_def io_simps logging_platform_def
        chain_server_def presign_request_def api_request_def finish_request_def res_ok_def read_body_def
        str_field_def putWithRetry_def numeral_2_eq_2 put_request_def)
  obtain w1 where "fetchChain ?P token u w = (Inr [], w1)"
    using f by (cases "fetchChain ?P token u w") simp
  then show ?thesis
    by (simp add: appendChainLink_def await_app up append_link_def del: stringify.simps)
qed

end
