(* ===== verification/Megolm.thy ===== *)
theory Megolm
  imports Crypto Idb
begin

text \<open>
  web/src/lib/megolm-session.ts: the session manager. The closure state of
  \<open>createSessionManager\<close> is the field \<open>w_mgr\<close> of the world; a session object is its opaque
  ratchet state, so the object a method returns is the one the state holds. Releasing WebAssembly
  memory (\<open>free\<close>) has no counterpart. \<open>self\<close> is the pair of the user's own ids, when both were
  given; \<open>onCreated\<close> is the callback that backs a new session's key up.
\<close>

definition ROTATION_THRESHOLD :: nat where
  "ROTATION_THRESHOLD = 100"

definition needsRotation :: "'n platform \<Rightarrow> string \<Rightarrow> bool" where
  "needsRotation P session \<longleftrightarrow> ROTATION_THRESHOLD \<le> mo_message_index P session"

definition persistOutbound :: "'n platform \<Rightarrow> string \<Rightarrow> ('n world, unit) io" where
  "persistOutbound P session =
     saveOutboundSession P (mo_session_id P session) (mo_message_index P session) (mo_pickle P session)"

definition cache_inbound :: "string \<Rightarrow> string \<Rightarrow> string \<times> string \<Rightarrow> ('n world, unit) io" where
  "cache_inbound sessionId session meta =
     mod_mgr (\<lambda>m. m\<lparr>mg_inbound := AList.update sessionId session (mg_inbound m),
                   mg_meta := AList.update sessionId meta (mg_meta m)\<rparr>)"

definition bad_key :: js_error where
  "bad_key = JsError ''invalid session data''"

text \<open>\<open>addInbound\<close> returns the session id and whether the session is new.\<close>

definition addInbound :: "'n platform \<Rightarrow> string \<Rightarrow> string \<Rightarrow> string \<Rightarrow> ('n world, string \<times> bool) io" where
  "addInbound P fromUser fromDevice sessionKeyB64 =
     await (or_throw bad_key (mi_from_session_key P sessionKeyB64)) (\<lambda>session.
     let sessionId = mi_session_id P session in
     await get_mgr (\<lambda>m.
     if map_has sessionId (mg_inbound m) then ret (sessionId, False)
     else await (loadInboundSession P sessionId) (\<lambda>stored.
       case stored of
         Some s \<Rightarrow>
           await (or_throw bad_key (mi_from_pickle P (si_pickleJson s))) (\<lambda>fromDB.
           await (cache_inbound sessionId fromDB (si_fromUser s, si_fromDevice s)) (\<lambda>_.
           ret (sessionId, False)))
       | None \<Rightarrow>
           await (cache_inbound sessionId session (fromUser, fromDevice)) (\<lambda>_.
           await (saveInboundSession P sessionId fromUser fromDevice (mi_pickle P session)) (\<lambda>_.
           ret (sessionId, True))))))"

definition importInbound :: "'n platform \<Rightarrow> string \<Rightarrow> string \<Rightarrow> string \<Rightarrow> string \<Rightarrow> ('n world, string) io" where
  "importInbound P sessionId fromUser fromDevice exportedB64 =
     await get_mgr (\<lambda>m.
     case map_of (mg_inbound m) sessionId of
       Some existing \<Rightarrow> ret existing
     | None \<Rightarrow>
         await (or_throw bad_key (mi_from_export P exportedB64)) (\<lambda>session.
         await (cache_inbound sessionId session (fromUser, fromDevice)) (\<lambda>_.
         await (saveInboundSession P sessionId fromUser fromDevice (mi_pickle P session)) (\<lambda>_.
         ret session))))"

definition getInbound :: "'n platform \<Rightarrow> string \<Rightarrow> ('n world, string option) io" where
  "getInbound P sessionId =
     await get_mgr (\<lambda>m.
     case map_of (mg_inbound m) sessionId of
       Some cached \<Rightarrow> ret (Some cached)
     | None \<Rightarrow>
         await (loadInboundSession P sessionId) (\<lambda>stored.
         case stored of
           None \<Rightarrow> ret None
         | Some s \<Rightarrow>
             await (or_throw bad_key (mi_from_pickle P (si_pickleJson s))) (\<lambda>session.
             await (cache_inbound sessionId session (si_fromUser s, si_fromDevice s)) (\<lambda>_.
             ret (Some session)))))"

definition persistInbound :: "'n platform \<Rightarrow> string \<Rightarrow> ('n world, unit) io" where
  "persistInbound P sessionId =
     await get_mgr (\<lambda>m.
     case (map_of (mg_inbound m) sessionId, map_of (mg_meta m) sessionId) of
       (Some session, Some (fromUser, fromDevice)) \<Rightarrow>
         saveInboundSession P sessionId fromUser fromDevice (mi_pickle P session)
     | _ \<Rightarrow> ret ())"

text \<open>Decryption advances the cached ratchet whether or not it succeeds.\<close>

definition decryptInbound :: "'n platform \<Rightarrow> string \<Rightarrow> string \<Rightarrow> ('n world, string) io" where
  "decryptInbound P sessionId ciphertext =
     await get_mgr (\<lambda>m.
     case map_of (mg_inbound m) sessionId of
       None \<Rightarrow> throw bad_key
     | Some session \<Rightarrow>
         (let (plain, session') = mi_decrypt P session ciphertext in
          await (mod_mgr (\<lambda>m. m\<lparr>mg_inbound := AList.update sessionId session' (mg_inbound m)\<rparr>)) (\<lambda>_.
          or_throw (JsError ''decrypt failed'') plain)))"

section \<open>The outbound session\<close>

definition add_self :: "'n platform \<Rightarrow> (string \<times> string) option \<Rightarrow> string \<Rightarrow> ('n world, unit) io" where
  "add_self P self session =
     (case self of
        Some (u, d) \<Rightarrow> await (addInbound P u d (mo_session_key P session)) (\<lambda>_. ret ())
      | None \<Rightarrow> ret ())"

type_synonym 'n created_callback = "string \<Rightarrow> string \<Rightarrow> ('n world, unit) io"

definition install_outbound ::
  "'n platform \<Rightarrow> (string \<times> string) option \<Rightarrow> 'n created_callback \<Rightarrow> ('n world, string) io" where
  "install_outbound P self onCreated =
     await (platform_io (mo_new P)) (\<lambda>session.
     await (mod_mgr (\<lambda>m. m\<lparr>mg_outbound := Some session\<rparr>)) (\<lambda>_.
     await (persistOutbound P session) (\<lambda>_.
     await (add_self P self session) (\<lambda>_.
     await (onCreated (mo_session_id P session) (mo_session_key P session)) (\<lambda>_.
     ret session)))))"

definition getOutbound ::
  "'n platform \<Rightarrow> (string \<times> string) option \<Rightarrow> 'n created_callback \<Rightarrow> ('n world, string \<times> bool) io" where
  "getOutbound P self onCreated =
     await get_mgr (\<lambda>m.
     case mg_outbound m of
       Some outbound \<Rightarrow>
         await (mod_mgr (\<lambda>m. m\<lparr>mg_outboundIsNew := False\<rparr>)) (\<lambda>_. ret (outbound, mg_outboundIsNew m))
     | None \<Rightarrow>
         await (loadOutboundSession P) (\<lambda>stored.
         await (case stored of
             None \<Rightarrow> ret ()
           | Some s \<Rightarrow>
               await (or_throw bad_key (mo_from_pickle P (so_pickleJson s))) (\<lambda>old.
               await (add_self P self old) (\<lambda>_.
               await (clearKeyShares P (Some (mo_session_id P old))) (\<lambda>_.
               clearOutboundSession P)))) (\<lambda>_.
         await (install_outbound P self onCreated) (\<lambda>session. ret (session, True)))))"

definition rotate ::
  "'n platform \<Rightarrow> (string \<times> string) option \<Rightarrow> 'n created_callback \<Rightarrow> ('n world, string) io" where
  "rotate P self onCreated =
     await get_mgr (\<lambda>m.
     await (case mg_outbound m of
         Some outbound \<Rightarrow> clearKeyShares P (Some (mo_session_id P outbound))
       | None \<Rightarrow> ret ()) (\<lambda>_.
     await (platform_io (mo_new P)) (\<lambda>session.
     await (mod_mgr (\<lambda>m. m\<lparr>mg_outbound := Some session\<rparr>)) (\<lambda>_.
     await (clearOutboundSession P) (\<lambda>_.
     await (persistOutbound P session) (\<lambda>_.
     await (add_self P self session) (\<lambda>_.
     await (onCreated (mo_session_id P session) (mo_session_key P session)) (\<lambda>_.
     ret session))))))))"

definition hasSharedWith :: "'n platform \<Rightarrow> string \<Rightarrow> string \<Rightarrow> ('n world, bool) io" where
  "hasSharedWith P sessionId recipientUserId = hasKeyShare P sessionId recipientUserId"

definition recordShare :: "'n platform \<Rightarrow> string \<Rightarrow> string \<Rightarrow> ('n world, unit) io" where
  "recordShare P sessionId recipientUserId = recordKeyShare P sessionId recipientUserId"

text \<open>\<open>session.encrypt(text)\<close> on the manager's outbound session.\<close>

definition encryptOutbound :: "'n platform \<Rightarrow> string \<Rightarrow> ('n world, string \<times> string) io" where
  "encryptOutbound P text =
     await get_mgr (\<lambda>m.
     case mg_outbound m of
       None \<Rightarrow> throw bad_key
     | Some session \<Rightarrow>
         (let (ct, session') = mo_encrypt P session text in
          await (mod_mgr (\<lambda>m. m\<lparr>mg_outbound := Some session'\<rparr>)) (\<lambda>_. ret (ct, session'))))"

definition destroy_manager :: "('n world, unit) io" where
  "destroy_manager = mod_mgr (\<lambda>m. m\<lparr>mg_outbound := None, mg_inbound := []\<rparr>)"

definition createSessionManager ::
  "'n platform \<Rightarrow> (string \<times> string) option \<Rightarrow> 'n created_callback \<Rightarrow> ('n world, unit) io" where
  "createSessionManager P self onCreated =
     await (mod_mgr (\<lambda>_. empty_mgr)) (\<lambda>_.
     case self of
       None \<Rightarrow> ret ()
     | Some (u, d) \<Rightarrow>
         await (loadOutboundSession P) (\<lambda>stored.
         case stored of
           None \<Rightarrow> ret ()
         | Some s \<Rightarrow>
             await (or_throw bad_key (mo_from_pickle P (so_pickleJson s))) (\<lambda>old.
             await (addInbound P u d (mo_session_key P old)) (\<lambda>_.
             await (clearKeyShares P (Some (mo_session_id P old))) (\<lambda>_.
             await (clearOutboundSession P) (\<lambda>_.
             await (install_outbound P self onCreated) (\<lambda>_.
             mod_mgr (\<lambda>m. m\<lparr>mg_outboundIsNew := True\<rparr>))))))))"

section \<open>The database stays well formed\<close>

lemma inbound_keep [keeps_intros]:
  "keeps (on_db idb_ok) (cache_inbound sid s me)"
  "keeps (on_db idb_ok) (addInbound P u d k)" "keeps (on_db idb_ok) (importInbound P sid u d k)"
  "keeps (on_db idb_ok) (getInbound P sid)" "keeps (on_db idb_ok) (persistInbound P sid)"
  "keeps (on_db idb_ok) (decryptInbound P sid ct)" "keeps (on_db idb_ok) (encryptOutbound P t)"
  by (auto intro!: keeps_intros simp: cache_inbound_def addInbound_def importInbound_def getInbound_def
      persistInbound_def decryptInbound_def encryptOutbound_def Let_def case_prod_beta split: option.splits)

lemma outbound_keep [keeps_intros]:
  assumes "\<And>s k. keeps (on_db idb_ok) (onCreated s k)"
  shows "keeps (on_db idb_ok) (install_outbound P self onCreated)"
    and "keeps (on_db idb_ok) (getOutbound P self onCreated)"
    and "keeps (on_db idb_ok) (rotate P self onCreated)"
    and "keeps (on_db idb_ok) (createSessionManager P self onCreated)"
  by (auto intro!: keeps_intros assms simp: install_outbound_def getOutbound_def rotate_def
      createSessionManager_def persistOutbound_def add_self_def case_prod_beta split: option.splits)

section \<open>Inbound sessions are never replaced\<close>

text \<open>A later copy of a session's key can start further on in the ratchet, so replacing the stored
  session would lose the messages before it.\<close>

definition knows_inbound :: "string \<Rightarrow> 'n world \<Rightarrow> bool" where
  "knows_inbound sid w \<longleftrightarrow> map_has sid (mg_inbound (w_mgr w)) \<or> st_get sid (db_inbound (w_db w)) \<noteq> None"

text \<open>The first copy of an inbound session wins. \<open>addInbound\<close> reports a session as new exactly when
  neither the cache nor the database had it, and in every other case writes nothing to the database
  and leaves a cached ratchet as it is; a returned session id is always in the cache.\<close>

lemma addInbound_first_wins:
  assumes "addInbound P u d key w = (Inr (sid, isNew), w')" and "idb_ok (w_db w)"
  shows "isNew = (\<not> knows_inbound sid w)
    \<and> (\<not> isNew \<longrightarrow> w_db w' = w_db w)
    \<and> map_has sid (mg_inbound (w_mgr w'))
    \<and> (map_has s (mg_inbound (w_mgr w)) \<longrightarrow> map_of (mg_inbound (w_mgr w')) s = map_of (mg_inbound (w_mgr w)) s)
    \<and> (s \<noteq> sid \<longrightarrow> st_get s (db_inbound (w_db w')) = st_get s (db_inbound (w_db w)))
    \<and> (isNew \<longrightarrow> (\<exists>session. mi_from_session_key P key = Some session \<and> mi_session_id P session = sid
          \<and> st_get sid (db_inbound (w_db w')) =
              Some \<lparr>si_fromUser = u, si_fromDevice = d, si_pickleJson = mi_pickle P session\<rparr>))"
proof -
  have ok: "st_ok (db_inbound (w_db w))" using assms(2) by (simp add: idb_ok_def)
  show ?thesis
    using assms(1) ok
    by (auto simp: addInbound_def Let_def io_simps cache_inbound_def loadInboundSession_def
        saveInboundSession_def knows_inbound_def map_has_def st_get_put split: option.splits if_splits)
qed

end
