(* ===== verification/KeyBackup.thy ===== *)
theory KeyBackup
  imports KeyChain Megolm
begin

text \<open>
  web/src/lib/key-backup.ts and web/src/lib/contact-backup.ts: encrypted backups of Megolm session
  keys and of the contact list, and their restore on another device.
\<close>

section \<open>Session key backup\<close>

definition backup_blob :: "'n platform \<Rightarrow> string option \<Rightarrow> bytes \<Rightarrow> crypto_key \<Rightarrow> int \<Rightarrow> ('n world, bytes) io" where
  "backup_blob P sessionId plaintext backupKey keyVersion =
     await (backupEncrypt P backupKey plaintext) (\<lambda>enc.
     ret (stringify (wrapKeyBackupEnvelope keyVersion (ae_iv enc) (ae_ciphertext enc) sessionId)))"

definition backupSessionKey ::
  "'n platform \<Rightarrow> string \<Rightarrow> string \<Rightarrow> string \<Rightarrow> string \<Rightarrow> crypto_key \<Rightarrow> int \<Rightarrow> ('n world, unit) io" where
  "backupSessionKey P token userId sessionId sessionKeyB64 backupKey keyVersion =
     await (backup_blob P (Some sessionId) sessionKeyB64 backupKey keyVersion) (\<lambda>blobBytes.
     upload_object P token (path_keyBackup userId sessionId) blobBytes)"

section \<open>Restore\<close>

definition restoreEntry :: "'n platform \<Rightarrow> kb_envelope \<Rightarrow> crypto_key \<Rightarrow> ('n world, nat) io" where
  "restoreEntry P e backupKey =
     (case kb_sessionId e of
        None \<Rightarrow> ret 0
      | Some sessionId \<Rightarrow>
          (if sessionId = [] then ret 0
           else await (getInbound P sessionId) (\<lambda>existing.
             if existing \<noteq> None then ret 0
             else await (backupDecrypt P backupKey \<lparr>ae_iv = kb_iv e, ae_ciphertext = kb_ciphertext e\<rparr>) (\<lambda>sessionKeyB64.
               await (addInbound P ''unknown'' ''unknown'' sessionKeyB64) (\<lambda>(_, isNew).
               ret (if isNew then 1 else 0))))))"

record restore_state =
  rs_restored :: nat
  rs_failed :: nat
  rs_keys :: "(int \<times> crypto_key) list"

record restore_ctx =
  rc_userId :: string
  rc_backupKey :: crypto_key
  rc_current :: int
  rc_chain :: "chain_link list option"

text \<open>\<open>getKey\<close> of the source, with its memo \<open>keyForVersion\<close> passed through.\<close>

definition version_key ::
  "'n platform \<Rightarrow> restore_ctx \<Rightarrow> int \<Rightarrow> (int \<times> crypto_key) list \<Rightarrow> ('n world, crypto_key \<times> (int \<times> crypto_key) list) io" where
  "version_key P ctx v keys =
     (if v = rc_current ctx then ret (rc_backupKey ctx, keys)
      else (case map_of keys v of
          Some memo \<Rightarrow> ret (memo, keys)
        | None \<Rightarrow> (case rc_chain ctx of
              None \<Rightarrow> throw (JsError ''key backup: no chain'')
            | Some chain \<Rightarrow>
                await (resolveBackupKey P (rc_userId ctx) (rc_backupKey ctx) (rc_current ctx) v chain) (\<lambda>k.
                ret (k, AList.update v k keys)))))"

definition count_failure :: "restore_state \<Rightarrow> restore_state" where
  "count_failure st = st\<lparr>rs_failed := rs_failed st + 1\<rparr>"

definition restore_parsed ::
  "'n platform \<Rightarrow> restore_ctx \<Rightarrow> restore_state \<Rightarrow> js_error + kb_envelope \<Rightarrow> ('n world, restore_state) io" where
  "restore_parsed P ctx st parsed =
     (case parsed of
        Inl _ \<Rightarrow> ret (count_failure st)
      | Inr e \<Rightarrow> (\<lambda>w.
          (case version_key P ctx (kb_v e) (rs_keys st) w of
             (Inl _, w1) \<Rightarrow> (Inr (count_failure st), w1)
           | (Inr (k, keys), w1) \<Rightarrow>
               (case restoreEntry P e k w1 of
                  (Inl _, w2) \<Rightarrow> (Inr (count_failure (st\<lparr>rs_keys := keys\<rparr>)), w2)
                | (Inr n, w2) \<Rightarrow> (Inr (st\<lparr>rs_keys := keys, rs_restored := rs_restored st + n\<rparr>), w2)))))"

definition parse_blob :: "bytes \<Rightarrow> js_error + kb_envelope" where
  "parse_blob blob = (case json_parse blob of None \<Rightarrow> Inl SyntaxErr | Some j \<Rightarrow> parseKeyBackupEnvelope j)"

definition restore_live ::
  "'n platform \<Rightarrow> string \<Rightarrow> restore_ctx \<Rightarrow> string \<Rightarrow> restore_state \<Rightarrow> ('n world, restore_state) io" where
  "restore_live P token ctx key st = (\<lambda>w.
     (case storeGet P token key w of
        (Inl _, w1) \<Rightarrow> (Inr (count_failure st), w1)
      | (Inr blob, w1) \<Rightarrow> restore_parsed P ctx st (parse_blob blob) w1))"

definition restore_archive ::
  "'n platform \<Rightarrow> string \<Rightarrow> restore_ctx \<Rightarrow> string \<Rightarrow> restore_state \<Rightarrow> ('n world, restore_state) io" where
  "restore_archive P token ctx key st = (\<lambda>w.
     (case storeGet P token key w of
        (Inl _, w1) \<Rightarrow> (Inr st, w1)
      | (Inr blob, w1) \<Rightarrow>
          (case pl_cbor_decode P blob of
             Some (JArr entries) \<Rightarrow>
               fold_io (\<lambda>raw st. restore_parsed P ctx st (parseKeyBackupEnvelope raw)) entries st w1
           | _ \<Rightarrow> (Inr st, w1))))"

definition restore_listing ::
  "'n platform \<Rightarrow> string \<Rightarrow> string \<Rightarrow> (string \<Rightarrow> restore_state \<Rightarrow> ('n world, restore_state) io) \<Rightarrow> restore_state \<Rightarrow>
    ('n world, restore_state \<times> bool) io" where
  "restore_listing P token prefix f st = (\<lambda>w.
     (case storeList P token prefix None w of
        (Inl _, w1) \<Rightarrow> (Inr (st, False), w1)
      | (Inr page, w1) \<Rightarrow> await (fold_io f (sp_keys page) st) (\<lambda>st'. ret (st', sp_keys page \<noteq> [])) w1))"

definition restoreSessionKeys ::
  "'n platform \<Rightarrow> string \<Rightarrow> string \<Rightarrow> crypto_key \<Rightarrow> int \<Rightarrow> ('n world, nat \<times> nat) io" where
  "restoreSessionKeys P token userId backupKey currentVersion =
     await (if currentVersion > 1 then await (fetchChain P token userId) (\<lambda>c. ret (Some c)) else ret None) (\<lambda>chain.
     let ctx = \<lparr>rc_userId = userId, rc_backupKey = backupKey, rc_current = currentVersion, rc_chain = chain\<rparr>;
         st0 = \<lparr>rs_restored = 0, rs_failed = 0, rs_keys = [(currentVersion, backupKey)]\<rparr> in
     await (restore_listing P token (path_keysLive userId) (restore_live P token ctx) st0) (\<lambda>(st1, hadLiveKeys).
     await (restore_listing P token (path_keysArchive userId) (restore_archive P token ctx) st1) (\<lambda>(st2, _).
     await (if hadLiveKeys
            then detached (storeCompact P token (path_keysLive userId) ''~'') (\<lambda>_. ret ()) else ret ()) (\<lambda>_.
     ret (rs_restored st2, rs_failed st2)))))"

section \<open>Contacts\<close>

definition contacts_json :: "(string \<times> string) list \<Rightarrow> json" where
  "contacts_json cs = JObj [(''v'', JNum (NInt 1)), (''contacts'',
     JArr (map (\<lambda>(u, h). JObj [(''user_id'', JStr u), (''handle'', JStr h)]) cs))]"

definition contact_of :: "json \<Rightarrow> (string \<times> string) option" where
  "contact_of j = (case (str_field ''user_id'' j, str_field ''handle'' j) of
      (Some u, Some h) \<Rightarrow> Some (u, h) | _ \<Rightarrow> None)"

definition contacts_of :: "json \<Rightarrow> (string \<times> string) list option" where
  "contacts_of j = (case field ''contacts'' j of Some (JArr xs) \<Rightarrow> those (map contact_of xs) | _ \<Rightarrow> None)"

definition uploadContacts :: "'n platform \<Rightarrow> string \<Rightarrow> string \<Rightarrow> crypto_key \<Rightarrow> int \<Rightarrow> ('n world, unit) io" where
  "uploadContacts P token userId backupKey keyVersion =
     await (loadAllContacts P) (\<lambda>contacts.
     await (backup_blob P None (stringify (contacts_json contacts)) backupKey keyVersion) (\<lambda>blobBytes.
     upload_object P token (path_contacts userId) blobBytes))"

definition contacts_key :: "'n platform \<Rightarrow> string \<Rightarrow> string \<Rightarrow> crypto_key \<Rightarrow> int \<Rightarrow> int \<Rightarrow> ('n world, crypto_key) io" where
  "contacts_key P token userId backupKey currentVersion v =
     (if v = currentVersion then ret backupKey
      else await (fetchChain P token userId) (\<lambda>chain.
        resolveBackupKey P userId backupKey currentVersion v chain))"

definition import_contacts :: "'n platform \<Rightarrow> bytes \<Rightarrow> ('n world, nat) io" where
  "import_contacts P plain =
     await (or_throw SyntaxErr (json_parse plain)) (\<lambda>j.
     await (or_throw (TypeErr ''contacts'') (contacts_of j)) (\<lambda>cs.
     await (for_each cs (\<lambda>(u, h). saveContact P u h)) (\<lambda>_. ret (length cs))))"

definition restoreContacts :: "'n platform \<Rightarrow> string \<Rightarrow> string \<Rightarrow> crypto_key \<Rightarrow> int \<Rightarrow> ('n world, nat) io" where
  "restoreContacts P token userId backupKey currentVersion = (\<lambda>w.
     (case storeGet P token (path_contacts userId) w of
        (Inl _, w1) \<Rightarrow> (Inr 0, w1)
      | (Inr blob, w1) \<Rightarrow>
          (case parse_blob blob of
             Inl e \<Rightarrow> (Inl e, w1)
           | Inr e \<Rightarrow>
               (if kb_v e > currentVersion then (Inr 0, w1)
                else await (contacts_key P token userId backupKey currentVersion (kb_v e)) (\<lambda>decryptor.
                     await (backupDecrypt P decryptor \<lparr>ae_iv = kb_iv e, ae_ciphertext = kb_ciphertext e\<rparr>)
                       (import_contacts P)) w1))))"

section \<open>Restoring never fails as a whole\<close>

definition never_throws :: "('w, 'a) io \<Rightarrow> bool" where
  "never_throws m \<longleftrightarrow> (\<forall>w. \<exists>x. fst (m w) = Inr x)"

named_theorems total_intros \<open>effects that never throw\<close>

lemma never_throwsI: "(\<And>w. \<exists>x. fst (m w) = Inr x) \<Longrightarrow> never_throws m"
  by (simp add: never_throws_def)

lemma total_ret [total_intros]: "never_throws (ret x)"
  by (simp add: never_throws_def io_simps)

lemma total_await [total_intros]: "never_throws m \<Longrightarrow> (\<And>x. never_throws (k x)) \<Longrightarrow> never_throws (await m k)"
proof (rule never_throwsI)
  fix w assume m: "never_throws m" and k: "\<And>x. never_throws (k x)"
  obtain x w' where "m w = (Inr x, w')"
    using m unfolding never_throws_def by (metis prod.collapse)
  then show "\<exists>y. fst (await m k w) = Inr y"
    using k [of x] by (simp add: await_app never_throws_def)
qed

lemma total_detached [total_intros]: "never_throws (detached m h)"
  by (simp add: never_throws_def io_simps)

lemma total_fold_io [total_intros]: "(\<And>x s. never_throws (f x s)) \<Longrightarrow> never_throws (fold_io f xs s)"
  by (induction xs arbitrary: s) (auto intro: total_intros)

lemma total_catch [total_intros]: "(\<And>e. never_throws (h e)) \<Longrightarrow> never_throws (catch_err m h)"
  by (fastforce simp: never_throws_def catch_err_def split: prod.splits sum.splits)

lemma total_if [total_intros]: "never_throws m \<Longrightarrow> never_throws n \<Longrightarrow> never_throws (if b then m else n)"
  by simp

lemma restoreEntry_le: "restoreEntry P e k w = (Inr n, w') \<Longrightarrow> n \<le> 1"
  by (auto simp: restoreEntry_def io_simps split: option.splits if_splits prod.splits sum.splits)

lemma restore_parsed_result:
  "\<exists>st' w'. restore_parsed P ctx st parsed w = (Inr st', w')
     \<and> rs_restored st' + rs_failed st' \<le> rs_restored st + rs_failed st + 1
     \<and> rs_restored st \<le> rs_restored st' \<and> rs_failed st \<le> rs_failed st'"
  by (auto simp: restore_parsed_def count_failure_def io_simps split: sum.splits prod.splits
      dest!: restoreEntry_le)

lemma total_restore_parsed [total_intros]: "never_throws (restore_parsed P ctx st parsed)"
  by (rule never_throwsI) (metis restore_parsed_result fst_conv)

lemma total_restore_live [total_intros]: "never_throws (restore_live P token ctx key st)"
  using total_restore_parsed
  by (fastforce simp: never_throws_def restore_live_def split: prod.splits sum.splits)

lemma total_restore_archive [total_intros]: "never_throws (restore_archive P token ctx key st)"
proof (rule never_throwsI)
  fix w
  have "never_throws (fold_io (\<lambda>raw st. restore_parsed P ctx st (parseKeyBackupEnvelope raw)) entries st)" for entries
    by (intro total_intros)
  then show "\<exists>x. fst (restore_archive P token ctx key st w) = Inr x"
    by (auto simp: never_throws_def restore_archive_def split: prod.splits sum.splits option.splits json.splits)
qed

lemma total_restore_listing [total_intros]:
  assumes "\<And>key st. never_throws (f key st)"
  shows "never_throws (restore_listing P token prefix f st)"
proof (rule never_throwsI)
  fix w
  have t: "never_throws (await (fold_io f (sp_keys page) st) (\<lambda>st'. ret (st', sp_keys page \<noteq> [])))" for page :: store_page
    by (intro total_intros assms)
  obtain r w1 where l: "storeList P token prefix None w = (r, w1)" by force
  show "\<exists>x. fst (restore_listing P token prefix f st w) = Inr x"
    using t l unfolding never_throws_def restore_listing_def by (cases r) (simp_all only: prod.case sum.case fst_conv, blast)
qed

lemma total_fetchChain [total_intros]: "never_throws (fetchChain P token u)"
  unfolding fetchChain_def by (intro total_intros)

text \<open>A restore pass always finishes. Whatever the server answers and whatever the blobs hold
  (unreachable store, corrupt or foreign ciphertext, unparsable text, unknown versions, a failing
  database), \<open>restoreSessionKeys\<close> returns its two counts and never throws.\<close>

lemma restoreSessionKeys_never_throws:
  "\<exists>restored failed. fst (restoreSessionKeys P token u backupKey v w) = Inr (restored, failed)"
proof -
  have "never_throws (restoreSessionKeys P token u backupKey v)"
    unfolding restoreSessionKeys_def Let_def case_prod_beta by (intro total_intros)
  then show ?thesis by (auto simp: never_throws_def)
qed

section \<open>A backed-up key is restored\<close>

definition open_envelope :: "'n platform \<Rightarrow> crypto_key \<Rightarrow> kb_envelope \<Rightarrow> bytes option" where
  "open_envelope P k e = pl_aes_decrypt P (ck_raw k) (kb_iv e) (kb_ciphertext e)"

lemma parse_backup_blob:
  assumes "aes_law P" and "backup_blob P sid plain k v w = (Inr blob, w')" and "0 < v" and "sid \<noteq> Some []"
  shows "\<exists>e. parse_blob blob = Inr e \<and> kb_v e = v \<and> kb_sessionId e = sid \<and> open_envelope P k e = Some plain"
proof -
  obtain iv ct where blob: "blob = stringify (wrapKeyBackupEnvelope v iv ct sid)"
    and ct: "ct = pl_aes_encrypt P (ck_raw k) iv plain"
    using assms(2) by (auto simp: backup_blob_def backupEncrypt_def io_simps)
  define e where "e = \<lparr>kb_v = v, kb_iv = iv, kb_ciphertext = ct, kb_sessionId = sid\<rparr>"
  have e: "envelope_valid e" "wrap_envelope e = wrapKeyBackupEnvelope v iv ct sid"
    using assms(3,4) by (simp_all add: e_def envelope_valid_def wrap_envelope_def)
  have "json_parse blob = Some (wrap_envelope e)"
    unfolding blob e(2) [symmetric] by (rule json_roundtrip [OF wrap_envelope_wf])
  then have "parse_blob blob = Inr e"
    by (simp add: parse_blob_def parse_wrap_envelope [OF e(1)])
  moreover have "open_envelope P k e = Some plain"
    using assms(1) ct by (simp add: open_envelope_def e_def aes_law_def)
  ultimately show ?thesis by (auto simp: e_def)
qed

text \<open>C30: key backup and restore compose. The blob \<open>backupSessionKey\<close> stores for a session, read back
  on a device with the same backup key that does not know the session, gives the manager exactly
  that session (counted as one restored key); on a device that knows it already nothing changes.\<close>

theorem backup_restores_session:
  assumes "aes_law P" and "\<And>n. fst (pl_idb P n)" and "0 < v" and "sid \<noteq> []"
    and "backup_blob P (Some sid) sessionKey k v w0 = (Inr blob, w0')"
    and "mi_from_session_key P sessionKey = Some session" and "mi_session_id P session = sid"
    and "\<not> knows_inbound sid w" and "idb_ok (w_db w)"
  shows "\<exists>e w'. parse_blob blob = Inr e \<and> kb_v e = v \<and> restoreEntry P e k w = (Inr 1, w')
    \<and> map_of (mg_inbound (w_mgr w')) sid = Some session
    \<and> st_get sid (db_inbound (w_db w')) =
        Some \<lparr>si_fromUser = ''unknown'', si_fromDevice = ''unknown'', si_pickleJson = mi_pickle P session\<rparr>"
proof -
  obtain e where e: "parse_blob blob = Inr e" "kb_v e = v" "kb_sessionId e = Some sid" "open_envelope P k e = Some sessionKey"
    using parse_backup_blob [OF assms(1,5,3)] assms(4) by auto
  have un: "map_of (mg_inbound (w_mgr w)) sid = None" "st_get sid (db_inbound (w_db w)) = None"
    using assms(8) by (auto simp: knows_inbound_def map_has_def)
  have "st_ok (db_inbound (w_db w))" using assms(9) by (simp add: idb_ok_def)
  then have "\<exists>w'. restoreEntry P e k w = (Inr 1, w') \<and> map_of (mg_inbound (w_mgr w')) sid = Some session
    \<and> st_get sid (db_inbound (w_db w')) =
        Some \<lparr>si_fromUser = ''unknown'', si_fromDevice = ''unknown'', si_pickleJson = mi_pickle P session\<rparr>"
    using e(3,4) un assms(2,4,6,7)
    by (simp add: restoreEntry_def getInbound_def loadInboundSession_def backupDecrypt_def open_envelope_def
        addInbound_def cache_inbound_def saveInboundSession_def io_simps Let_def map_has_def st_get_put)
  with e(1,2) show ?thesis by auto
qed

theorem backup_restores_session_witness:
  "\<exists>blob e w'. fst (backup_blob quiet_platform (Some ''sid'') ''key'' \<lparr>ck_raw = ''b'', ck_extractable = False\<rparr> 1 quiet_world) = Inr blob
     \<and> parse_blob blob = Inr e
     \<and> restoreEntry quiet_platform e \<lparr>ck_raw = ''b'', ck_extractable = False\<rparr> quiet_world = (Inr 1, w')"
proof -
  let ?P = "quiet_platform :: unit platform" and ?k = "\<lparr>ck_raw = ''b'', ck_extractable = False\<rparr>"
  obtain blob w0 where b: "backup_blob ?P (Some ''sid'') ''key'' ?k 1 quiet_world = (Inr blob, w0)"
    by (simp add: backup_blob_def backupEncrypt_def io_simps del: stringify.simps)
  have "\<not> knows_inbound ''sid'' quiet_world"
    by (simp add: knows_inbound_def quiet_world_def empty_mgr_def empty_idb_def map_has_def)
  moreover have "mi_from_session_key ?P ''key'' = Some ''key''" "mi_session_id ?P ''key'' = ''sid''"
    by (simp_all add: quiet_platform_def)
  ultimately show ?thesis
    using backup_restores_session [OF quiet_laws(1) quiet_commits _ _ b, of "''key''" quiet_world] b by auto
qed

section \<open>Contacts travel\<close>

lemma contacts_json_wf: "json_wf (contacts_json cs)"
  by (auto simp: contacts_json_def)

lemma contacts_of_json: "contacts_of (contacts_json cs) = Some cs"
proof -
  have "those (map contact_of (map (\<lambda>(u, h). JObj [(''user_id'', JStr u), (''handle'', JStr h)]) cs)) = Some cs"
    by (induction cs) (auto simp: contact_of_def str_field_def)
  then show ?thesis by (simp add: contacts_of_def contacts_json_def)
qed

lemma save_contacts:
  assumes "\<And>n. fst (pl_idb P n)"
  shows "\<exists>w'. for_each cs (\<lambda>(u, h). saveContact P u h) w = (Inr (), w')
    \<and> w_db w' = (w_db w)\<lparr>db_contacts := st_put_list cs (db_contacts (w_db w))\<rparr>"
proof (induction cs arbitrary: w)
  case (Cons c cs)
  obtain u h where c: "c = (u, h)" by force
  show ?case
    using Cons [of "w\<lparr>w_db := (w_db w)\<lparr>db_contacts := st_put u h (db_contacts (w_db w))\<rparr>, w_net := snd (pl_idb P (w_net w))\<rparr>"]
    by (simp add: c saveContact_def io_simps assms st_put_list_def)
qed (simp add: io_simps st_put_list_def)

text \<open>The contact list survives a new device. A contacts blob uploaded under the current backup key
  and read by a device that holds that key restores every contact, each under its user id, and
  reports how many; contacts the device already had under other ids stay.\<close>

lemma contacts_roundtrip:
  assumes "aes_law P" and "\<And>n. fst (pl_idb P n)" and "0 < v"
    and "backup_blob P None (stringify (contacts_json cs)) k v w0 = (Inr blob, w0')"
    and "storeGet P token (path_contacts u) w = (Inr blob, w1)"
  shows "\<exists>w'. restoreContacts P token u k v w = (Inr (length cs), w')
    \<and> db_contacts (w_db w') = st_put_list cs (db_contacts (w_db w1))"
proof -
  obtain e where e: "parse_blob blob = Inr e" "kb_v e = v" "open_envelope P k e = Some (stringify (contacts_json cs))"
    using parse_backup_blob [OF assms(1,4,3)] by auto
  obtain w' where w': "for_each cs (\<lambda>(u, h). saveContact P u h) w1 = (Inr (), w')"
      "w_db w' = (w_db w1)\<lparr>db_contacts := st_put_list cs (db_contacts (w_db w1))\<rparr>"
    using save_contacts [OF assms(2)] by blast
  have "import_contacts P (stringify (contacts_json cs)) w1 = (Inr (length cs), w')"
    by (simp add: import_contacts_def json_roundtrip [OF contacts_json_wf] contacts_of_json io_simps w'(1))
  then have "restoreContacts P token u k v w = (Inr (length cs), w')"
    using e assms(5)
    by (simp add: restoreContacts_def contacts_key_def backupDecrypt_def open_envelope_def io_simps)
  with w'(2) show ?thesis by simp
qed

definition demo_contacts_server :: "bytes \<Rightarrow> unit platform" where
  "demo_contacts_server blob = quiet_platform\<lparr>pl_fetch := (\<lambda>_ n. (Some \<lparr>rs_status = 200, rs_status_text = [],
     rs_json_type = False, rs_json = None, rs_bytes = blob\<rparr>, n))\<rparr>"

end
