(* ===== verification/Conversations.thy ===== *)
theory Conversations
  imports Idb
begin

text \<open>
  The messages and conversations stores of web/src/lib/db.ts. A conversation row is a summary of
  its messages: kept additively by \<open>saveMessages\<close>, recomputed from the whole history when an
  amendment lands. The result of an index scan is the store's records filtered by the range, in
  index order (ties in primary-key order). A function that uses two transactions runs them
  without another task of the event loop in between.
\<close>

section \<open>Partition of a history into originals and amendments\<close>

definition amends :: "string \<Rightarrow> parsed_inner \<Rightarrow> bool" where
  "amends t p = (case p of PAmendment t' _ _ \<Rightarrow> t' = t | _ \<Rightarrow> False)"

definition is_original :: "parsed_inner \<Rightarrow> bool" where
  "is_original p = (case p of PText _ \<Rightarrow> True | PMedia _ _ \<Rightarrow> True | _ \<Rightarrow> False)"

text \<open>The first pass over a history, for any row type \<open>'r\<close> with a parsed payload: it is the same
  loop in \<open>summarizeConversation\<close> and in \<open>toMessages\<close> of the chat view.\<close>

fun partition_row :: "('r \<Rightarrow> parsed_inner) \<Rightarrow> 'r \<Rightarrow>
    (string \<times> 'r list) list \<times> 'r list \<Rightarrow> (string \<times> 'r list) list \<times> 'r list" where
  "partition_row ps m (amendmentsByTarget, originals) =
     (case ps m of
        PAmendment t _ _ \<Rightarrow> (push_to t m amendmentsByTarget, originals)
      | PUnknown \<Rightarrow> (amendmentsByTarget, originals)
      | _ \<Rightarrow> (amendmentsByTarget, originals @ [m]))"

definition partition_rows :: "('r \<Rightarrow> parsed_inner) \<Rightarrow> 'r list \<Rightarrow> (string \<times> 'r list) list \<times> 'r list" where
  "partition_rows ps msgs = fold (partition_row ps) msgs ([], [])"

lemma partition_fold:
  "opt_or (map_of (fst (fold (partition_row ps) msgs (am, og))) t) [] =
     opt_or (map_of am t) [] @ filter (\<lambda>m. amends t (ps m)) msgs
   \<and> snd (fold (partition_row ps) msgs (am, og)) = og @ filter (\<lambda>m. is_original (ps m)) msgs"
proof (induction msgs arbitrary: am og)
  case (Cons m msgs)
  show ?case
  proof (cases "ps m")
    case (PAmendment t' a b)
    with Cons [of "push_to t' m am" og] show ?thesis
      by (simp add: amends_def is_original_def)
  qed (simp_all add: Cons amends_def is_original_def)
qed simp

lemma partition_rows:
  "opt_or (map_of (fst (partition_rows ps msgs)) t) [] = filter (\<lambda>m. amends t (ps m)) msgs"
  "snd (partition_rows ps msgs) = filter (\<lambda>m. is_original (ps m)) msgs"
  using partition_fold [of ps msgs "[]" "[]"] by (simp_all add: partition_rows_def)

section \<open>Conversation summary\<close>

record summary =
  su_lastMessageText :: string
  su_lastMessageTimestamp :: int
  su_lastMessageDeleted :: bool

definition sm_inner :: "stored_message \<Rightarrow> parsed_inner" where
  "sm_inner m = parseInner (sm_text m)"

definition newer :: "stored_message \<Rightarrow> stored_message \<Rightarrow> bool" where
  "newer m l \<longleftrightarrow> sm_timestamp l < sm_timestamp m \<or> (sm_timestamp m = sm_timestamp l \<and> sm_id l < sm_id m)"

definition latest_of :: "stored_message list \<Rightarrow> stored_message" where
  "latest_of originals = fold (\<lambda>m l. if newer m l then m else l) originals (hd originals)"

text \<open>The loop over the latest message's amendment chain: whether it ends deleted, and the body of
  the last edit.\<close>

fun summary_chain :: "stored_message \<Rightarrow> string option \<Rightarrow> stored_message list \<Rightarrow> bool \<times> string option" where
  "summary_chain latest edited [] = (False, edited)"
| "summary_chain latest edited (am # chain) =
     (case sm_inner am of
        PAmendment _ action body \<Rightarrow>
          (if sm_fromUser am \<noteq> sm_fromUser latest then summary_chain latest edited chain
           else if action = ''delete'' then (True, edited)
           else if action = ''edit'' \<and> body \<noteq> None
                   \<and> (case sm_inner latest of PText _ \<Rightarrow> True | _ \<Rightarrow> False)
             then summary_chain latest body chain
           else summary_chain latest edited chain)
      | _ \<Rightarrow> summary_chain latest edited chain)"

definition summarizeConversation :: "stored_message list \<Rightarrow> summary option" where
  "summarizeConversation msgs =
     (let (amendmentsByTarget, originals) = partition_rows sm_inner msgs
      in if originals = [] then None
         else let latest = latest_of originals;
                  chain = sort_key sm_id (opt_or (map_of amendmentsByTarget (sm_id latest)) []);
                  (deleted, editedBody) = summary_chain latest None chain
              in Some (if deleted
                 then \<lparr>su_lastMessageText = [], su_lastMessageTimestamp = sm_timestamp latest,
                       su_lastMessageDeleted = True\<rparr>
                 else \<lparr>su_lastMessageText = (case editedBody of
                           Some b \<Rightarrow> stringify (JObj [(''type'', JStr ''text''), (''body'', JStr b)])
                         | None \<Rightarrow> sm_text latest),
                       su_lastMessageTimestamp = sm_timestamp latest,
                       su_lastMessageDeleted = False\<rparr>))"

definition order_key :: "stored_message \<Rightarrow> int \<times> string" where
  "order_key m = (sm_timestamp m, sm_id m)"

lemma newer_key: "newer m l \<longleftrightarrow> order_key l < order_key m"
  by (auto simp: newer_def order_key_def)

lemma latest_fold:
  "(let r = fold (\<lambda>m l. if newer m l then m else l) ms l
    in r \<in> insert l (set ms) \<and> (\<forall>x \<in> insert l (set ms). order_key x \<le> order_key r))"
proof (induction ms arbitrary: l)
  case (Cons m ms)
  show ?case
  proof (cases "newer m l")
    case True
    with Cons [of m] show ?thesis by (auto simp: Let_def newer_key dest: order.strict_trans1 less_imp_le)
  next
    case False
    with Cons [of l] show ?thesis by (auto simp: Let_def newer_key not_less intro: order_trans)
  qed
qed simp

lemma latest_of_max:
  assumes "ms \<noteq> []"
  shows "latest_of ms \<in> set ms" and "\<And>x. x \<in> set ms \<Longrightarrow> order_key x \<le> order_key (latest_of ms)"
  using latest_fold [of ms "hd ms"] assms by (auto simp: latest_of_def insert_absorb Let_def)

section \<open>Saving messages\<close>

text \<open>A message handed to \<open>saveMessages\<close>; its timestamp in milliseconds.\<close>

record incoming =
  im_id :: string
  im_conversationId :: string
  im_fromUser :: string
  im_fromDevice :: string
  im_text :: string
  im_timestamp :: int

record conv_update =
  cu_text :: string
  cu_ts :: int
  cu_count :: int

fun group_step :: "incoming \<Rightarrow> (string \<times> conv_update) list \<times> string list \<Rightarrow>
    (string \<times> conv_update) list \<times> string list" where
  "group_step msg (convUpdates, amendedConvs) =
     (if isAmendment (im_text msg)
      then (convUpdates, set_add (im_conversationId msg) amendedConvs)
      else (case map_of convUpdates (im_conversationId msg) of
          None \<Rightarrow> (AList.update (im_conversationId msg)
              \<lparr>cu_text = im_text msg, cu_ts = im_timestamp msg, cu_count = 1\<rparr> convUpdates, amendedConvs)
        | Some prev \<Rightarrow>
            (AList.update (im_conversationId msg)
              (if im_timestamp msg > cu_ts prev
               then \<lparr>cu_text = im_text msg, cu_ts = im_timestamp msg, cu_count = cu_count prev + 1\<rparr>
               else prev\<lparr>cu_count := cu_count prev + 1\<rparr>) convUpdates, amendedConvs)))"

definition group_messages :: "incoming list \<Rightarrow> (string \<times> conv_update) list \<times> string list" where
  "group_messages messages = fold group_step messages ([], [])"

definition stored_of :: "string \<Rightarrow> incoming \<Rightarrow> stored_message" where
  "stored_of userId msg =
     \<lparr>sm_id = im_id msg, sm_userId = userId, sm_conversationId = im_conversationId msg,
      sm_fromUser = im_fromUser msg, sm_fromDevice = im_fromDevice msg, sm_text = im_text msg,
      sm_timestamp = im_timestamp msg\<rparr>"

definition merge_summary :: "string \<Rightarrow> stored_conversation option \<Rightarrow> conv_update \<Rightarrow> stored_conversation" where
  "merge_summary convId existing update =
     (let keepExisting = (case existing of Some e \<Rightarrow> sc_lastMessageTimestamp e > cu_ts update | None \<Rightarrow> False);
          old_ts = (case existing of Some e \<Rightarrow> sc_lastMessageTimestamp e | None \<Rightarrow> 0);
          old_count = (case existing of Some e \<Rightarrow> sc_messageCount e | None \<Rightarrow> 0)
      in \<lparr>sc_conversationId = convId,
          sc_lastMessageText = (if keepExisting then sc_lastMessageText (the existing) else cu_text update),
          sc_lastMessageTimestamp = max old_ts (cu_ts update),
          sc_messageCount = old_count + cu_count update,
          sc_lastMessageDeleted =
            Some (if keepExisting then opt_or (sc_lastMessageDeleted (the existing)) False else False),
          sc_lastReadTimestamp = None\<rparr>)"

text \<open>The rows of the second transaction: all the messages, then the summaries built on the rows
  the first transaction read.\<close>

definition save_phase2 ::
  "string \<Rightarrow> incoming list \<Rightarrow> (string \<times> conv_update) list \<Rightarrow> (string \<times> stored_conversation option) list \<Rightarrow> idb \<Rightarrow> idb" where
  "save_phase2 userId messages convUpdates existing d =
     d\<lparr>db_messages := st_put_list (map (\<lambda>m. (im_id m, stored_of userId m)) messages) (db_messages d),
       db_conversations := st_put_list
         (map (\<lambda>(c, u). (c, merge_summary c (Option.bind (map_of existing c) id) u)) convUpdates)
         (db_conversations d)\<rparr>"

text \<open>\<open>recomputeAmendedSummaries\<close>: one read transaction, the rows to rewrite, one write
  transaction when there are any.\<close>

definition user_messages :: "string \<Rightarrow> idb \<Rightarrow> stored_message list" where
  "user_messages userId d = filter (\<lambda>m. sm_userId m = userId) (st_all (db_messages d))"

definition recompute_row :: "string \<Rightarrow> stored_conversation \<Rightarrow> stored_message list \<Rightarrow> stored_conversation option" where
  "recompute_row convId current msgs =
     (case summarizeConversation msgs of
        None \<Rightarrow> None
      | Some su \<Rightarrow>
          (if su_lastMessageText su = sc_lastMessageText current
              \<and> su_lastMessageTimestamp su = sc_lastMessageTimestamp current
              \<and> su_lastMessageDeleted su = opt_or (sc_lastMessageDeleted current) False
           then None
           else Some \<lparr>sc_conversationId = convId,
                      sc_lastMessageText = su_lastMessageText su,
                      sc_lastMessageTimestamp = su_lastMessageTimestamp su,
                      sc_messageCount = sc_messageCount current,
                      sc_lastMessageDeleted = Some (su_lastMessageDeleted su),
                      sc_lastReadTimestamp = None\<rparr>))"

definition by_conversation :: "string list \<Rightarrow> stored_message list \<Rightarrow> (string \<times> stored_message list) list" where
  "by_conversation convIds allMsgs =
     fold (\<lambda>m byConv. if sm_conversationId m \<in> set convIds then push_to (sm_conversationId m) m byConv else byConv)
       allMsgs []"

definition recompute_writes ::
  "string list \<Rightarrow> (string \<times> stored_conversation option) list \<Rightarrow> stored_message list \<Rightarrow> (string \<times> stored_conversation) list" where
  "recompute_writes convIds currents allMsgs =
     concat (map (\<lambda>c. case Option.bind (map_of currents c) id of
         None \<Rightarrow> []
       | Some current \<Rightarrow>
           (case recompute_row c current (opt_or (map_of (by_conversation convIds allMsgs) c) []) of
              None \<Rightarrow> []
            | Some row \<Rightarrow> [(c, row)])) convIds)"

definition read_conversations :: "string list \<Rightarrow> idb \<Rightarrow> (string \<times> stored_conversation option) list" where
  "read_conversations convIds d = map (\<lambda>c. (c, st_get c (db_conversations d))) convIds"

definition put_conversations :: "(string \<times> stored_conversation) list \<Rightarrow> idb \<Rightarrow> idb" where
  "put_conversations writes d = d\<lparr>db_conversations := st_put_list writes (db_conversations d)\<rparr>"

definition recomputeAmendedSummaries :: "'n platform \<Rightarrow> string \<Rightarrow> string list \<Rightarrow> ('n world, unit) io" where
  "recomputeAmendedSummaries P userId convIds =
     await (db_read P (\<lambda>d. (user_messages userId d, read_conversations convIds d))) (\<lambda>(allMsgs, currents).
     let writes = recompute_writes convIds currents allMsgs
     in if writes = [] then ret () else db_write P (put_conversations writes))"

definition saveMessages :: "'n platform \<Rightarrow> string \<Rightarrow> incoming list \<Rightarrow> ('n world, unit) io" where
  "saveMessages P userId messages =
     (if messages = [] then ret ()
      else let (convUpdates, amendedConvs) = group_messages messages in
        await (db_read P (read_conversations (map fst convUpdates))) (\<lambda>existing.
        await (db_write P (save_phase2 userId messages convUpdates existing)) (\<lambda>_.
        if amendedConvs \<noteq> [] then recomputeAmendedSummaries P userId amendedConvs else ret ())))"

section \<open>Reading messages and conversations\<close>

definition max_safe_integer :: int where
  "max_safe_integer = 9007199254740991"

definition in_range :: "stored_message \<Rightarrow> bool" where
  "in_range m \<longleftrightarrow> 0 \<le> sm_timestamp m \<and> sm_timestamp m \<le> max_safe_integer"

definition by_timestamp :: "string \<Rightarrow> idb \<Rightarrow> stored_message list" where
  "by_timestamp userId d = sort_key sm_timestamp (filter in_range (user_messages userId d))"

definition loadMessages :: "'n platform \<Rightarrow> string \<Rightarrow> ('n world, stored_message list) io" where
  "loadMessages P userId = db_read P (by_timestamp userId)"

definition loadMessageIds :: "'n platform \<Rightarrow> string \<Rightarrow> ('n world, string list) io" where
  "loadMessageIds P userId =
     db_read P (\<lambda>d. map fst (filter (\<lambda>(_, m). sm_userId m = userId) (db_messages d)))"

definition getLatestTimestamp :: "'n platform \<Rightarrow> string \<Rightarrow> ('n world, int) io" where
  "getLatestTimestamp P userId =
     db_read P (\<lambda>d. case rev (by_timestamp userId d) of [] \<Rightarrow> 0 | m # _ \<Rightarrow> sm_timestamp m)"

definition clearMessages :: "'n platform \<Rightarrow> string option \<Rightarrow> ('n world, unit) io" where
  "clearMessages P userId = db_write P (\<lambda>d. d\<lparr>db_messages :=
     (case userId of
        Some u \<Rightarrow> if u \<noteq> [] then st_filter (\<lambda>m. sm_userId m \<noteq> u) (db_messages d) else []
      | None \<Rightarrow> [])\<rparr>)"

definition conversations_by_recency :: "idb \<Rightarrow> stored_conversation list" where
  "conversations_by_recency d = rev (sort_key sc_lastMessageTimestamp (st_all (db_conversations d)))"

definition loadConversations :: "'n platform \<Rightarrow> ('n world, stored_conversation list) io" where
  "loadConversations P = db_read P conversations_by_recency"

section \<open>Read watermarks\<close>

definition last_read :: "stored_conversation option \<Rightarrow> int" where
  "last_read row = (case row of Some c \<Rightarrow> opt_or (sc_lastReadTimestamp c) 0 | None \<Rightarrow> 0)"

definition getConversationLastRead :: "'n platform \<Rightarrow> string \<Rightarrow> ('n world, int) io" where
  "getConversationLastRead P convId = db_read P (\<lambda>d. last_read (st_get convId (db_conversations d)))"

definition markConversationRead :: "'n platform \<Rightarrow> string \<Rightarrow> int \<Rightarrow> ('n world, bool) io" where
  "markConversationRead P convId timestamp =
     await (db_read P (\<lambda>d. st_get convId (db_conversations d))) (\<lambda>existing.
     case existing of
       None \<Rightarrow> ret False
     | Some row \<Rightarrow>
         (if timestamp \<le> opt_or (sc_lastReadTimestamp row) 0 then ret False
          else await (db_write P (put_conversations
                  [(sc_conversationId row, row\<lparr>sc_lastReadTimestamp := Some timestamp\<rparr>)])) (\<lambda>_.
               ret True)))"

definition loadReadMarkers :: "'n platform \<Rightarrow> ('n world, (string \<times> int) list) io" where
  "loadReadMarkers P = await (loadConversations P) (\<lambda>convs.
     ret (fold (\<lambda>c markers. case sc_lastReadTimestamp c of
            Some t \<Rightarrow> if t \<noteq> 0 then AList.update (sc_conversationId c) t markers else markers
          | None \<Rightarrow> markers) convs []))"

definition count_unread :: "string \<Rightarrow> (string \<times> int) list \<Rightarrow> stored_message \<Rightarrow> (string \<times> int) list \<Rightarrow> (string \<times> int) list" where
  "count_unread userId lastRead m counts =
     (if sm_fromUser m = userId then counts
      else if isAmendment (sm_text m) then counts
      else if sm_timestamp m > opt_or (map_of lastRead (sm_conversationId m)) 0
        then AList.update (sm_conversationId m) (opt_or (map_of counts (sm_conversationId m)) 0 + 1) counts
      else counts)"

definition unread_of :: "string \<Rightarrow> idb \<Rightarrow> (string \<times> int) list" where
  "unread_of userId d =
     (let lastRead = fold (\<lambda>c m. AList.update (sc_conversationId c) (opt_or (sc_lastReadTimestamp c) 0) m)
            (st_all (db_conversations d)) []
      in fold (count_unread userId lastRead) (user_messages userId d) [])"

definition unreadCounts :: "'n platform \<Rightarrow> string \<Rightarrow> ('n world, (string \<times> int) list) io" where
  "unreadCounts P userId = db_read P (unread_of userId)"

section \<open>The database stays well formed\<close>

lemma idb_ok_messages:
  "idb_ok d \<Longrightarrow> st_ok s \<Longrightarrow> \<forall>(k, m) \<in> set s. sm_id m = k \<Longrightarrow> idb_ok (d\<lparr>db_messages := s\<rparr>)"
  by (simp add: idb_ok_def)

lemma idb_ok_conversations:
  "idb_ok d \<Longrightarrow> st_ok s \<Longrightarrow> \<forall>(k, c) \<in> set s. sc_conversationId c = k \<Longrightarrow> idb_ok (d\<lparr>db_conversations := s\<rparr>)"
  by (simp add: idb_ok_def)

lemma idb_okD:
  assumes "idb_ok d"
  shows "st_ok (db_messages d)" and "st_ok (db_conversations d)"
    and "\<forall>(k, m) \<in> set (db_messages d). sm_id m = k"
    and "\<forall>(k, c) \<in> set (db_conversations d). sc_conversationId c = k"
  using assms by (simp_all add: idb_ok_def)

lemma put_conversations_ok:
  assumes "idb_ok d" and "\<forall>(k, c) \<in> set ws. sc_conversationId c = k"
  shows "idb_ok (put_conversations ws d)"
  unfolding put_conversations_def using assms
  by (intro idb_ok_conversations st_rows_put_list st_ok_put_list) (auto dest: idb_okD)

lemma merge_summary_id [simp]: "sc_conversationId (merge_summary c ex u) = c"
  by (simp add: merge_summary_def Let_def)

lemma save_phase2_ok:
  assumes "idb_ok d"
  shows "idb_ok (save_phase2 u ms cu ex d)"
proof -
  have "idb_ok (d\<lparr>db_messages := st_put_list (map (\<lambda>m. (im_id m, stored_of u m)) ms) (db_messages d)\<rparr>)"
    using assms by (intro idb_ok_messages st_rows_put_list st_ok_put_list)
      (auto dest: idb_okD simp: stored_of_def)
  from put_conversations_ok [OF this, of "map (\<lambda>(c, u). (c, merge_summary c (Option.bind (map_of ex c) id) u)) cu"]
  show ?thesis by (simp add: save_phase2_def put_conversations_def split_beta)
qed

lemma recompute_writes_keys:
  "\<forall>(k, c) \<in> set (recompute_writes cs ex ms). sc_conversationId c = k \<and> k \<in> set cs"
  by (auto simp: recompute_writes_def recompute_row_def split: option.splits if_splits)

lemma recompute_keep_ok [keeps_intros]: "keeps (on_db idb_ok) (recomputeAmendedSummaries P u cs)"
  unfolding recomputeAmendedSummaries_def Let_def case_prod_beta
  by (intro keeps_intros put_conversations_ok) (use recompute_writes_keys in fastforce)+

lemma saveMessages_keep_ok [keeps_intros]: "keeps (on_db idb_ok) (saveMessages P u ms)"
  unfolding saveMessages_def Let_def case_prod_beta
  by (intro keeps_intros save_phase2_ok)

lemma clearMessages_keep_ok [keeps_intros]: "keeps (on_db idb_ok) (clearMessages P uo)"
  unfolding clearMessages_def
  by (intro keeps_intros idb_ok_messages)
    (auto simp: idb_okD st_filter_def st_ok_filter dest: idb_okD split: option.splits)

lemma markConversationRead_keep_ok [keeps_intros]:
  "keeps (on_db idb_ok) (markConversationRead P c t)"
proof (rule keepsI)
  fix w :: "'a world" assume w: "on_db idb_ok w"
  show "on_db idb_ok (snd (markConversationRead P c t w))"
    using w put_conversations_ok
    by (auto simp: markConversationRead_def io_simps on_db_def split: option.splits)
qed

lemma conversation_reads_keep_ok [keeps_intros]:
  "keeps (on_db Q) (loadMessages P u)" "keeps (on_db Q) (loadMessageIds P u)"
  "keeps (on_db Q) (getLatestTimestamp P u)" "keeps (on_db Q) (loadConversations P)"
  "keeps (on_db Q) (getConversationLastRead P c)" "keeps (on_db Q) (loadReadMarkers P)"
  "keeps (on_db Q) (unreadCounts P u)"
  by (auto intro!: keeps_intros simp: loadMessages_def loadMessageIds_def getLatestTimestamp_def
      loadConversations_def getConversationLastRead_def loadReadMarkers_def unreadCounts_def)

section \<open>What a save leaves behind\<close>

definition save_rows :: "string \<Rightarrow> incoming list \<Rightarrow> (string \<times> stored_message) list" where
  "save_rows userId messages = map (\<lambda>m. (im_id m, stored_of userId m)) messages"

text \<open>The database after the second transaction, and after the recompute pass.\<close>

definition saved_db :: "string \<Rightarrow> incoming list \<Rightarrow> idb \<Rightarrow> idb" where
  "saved_db userId messages d =
     (let cu = fst (group_messages messages)
      in save_phase2 userId messages cu (read_conversations (map fst cu) d) d)"

definition recomputed_db :: "string \<Rightarrow> string list \<Rightarrow> idb \<Rightarrow> idb" where
  "recomputed_db userId convIds d =
     put_conversations (recompute_writes convIds (read_conversations convIds d) (user_messages userId d)) d"

lemma put_conversations_Nil [simp]: "put_conversations [] d = d"
  by (simp add: put_conversations_def st_put_list_def)

lemma recompute_outcome:
  assumes "recomputeAmendedSummaries P u cs w = (r, w')"
  shows "(r = Inr () \<and> w_db w' = recomputed_db u cs (w_db w)) \<or> (r = Inl IdbError \<and> w_db w' = w_db w)"
  using assms by (auto simp: recomputeAmendedSummaries_def io_simps recomputed_db_def Let_def split: if_splits)

lemma saveMessages_outcome:
  assumes "saveMessages P u ms w = (r, w')" and "ms \<noteq> []"
  obtains (aborted) "r = Inl IdbError" "w_db w' = w_db w"
    | (saved) "r = Inl IdbError \<or> snd (group_messages ms) = []" "w_db w' = saved_db u ms (w_db w)"
    | (recomputed) "r = Inr ()" "w_db w' = recomputed_db u (snd (group_messages ms)) (saved_db u ms (w_db w))"
  using assms
  by (fastforce simp: saveMessages_def io_simps saved_db_def Let_def case_prod_beta
      dest!: recompute_outcome split: if_splits)

lemma saved_db_messages: "db_messages (saved_db u ms d) = st_put_list (save_rows u ms) (db_messages d)"
  by (simp add: saved_db_def save_phase2_def save_rows_def Let_def)

lemma recomputed_db_messages [simp]: "db_messages (recomputed_db u cs d) = db_messages d"
  by (simp add: recomputed_db_def put_conversations_def)

lemma saveMessages_messages:
  assumes "saveMessages P u ms w = (r, w')"
  shows "(r = Inr () \<longrightarrow> db_messages (w_db w') = st_put_list (save_rows u ms) (db_messages (w_db w)))
    \<and> db_messages (w_db w') \<in> {db_messages (w_db w), st_put_list (save_rows u ms) (db_messages (w_db w))}"
proof (cases "ms = []")
  case True
  with assms show ?thesis by (simp add: saveMessages_def io_simps save_rows_def st_put_list_def)
next
  case False
  from assms this show ?thesis
    by (rule saveMessages_outcome) (auto simp: saved_db_messages)
qed

text \<open>The per-conversation updates of a batch.\<close>

definition batch_of :: "string \<Rightarrow> incoming list \<Rightarrow> incoming list" where
  "batch_of c ms = filter (\<lambda>m. im_conversationId m = c \<and> \<not> isAmendment (im_text m)) ms"

definition update_of :: "incoming list \<Rightarrow> conv_update \<Rightarrow> bool" where
  "update_of xs u \<longleftrightarrow> cu_count u = int (length xs)
     \<and> (\<exists>m \<in> set xs. cu_text u = im_text m \<and> cu_ts u = im_timestamp m)
     \<and> (\<forall>m \<in> set xs. im_timestamp m \<le> cu_ts u)"

lemma batch_of_snoc:
  "batch_of c (ms @ [m]) = batch_of c ms @ (if im_conversationId m = c \<and> \<not> isAmendment (im_text m) then [m] else [])"
  by (simp add: batch_of_def)

lemma group_messages_snoc: "group_messages (ms @ [m]) = group_step m (group_messages ms)"
  by (simp add: group_messages_def)

lemma group_messages_spec:
  "case map_of (fst (group_messages ms)) c of
     None \<Rightarrow> batch_of c ms = []
   | Some u \<Rightarrow> batch_of c ms \<noteq> [] \<and> update_of (batch_of c ms) u"
proof (induction ms rule: rev_induct)
  case Nil
  then show ?case by (simp add: group_messages_def batch_of_def)
next
  case (snoc m ms)
  obtain cu am where g: "group_messages ms = (cu, am)" by force
  show ?case
  proof (cases "isAmendment (im_text m) \<or> im_conversationId m \<noteq> c")
    case True
    with snoc g show ?thesis
      by (auto simp: group_messages_snoc batch_of_snoc split: option.splits)
  next
    case False
    with snoc g show ?thesis
      by (auto simp: group_messages_snoc batch_of_snoc update_of_def split: option.splits)
  qed
qed

lemma group_messages_amended:
  "set (snd (group_messages ms)) = {im_conversationId m | m. m \<in> set ms \<and> isAmendment (im_text m)}"
proof (induction ms rule: rev_induct)
  case (snoc m ms)
  obtain cu am where g: "group_messages ms = (cu, am)" by force
  with snoc show ?case
    by (auto simp: group_messages_snoc split: option.splits)
qed (simp add: group_messages_def)

lemma group_messages_distinct: "distinct (map fst (fst (group_messages ms)))"
proof (induction ms rule: rev_induct)
  case (snoc m ms)
  obtain cu am where g: "group_messages ms = (cu, am)" by force
  with snoc show ?case
    by (auto simp: group_messages_snoc distinct_update split: option.splits)
qed (simp add: group_messages_def)

lemma map_of_rev_distinct: "distinct (map fst xs) \<Longrightarrow> map_of (rev xs) = map_of xs"
  by (rule iffD2 [OF map_of_inject_set]) (simp_all add: rev_map [symmetric])

lemma map_of_map_pair: "map_of (map (\<lambda>(k, v). (k, f k v)) xs) k = map_option (f k) (map_of xs k)"
  by (induction xs) auto

lemma read_conversations_of:
  "Option.bind (map_of (read_conversations cs d) c) id = (if c \<in> set cs then st_get c (db_conversations d) else None)"
proof -
  have "map_of (read_conversations cs d) c = (if c \<in> set cs then Some (st_get c (db_conversations d)) else None)"
    by (induction cs) (auto simp: read_conversations_def)
  then show ?thesis by simp
qed

lemma saved_db_conversation:
  assumes "idb_ok d"
  shows "st_get c (db_conversations (saved_db u ms d)) =
    (case map_of (fst (group_messages ms)) c of
       Some upd \<Rightarrow> Some (merge_summary c (st_get c (db_conversations d)) upd)
     | None \<Rightarrow> st_get c (db_conversations d))"
proof -
  let ?cu = "fst (group_messages ms)"
  let ?f = "\<lambda>c. merge_summary c (Option.bind (map_of (read_conversations (map fst ?cu) d) c) id)"
  have d: "distinct (map fst (map (\<lambda>(c, u). (c, ?f c u)) ?cu))"
    using group_messages_distinct [of ms] by (simp add: comp_def case_prod_beta')
  have "map_of (rev (map (\<lambda>(c, u). (c, ?f c u)) ?cu)) c = map_option (?f c) (map_of ?cu c)"
    by (simp only: map_of_rev_distinct [OF d] map_of_map_pair)
  moreover have "map_of ?cu c = Some x \<Longrightarrow> c \<in> set (map fst ?cu)" for x
    by (metis map_of_SomeD image_eqI fst_conv list.set_map)
  ultimately show ?thesis
    using assms
    by (auto simp: saved_db_def save_phase2_def Let_def st_get_put_list idb_okD read_conversations_of
        split: option.splits)
qed

lemma recomputed_db_conversation:
  assumes "idb_ok d"
  shows "(c \<notin> set cs \<longrightarrow> st_get c (db_conversations (recomputed_db u cs d)) = st_get c (db_conversations d))
    \<and> (st_get c (db_conversations (recomputed_db u cs d)) = st_get c (db_conversations d)
        \<or> (\<exists>row. st_get c (db_conversations (recomputed_db u cs d)) = Some row \<and> sc_lastReadTimestamp row = None))"
proof -
  define ws where "ws = recompute_writes cs (read_conversations cs d) (user_messages u d)"
  have ws: "\<forall>(k, row) \<in> set ws. k \<in> set cs \<and> sc_lastReadTimestamp row = None"
    unfolding ws_def
    by (auto simp: recompute_writes_def recompute_row_def split: option.splits if_splits)
  have get: "st_get c (db_conversations (recomputed_db u cs d)) =
      (case map_of (rev ws) c of Some v \<Rightarrow> Some v | None \<Rightarrow> st_get c (db_conversations d))"
    using assms by (simp add: recomputed_db_def ws_def [symmetric] put_conversations_def st_get_put_list idb_okD)
  have "(c, row) \<in> set ws" if "map_of (rev ws) c = Some row" for row
    using map_of_SomeD [OF that] by simp
  with ws get show ?thesis
    by (fastforce split: option.splits)
qed

lemma saveMessages_returns:
  assumes "\<And>n. fst (pl_idb P n)"
  shows "fst (saveMessages P u ms w) = Inr ()"
  using assms by (simp add: saveMessages_def recomputeAmendedSummaries_def io_simps Let_def case_prod_beta)

definition demo_message :: incoming where
  "demo_message = \<lparr>im_id = ''01A'', im_conversationId = ''dm:U1:U2'', im_fromUser = ''U2'',
     im_fromDevice = ''D2'', im_text = ''hi'', im_timestamp = 5\<rparr>"

lemma demo_message_batch: "batch_of ''dm:U1:U2'' [demo_message] = [demo_message]"
  by (simp add: batch_of_def demo_message_def isAmendment_def parseInner_def)

lemmas demo_saved = io_result [of "saveMessages quiet_platform ''U1'' [demo_message]",
    OF saveMessages_returns [OF quiet_commits]]

lemma saved_ok: "idb_ok (w_db w) \<Longrightarrow> idb_ok (w_db (snd (saveMessages P u ms w)))"
  using keepsD [OF saveMessages_keep_ok, of w P u ms] by (simp add: on_db_def)

lemma marked_ok: "idb_ok (w_db w) \<Longrightarrow> idb_ok (w_db (snd (markConversationRead P c t w)))"
  using keepsD [OF markConversationRead_keep_ok, of w P c t] by (simp add: on_db_def)

text \<open>C5: durability of a save. When \<open>saveMessages\<close> returns, every message of the batch is in the
  store with the content it was given (the last one, when an id repeats), every other message row is
  as before, and the database is well formed; when it throws, the message rows are all written or
  all untouched, never a part of them.\<close>

theorem saveMessages_durable:
  assumes "saveMessages P u ms w = (r, w')" and "idb_ok (w_db w)"
  shows "idb_ok (w_db w')
    \<and> (r = Inr () \<longrightarrow> (\<forall>k. st_get k (db_messages (w_db w')) =
         (case map_of (rev (save_rows u ms)) k of Some m \<Rightarrow> Some m | None \<Rightarrow> st_get k (db_messages (w_db w)))))
    \<and> db_messages (w_db w') \<in> {db_messages (w_db w), st_put_list (save_rows u ms) (db_messages (w_db w))}"
  using saveMessages_messages [OF assms(1)] keepsD [OF saveMessages_keep_ok, of w P u ms] assms
  by (simp add: st_get_put_list idb_okD on_db_def)

theorem saveMessages_durable_witness:
  "idb_ok (w_db (snd (saveMessages quiet_platform ''U1'' [demo_message] quiet_world)))
   \<and> st_get ''01A'' (db_messages (w_db (snd (saveMessages quiet_platform ''U1'' [demo_message] quiet_world))))
      = Some (stored_of ''U1'' demo_message)"
  using saveMessages_durable [OF demo_saved, of quiet_world]
  by (simp add: save_rows_def demo_message_def)

text \<open>Delivery is idempotent for the message rows: saving a batch again, whatever the outcome of
  the second save, leaves every stored message as the first save left it.\<close>

lemma saveMessages_idempotent:
  assumes "saveMessages P u ms w = (Inr (), w1)" and "saveMessages P u ms w1 = (r, w2)"
    and "idb_ok (w_db w)"
  shows "st_get k (db_messages (w_db w2)) = st_get k (db_messages (w_db w1))"
  using saveMessages_messages [OF assms(1)] saveMessages_messages [OF assms(2)] assms(3)
  by (auto simp: st_put_list_idem idb_okD)

text \<open>The additive summary. After a save, a conversation that got messages and no amendment has a
  row whose timestamp is the newest of the old summary and the batch and whose count grew by the
  batch's messages; its text and deleted flag are the old ones exactly when the old summary is
  strictly newer, else those of a newest message of the batch. A conversation the batch does not
  name keeps its row.\<close>

lemma saveMessages_summary:
  assumes "saveMessages P u ms w = (Inr (), w')" and "idb_ok (w_db w)"
    and "\<not> (\<exists>m \<in> set ms. im_conversationId m = c \<and> isAmendment (im_text m))"
  shows "(batch_of c ms = [] \<longrightarrow>
            st_get c (db_conversations (w_db w')) = st_get c (db_conversations (w_db w)))
    \<and> (batch_of c ms \<noteq> [] \<longrightarrow> (\<exists>upd. update_of (batch_of c ms) upd
         \<and> st_get c (db_conversations (w_db w')) =
             Some (merge_summary c (st_get c (db_conversations (w_db w))) upd)))"
proof (cases "ms = []")
  case True
  with assms(1) show ?thesis by (simp add: saveMessages_def io_simps batch_of_def)
next
  case False
  have c: "c \<notin> set (snd (group_messages ms))"
    using assms(3) by (auto simp: group_messages_amended)
  have ok: "idb_ok (saved_db u ms (w_db w))"
    unfolding saved_db_def Let_def by (rule save_phase2_ok [OF assms(2)])
  have "st_get c (db_conversations (w_db w')) = st_get c (db_conversations (saved_db u ms (w_db w)))"
    using assms(1) False by (rule saveMessages_outcome) (use recomputed_db_conversation [OF ok] c in simp_all)
  with group_messages_spec [of c ms] show ?thesis
    by (auto simp: saved_db_conversation [OF assms(2)] split: option.splits)
qed

text \<open>A save forgets the read watermark. After a successful save of any message that is not an
  amendment, the watermark of its conversation reads 0, whatever it was: the rows that
  \<open>saveMessages\<close> and \<open>recomputeAmendedSummaries\<close> put have no \<open>lastReadTimestamp\<close>. Everything the
  user had read in that conversation counts as unread again until the marker is set anew.\<close>

lemma saveMessages_forgets_watermark:
  assumes "saveMessages P u ms w = (Inr (), w')" and "idb_ok (w_db w)" and "batch_of c ms \<noteq> []"
  shows "last_read (st_get c (db_conversations (w_db w'))) = 0"
proof -
  have ms: "ms \<noteq> []" using assms(3) by (auto simp: batch_of_def)
  have ok: "idb_ok (saved_db u ms (w_db w))"
    unfolding saved_db_def Let_def by (rule save_phase2_ok [OF assms(2)])
  obtain row where row: "st_get c (db_conversations (saved_db u ms (w_db w))) = Some row"
      "sc_lastReadTimestamp row = None"
    using group_messages_spec [of c ms] assms(3)
    by (auto simp: saved_db_conversation [OF assms(2)] merge_summary_def Let_def split: option.splits)
  from assms(1) ms show ?thesis
  proof (rule saveMessages_outcome)
    assume "w_db w' = saved_db u ms (w_db w)"
    with row show ?thesis by (simp add: last_read_def)
  next
    assume "w_db w' = recomputed_db u (snd (group_messages ms)) (saved_db u ms (w_db w))"
    with row recomputed_db_conversation [OF ok, of c "snd (group_messages ms)" u] show ?thesis
      by (auto simp: last_read_def)
  qed simp
qed

text \<open>A read watermark never moves back: \<open>markConversationRead\<close> returns true exactly when it
  advanced the watermark of an existing row, to the given timestamp, and otherwise (no row, an
  older timestamp, or a failed transaction) leaves the database as it was; no other row changes.\<close>

lemma markConversationRead_monotone:
  assumes "markConversationRead P c t w = (r, w')" and "idb_ok (w_db w)"
  shows "last_read (st_get j (db_conversations (w_db w))) \<le> last_read (st_get j (db_conversations (w_db w')))
    \<and> (r = Inr True \<longleftrightarrow> last_read (st_get c (db_conversations (w_db w'))) = t
        \<and> last_read (st_get c (db_conversations (w_db w))) < t)
    \<and> (r \<noteq> Inr True \<longrightarrow> w_db w' = w_db w)
    \<and> (j \<noteq> c \<longrightarrow> st_get j (db_conversations (w_db w')) = st_get j (db_conversations (w_db w)))"
proof -
  have key: "sc_conversationId row = c" if "st_get c (db_conversations (w_db w)) = Some row" for row
    using that assms(2) by (auto simp: st_get_in idb_okD dest: idb_okD(4))
  show ?thesis
    using assms key
    by (auto simp: markConversationRead_def io_simps put_conversations_def st_put_list_def
        st_get_put idb_okD last_read_def split: option.splits if_splits)
qed

section \<open>Unread counts\<close>

definition counts_as_unread :: "string \<Rightarrow> string \<Rightarrow> int \<Rightarrow> stored_message \<Rightarrow> bool" where
  "counts_as_unread userId c mark m \<longleftrightarrow> sm_conversationId m = c \<and> sm_fromUser m \<noteq> userId
     \<and> \<not> isAmendment (sm_text m) \<and> mark < sm_timestamp m"

lemma last_read_map:
  assumes "st_ok s" and "\<forall>(k, c) \<in> set s. sc_conversationId c = k"
  shows "map_of (fold (\<lambda>c m. AList.update (sc_conversationId c) (f c) m) (st_all s) acc) k =
    (case st_get k s of Some c \<Rightarrow> Some (f c) | None \<Rightarrow> map_of acc k)"
  using assms
proof (induction s arbitrary: acc)
  case (Cons x s)
  obtain j v where x: "x = (j, v)" by force
  have ok: "st_ok s" and notin: "j \<notin> fst ` set s" using Cons.prems x by (auto simp: st_ok_def)
  have "st_get j s = None" using notin by (simp add: st_get_def map_of_eq_None_iff)
  with Cons.IH [OF ok] Cons.prems x show ?case
    by (auto simp: st_all_def st_get_def split: option.splits)
qed (simp add: st_all_def)

lemma count_fold:
  "map_of (fold (count_unread u lr) ms acc) c =
    (let n = length (filter (counts_as_unread u c (opt_or (map_of lr c) 0)) ms)
     in if n = 0 then map_of acc c else Some (opt_or (map_of acc c) 0 + int n))"
proof (induction ms arbitrary: acc)
  case (Cons m ms)
  have step: "map_of (count_unread u lr m acc) c =
      (if counts_as_unread u c (opt_or (map_of lr c) 0) m then Some (opt_or (map_of acc c) 0 + 1) else map_of acc c)"
    by (auto simp: count_unread_def counts_as_unread_def)
  show ?case
    using Cons [of "count_unread u lr m acc"] by (auto simp: step Let_def)
qed (simp add: Let_def)

lemma unread_of_spec:
  assumes "idb_ok d"
  shows "map_of (unread_of u d) c =
    (let n = length (filter (counts_as_unread u c (last_read (st_get c (db_conversations d)))) (user_messages u d))
     in if n = 0 then None else Some (int n))"
proof -
  have "opt_or (map_of (fold (\<lambda>c m. AList.update (sc_conversationId c) (opt_or (sc_lastReadTimestamp c) 0) m)
        (st_all (db_conversations d)) []) c) 0 = last_read (st_get c (db_conversations d))"
    using last_read_map [of "db_conversations d" "\<lambda>c. opt_or (sc_lastReadTimestamp c) 0" "[]" c] assms
    by (auto simp: idb_okD last_read_def split: option.splits)
  then show ?thesis by (simp add: unread_of_def count_fold)
qed

text \<open>The unread badge of a conversation is the number of the user's stored messages in it that
  someone else sent, that are not amendments and are newer than its watermark; a conversation with
  none has no entry; own messages never count.\<close>

lemma unreadCounts_spec:
  assumes "unreadCounts P u w = (Inr counts, w')" and "idb_ok (w_db w)"
  shows "map_of counts c =
    (let n = length (filter (counts_as_unread u c (last_read (st_get c (db_conversations (w_db w)))))
               (user_messages u (w_db w)))
     in if n = 0 then None else Some (int n))
    \<and> w_db w' = w_db w"
  using assms unread_of_spec by (auto simp: unreadCounts_def io_simps split: if_splits)

text \<open>\<open>loadMessages\<close> returns the user's messages in timeline order (time, then id), each once,
  and exactly those whose timestamp lies in the index range: a message dated before 1970 is stored
  but never loaded.\<close>

lemma loadMessages_order:
  assumes "loadMessages P u w = (Inr ms, w')" and "idb_ok (w_db w)"
  shows "sorted_wrt (\<lambda>a b. order_key a < order_key b) ms
    \<and> set ms = {m. st_get (sm_id m) (db_messages (w_db w)) = Some m \<and> sm_userId m = u \<and> in_range m}"
proof -
  have ok: "st_ok (db_messages (w_db w))" and key: "\<forall>(k, m) \<in> set (db_messages (w_db w)). sm_id m = k"
    using assms(2) by (auto dest: idb_okD)
  have ids: "map sm_id (st_all (db_messages (w_db w))) = map fst (db_messages (w_db w))"
    using key by (auto simp: st_all_def)
  have sorted: "sorted_wrt (<) (map sm_id (st_all (db_messages (w_db w))))"
    using ok unfolding ids st_ok_def .
  have stable: "sorted_wrt (\<lambda>a b. order_key a < order_key b) (sort_key sm_timestamp xs)"
    if "sorted_wrt (<) (map sm_id xs)" for xs :: "stored_message list"
    using that
  proof (induction xs)
    case (Cons x xs)
    have ins: "sorted_wrt (\<lambda>a b. order_key a < order_key b) (insort_key sm_timestamp x ys)"
      if "sorted_wrt (\<lambda>a b. order_key a < order_key b) ys" "\<forall>y \<in> set ys. sm_id x < sm_id y" for ys
      using that by (induction ys) (auto simp: set_insort_key order_key_def)
    show ?case using Cons by (auto intro!: ins)
  qed simp
  have filt: "sorted_wrt (<) (map sm_id (filter p xs))" if "sorted_wrt (<) (map sm_id xs)" for p and xs :: "stored_message list"
    using that by (simp add: sorted_wrt_map sorted_wrt_filter)
  have ms: "ms = by_timestamp u (w_db w)"
    using assms(1) by (auto simp: loadMessages_def io_simps split: if_splits)
  have mem: "m \<in> set (st_all (db_messages (w_db w))) \<longleftrightarrow> st_get (sm_id m) (db_messages (w_db w)) = Some m" for m
    using key ok by (auto simp: st_all_def st_get_in) force
  show ?thesis
    unfolding ms by_timestamp_def user_messages_def
    using stable [OF filt [OF filt [OF sorted]]] mem by (auto simp: in_range_def)
qed

end
