(* ===== verification/Messaging.thy ===== *)
theory Messaging
  imports KeyBackup Conversations
begin

text \<open>
  web/src/lib/messaging.ts: sending an inner payload, processing inbound envelopes, the live and
  archive passes of a sync. Inbound values are raw JSON, as the store holds them: an object without
  the declared strings is skipped like one whose processing throws, and \<open>null\<close> throws where the code
  reads its first property. \<open>backup\<close> is the pair of backup key and key version, when the caller
  passed them. A promise that is not awaited runs to its end where it is started.
\<close>

section \<open>Sending\<close>

record sender =
  sd_token :: string
  sd_userId :: string
  sd_deviceId :: string
  sd_publicKey :: bytes

definition seal_session_key :: "'n platform \<Rightarrow> bytes \<Rightarrow> string \<Rightarrow> ('n world, ecies_ciphertext) io" where
  "seal_session_key P publicKeyBytes sessionKey =
     await (importSharingPublicKey P publicKeyBytes) (\<lambda>pubKey. eciesEncrypt P pubKey sessionKey)"

definition key_share_envelope ::
  "'n platform \<Rightarrow> sender \<Rightarrow> string \<Rightarrow> string \<Rightarrow> string \<Rightarrow> ecies_ciphertext \<Rightarrow> ('n world, envelope) io" where
  "key_share_envelope P me toUser msgId convId enc =
     await (platform_io (pl_now P)) (\<lambda>now.
     ret \<lparr>ev_to_user = toUser, ev_from_user = sd_userId me, ev_from_device = sd_deviceId me,
          ev_msg_id = msgId, ev_sent_at = Some (pl_date_iso P now),
          ev_content = KeyShareContent \<lparr>ks_conversation_id = Some convId,
            ks_ephemeral_key = base64UrlEncode (ec_ephemeralKey enc),
            ks_iv = base64UrlEncode (ec_iv enc),
            ks_ciphertext = base64UrlEncode (ec_ciphertext enc)\<rparr>\<rparr>)"

definition share_envelopes ::
  "'n platform \<Rightarrow> sender \<Rightarrow> string \<Rightarrow> bytes \<Rightarrow> string \<Rightarrow> string \<Rightarrow> ('n world, envelope list) io" where
  "share_envelopes P me toUser toPublicKey convId sessionKey =
     await (platform_io (pl_ulid P)) (\<lambda>keyShareMsgId.
     await (seal_session_key P toPublicKey sessionKey) (\<lambda>enc.
     await (key_share_envelope P me toUser keyShareMsgId convId enc) (\<lambda>e1.
     if toUser = sd_userId me then ret [e1]
     else await (seal_session_key P (sd_publicKey me) sessionKey) (\<lambda>selfEnc.
       await (platform_io (pl_ulid P)) (\<lambda>selfId.
       await (key_share_envelope P me (sd_userId me) selfId convId selfEnc) (\<lambda>e2.
       ret [e1, e2]))))))"

definition message_envelope ::
  "'n platform \<Rightarrow> sender \<Rightarrow> string \<Rightarrow> string \<Rightarrow> string \<Rightarrow> string \<Rightarrow> string \<Rightarrow> ('n world, envelope) io" where
  "message_envelope P me toUser msgId convId sessionId ciphertext =
     await (platform_io (pl_now P)) (\<lambda>now.
     ret \<lparr>ev_to_user = toUser, ev_from_user = sd_userId me, ev_from_device = sd_deviceId me,
          ev_msg_id = msgId, ev_sent_at = Some (pl_date_iso P now),
          ev_content = MessageContent \<lparr>mp_conversation_id = Some convId, mp_session_id = sessionId,
            mp_ciphertext = ciphertext\<rparr>\<rparr>)"

definition message_envelopes ::
  "'n platform \<Rightarrow> sender \<Rightarrow> string \<Rightarrow> string \<Rightarrow> string \<Rightarrow> string \<Rightarrow> ('n world, envelope list) io" where
  "message_envelopes P me toUser convId sessionId ciphertext =
     await (platform_io (pl_ulid P)) (\<lambda>msgId.
     await (message_envelope P me toUser msgId convId sessionId ciphertext) (\<lambda>e1.
     if toUser = sd_userId me then ret [e1]
     else await (message_envelope P me (sd_userId me) msgId convId sessionId ciphertext) (\<lambda>e2.
       ret [e1, e2])))"

definition current_outbound ::
  "'n platform \<Rightarrow> (string \<times> string) option \<Rightarrow> 'n created_callback \<Rightarrow> ('n world, string \<times> bool) io" where
  "current_outbound P self onCreated =
     await (getOutbound P self onCreated) (\<lambda>(session, isNew).
     if needsRotation P session
     then await (rotate P self onCreated) (\<lambda>session'. ret (session', True))
     else ret (session, isNew))"

text \<open>Everything up to the network call: the envelopes, whether a key share is among them, and the
  session they belong to.\<close>

definition prepare_send ::
  "'n platform \<Rightarrow> (string \<times> string) option \<Rightarrow> 'n created_callback \<Rightarrow> sender \<Rightarrow> string \<Rightarrow> bytes \<Rightarrow> inner_payload \<Rightarrow>
     ('n world, envelope list \<times> bool \<times> string) io" where
  "prepare_send P self onCreated me toUser toPublicKey payload =
     await (current_outbound P self onCreated) (\<lambda>(session, isNew).
     let convId = conversationId (sd_userId me) toUser in
     await (if isNew then ret True
            else await (hasSharedWith P (mo_session_id P session) toUser) (\<lambda>shared. ret (\<not> shared))) (\<lambda>needsShare.
     await (if needsShare then share_envelopes P me toUser toPublicKey convId (mo_session_key P session) else ret []) (\<lambda>shares.
     await (encryptOutbound P (stringify (payload_json payload))) (\<lambda>(ciphertext, session').
     await (message_envelopes P me toUser convId (mo_session_id P session') ciphertext) (\<lambda>msgs.
     await (persistOutbound P session') (\<lambda>_.
     ret (shares @ msgs, needsShare, mo_session_id P session')))))))"

definition sendInnerPayload ::
  "'n platform \<Rightarrow> (string \<times> string) option \<Rightarrow> 'n created_callback \<Rightarrow> sender \<Rightarrow> string \<Rightarrow> bytes \<Rightarrow> inner_payload \<Rightarrow> ('n world, unit) io" where
  "sendInnerPayload P self onCreated me toUser toPublicKey payload =
     await (prepare_send P self onCreated me toUser toPublicKey payload) (\<lambda>(envelopes, needsShare, sessionId).
     await (send P (sd_token me) envelopes) (\<lambda>_.
     if needsShare then recordShare P sessionId toUser else ret ()))"

definition sendTextMessage ::
  "'n platform \<Rightarrow> (string \<times> string) option \<Rightarrow> 'n created_callback \<Rightarrow> sender \<Rightarrow> string \<Rightarrow> bytes \<Rightarrow> string \<Rightarrow> ('n world, unit) io" where
  "sendTextMessage P self onCreated me toUser toPublicKey text =
     sendInnerPayload P self onCreated me toUser toPublicKey (TextPayload text)"

text \<open>web/src/lib/amendments.ts.\<close>

definition sendAmendment ::
  "'n platform \<Rightarrow> (string \<times> string) option \<Rightarrow> 'n created_callback \<Rightarrow> sender \<Rightarrow> string \<Rightarrow> bytes \<Rightarrow>
     string \<Rightarrow> amendment_action \<Rightarrow> string option \<Rightarrow> ('n world, unit) io" where
  "sendAmendment P self onCreated me toUser toPublicKey targetId action body =
     sendInnerPayload P self onCreated me toUser toPublicKey
       (AmendmentPayload targetId action (if action = EditA then Some (opt_or body []) else None))"

section \<open>Inbound envelopes\<close>

text \<open>A decrypted message has the fields \<open>saveMessages\<close> takes.\<close>

record sync_ctx =
  sx_token :: string
  sx_userId :: string
  sx_sharingKey :: crypto_key
  sx_hasManager :: bool
  sx_backup :: "(crypto_key \<times> int) option"

definition decode_share :: "key_share_payload \<Rightarrow> ecies_ciphertext option" where
  "decode_share p =
     (case (base64UrlDecode (ks_ephemeral_key p), base64UrlDecode (ks_iv p), base64UrlDecode (ks_ciphertext p)) of
        (Some e, Some i, Some c) \<Rightarrow> Some \<lparr>ec_ephemeralKey = e, ec_iv = i, ec_ciphertext = c\<rparr>
      | _ \<Rightarrow> None)"

definition backup_new_key :: "'n platform \<Rightarrow> sync_ctx \<Rightarrow> string \<Rightarrow> string \<Rightarrow> ('n world, unit) io" where
  "backup_new_key P ctx sid sessionKeyB64 =
     (case sx_backup ctx of
        None \<Rightarrow> ret ()
      | Some (backupKey, keyVersion) \<Rightarrow>
          (if sx_token ctx = [] then ret ()
           else detached (backupSessionKey P (sx_token ctx) (sx_userId ctx) sid sessionKeyB64 backupKey keyVersion)
             (\<lambda>_. catch_err (enqueuePendingKeyBackup P sid sessionKeyB64) (\<lambda>_. ret ()))))"

definition apply_share :: "'n platform \<Rightarrow> sync_ctx \<Rightarrow> envelope \<Rightarrow> key_share_payload \<Rightarrow> ('n world, unit) io" where
  "apply_share P ctx e p =
     catch_err
       (await (or_throw InvalidCharacterError (decode_share p)) (\<lambda>ec.
        await (eciesDecrypt P (sx_sharingKey ctx) ec) (\<lambda>sessionKeyB64.
        await (addInbound P (ev_from_user e) (ev_from_device e) sessionKeyB64) (\<lambda>(sid, isNew).
        if isNew then backup_new_key P ctx sid sessionKeyB64 else ret ()))))
       (\<lambda>_. ret ())"

definition share_step :: "'n platform \<Rightarrow> sync_ctx \<Rightarrow> string list \<Rightarrow> json \<Rightarrow> ('n world, unit) io" where
  "share_step P ctx seen raw =
     (if raw = JNull then throw (TypeErr ''null'')
      else (case envelope_of raw of
         Some e \<Rightarrow>
           (case ev_content e of
              KeyShareContent p \<Rightarrow> if ev_msg_id e \<in> set seen then ret () else apply_share P ctx e p
            | MessageContent _ \<Rightarrow> ret ())
       | None \<Rightarrow> ret ()))"

record process_state =
  ps_messages :: "incoming list"
  ps_advanced :: "string list"
  ps_skips :: nat
  ps_seen :: "string list"

definition decrypted :: "'n platform \<Rightarrow> sync_ctx \<Rightarrow> envelope \<Rightarrow> message_payload \<Rightarrow> string \<Rightarrow> incoming" where
  "decrypted P ctx e p text =
     \<lparr>im_id = ev_msg_id e,
      im_conversationId = (case mp_conversation_id p of
          Some c \<Rightarrow> c | None \<Rightarrow> conversationId (ev_from_user e) (sx_userId ctx)),
      im_fromUser = ev_from_user e, im_fromDevice = ev_from_device e, im_text = text,
      im_timestamp = (case ev_sent_at e of Some s \<Rightarrow> pl_date_parse P s | None \<Rightarrow> 0)\<rparr>"

definition open_message ::
  "'n platform \<Rightarrow> sync_ctx \<Rightarrow> process_state \<Rightarrow> envelope \<Rightarrow> message_payload \<Rightarrow> ('n world, process_state) io" where
  "open_message P ctx st e p =
     catch_err
       (await (getInbound P (mp_session_id p)) (\<lambda>inbound.
        if inbound = None then ret (st\<lparr>ps_skips := ps_skips st + 1\<rparr>)
        else await (decryptInbound P (mp_session_id p) (mp_ciphertext p)) (\<lambda>text.
          ret (st\<lparr>ps_advanced := set_add (mp_session_id p) (ps_advanced st),
                  ps_messages := ps_messages st @ [decrypted P ctx e p text],
                  ps_seen := set_add (ev_msg_id e) (ps_seen st)\<rparr>))))
       (\<lambda>_. ret st)"

definition message_step :: "'n platform \<Rightarrow> sync_ctx \<Rightarrow> json \<Rightarrow> process_state \<Rightarrow> ('n world, process_state) io" where
  "message_step P ctx raw st =
     (case envelope_of raw of
        Some e \<Rightarrow>
          (case ev_content e of
             MessageContent p \<Rightarrow>
               (if ev_msg_id e \<in> set (ps_seen st) \<or> \<not> sx_hasManager ctx then ret st
                else open_message P ctx st e p)
           | KeyShareContent _ \<Rightarrow> ret st)
      | None \<Rightarrow> ret st)"

definition processEnvelopes :: "'n platform \<Rightarrow> sync_ctx \<Rightarrow> json list \<Rightarrow> string list \<Rightarrow> ('n world, process_state) io" where
  "processEnvelopes P ctx envelopes seenMsgIds =
     await (if sx_hasManager ctx then for_each envelopes (share_step P ctx seenMsgIds) else ret ()) (\<lambda>_.
     fold_io (message_step P ctx) envelopes
       \<lparr>ps_messages = [], ps_advanced = [], ps_skips = 0, ps_seen = seenMsgIds\<rparr>)"

section \<open>The two passes of a sync\<close>

record live_result =
  lr_messages :: "incoming list"
  lr_advanced :: "string list"
  lr_lastKey :: "string option"
  lr_prefix :: string

definition fetch_envelope :: "'n platform \<Rightarrow> string \<Rightarrow> string \<Rightarrow> json list \<Rightarrow> ('n world, json list) io" where
  "fetch_envelope P token key envelopes =
     catch_err
       (await (storeGet P token key) (\<lambda>blob.
        await (or_throw SyntaxErr (json_parse blob)) (\<lambda>envelope.
        ret (envelopes @ [envelope]))))
       (\<lambda>_. ret envelopes)"

definition syncLive :: "'n platform \<Rightarrow> sync_ctx \<Rightarrow> ('n world, live_result) io" where
  "syncLive P ctx =
     (let prefix = path_inboxLive (sx_userId ctx) in
      await (loadSyncCursor P prefix) (\<lambda>storedCursor.
      await (catch_err (storeList P (sx_token ctx) prefix storedCursor)
               (\<lambda>_. storeList P (sx_token ctx) prefix None)) (\<lambda>listRes.
      await (fold_io (fetch_envelope P (sx_token ctx)) (sp_keys listRes) []) (\<lambda>envelopes.
      await (processEnvelopes P ctx envelopes []) (\<lambda>result.
      ret \<lparr>lr_messages = ps_messages result, lr_advanced = ps_advanced result,
           lr_lastKey = (if sp_keys listRes = [] then None else Some (last (sp_keys listRes))),
           lr_prefix = prefix\<rparr>)))))"

record archive_state =
  ar_messages :: "incoming list"
  ar_advanced :: "string list"
  ar_candidates :: "string list"
  ar_seen :: "string list"

definition archive_step ::
  "'n platform \<Rightarrow> sync_ctx \<Rightarrow> string list \<Rightarrow> string \<Rightarrow> archive_state \<Rightarrow> ('n world, archive_state) io" where
  "archive_step P ctx ingested key st =
     (if key \<in> set ingested then ret st
      else (\<lambda>w. case storeGet P (sx_token ctx) key w of
          (Inl _, w1) \<Rightarrow> (Inr st, w1)
        | (Inr blob, w1) \<Rightarrow>
            (case pl_cbor_decode P blob of
               None \<Rightarrow> (Inr st, w1)
             | Some (JArr decoded) \<Rightarrow>
                 await (processEnvelopes P ctx decoded (ar_seen st)) (\<lambda>result.
                 ret \<lparr>ar_messages = ar_messages st @ ps_messages result,
                      ar_advanced = fold set_add (ps_advanced result) (ar_advanced st),
                      ar_candidates = ar_candidates st @ (if ps_skips result = 0 then [key] else []),
                      ar_seen = ps_seen result\<rparr>) w1
             | Some _ \<Rightarrow> (Inl (TypeErr ''decoded.map''), w1))))"

definition syncArchive :: "'n platform \<Rightarrow> sync_ctx \<Rightarrow> string list \<Rightarrow> ('n world, archive_state) io" where
  "syncArchive P ctx seenMsgIds =
     (let empty = \<lparr>ar_messages = [], ar_advanced = [], ar_candidates = [], ar_seen = seenMsgIds\<rparr> in
      await (loadIngestedArchiveKeys P) (\<lambda>ingested.
      await (catch_err (await (storeListAll P (sx_token ctx) (path_inboxArchive (sx_userId ctx))) (\<lambda>ks. ret (Some ks)))
               (\<lambda>_. ret None)) (\<lambda>keys.
      case keys of
        None \<Rightarrow> ret empty
      | Some ks \<Rightarrow> fold_io (archive_step P ctx ingested) ks empty)))"

definition persistInbounds :: "'n platform \<Rightarrow> string list \<Rightarrow> ('n world, unit) io" where
  "persistInbounds P sessionIds = for_each sessionIds (persistInbound P)"

definition triggerCompaction :: "'n platform \<Rightarrow> string \<Rightarrow> string \<Rightarrow> string \<Rightarrow> string \<Rightarrow> ('n world, unit) io" where
  "triggerCompaction P token userId prefix lastKey =
     await (detached (storeCompact P token prefix (drop (length prefix) lastKey)) (\<lambda>_. ret ())) (\<lambda>_.
     detached (storeCompact P token (path_keysLive userId) ''~'') (\<lambda>_. ret ()))"

definition flush_one :: "'n platform \<Rightarrow> string \<Rightarrow> string \<Rightarrow> crypto_key \<Rightarrow> int \<Rightarrow> string \<times> string \<Rightarrow> ('n world, unit) io" where
  "flush_one P token userId backupKey keyVersion entry =
     catch_err
       (await (backupSessionKey P token userId (fst entry) (snd entry) backupKey keyVersion) (\<lambda>_.
        deletePendingKeyBackup P (fst entry)))
       (\<lambda>_. ret ())"

definition flushPendingKeyBackups ::
  "'n platform \<Rightarrow> string \<Rightarrow> string \<Rightarrow> crypto_key \<Rightarrow> int \<Rightarrow> ('n world, unit) io" where
  "flushPendingKeyBackups P token userId backupKey keyVersion =
     await (listPendingKeyBackups P) (\<lambda>pending.
     for_each pending (flush_one P token userId backupKey keyVersion))"

record sync_result =
  sr_messages :: "incoming list"
  sr_candidates :: "string list"

definition finish_live :: "'n platform \<Rightarrow> sync_ctx \<Rightarrow> live_result \<Rightarrow> ('n world, unit) io" where
  "finish_live P ctx live =
     (case lr_lastKey live of
        None \<Rightarrow> ret ()
      | Some lastKey \<Rightarrow>
          await (saveSyncCursor P (lr_prefix live) lastKey) (\<lambda>_.
          triggerCompaction P (sx_token ctx) (sx_userId ctx) (lr_prefix live) lastKey))"

definition fetchMessages :: "'n platform \<Rightarrow> sync_ctx \<Rightarrow> ('n world, sync_result) io" where
  "fetchMessages P ctx =
     await (syncLive P ctx) (\<lambda>live.
     await (loadMessageIds P (sx_userId ctx)) (\<lambda>stored.
     await (syncArchive P ctx (fold set_add (map im_id (lr_messages live)) stored)) (\<lambda>archive.
     await (if sx_hasManager ctx
            then persistInbounds P (fold set_add (ar_advanced archive) (lr_advanced live)) else ret ()) (\<lambda>_.
     await (finish_live P ctx live) (\<lambda>_.
     await (case sx_backup ctx of
          Some (backupKey, keyVersion) \<Rightarrow>
            (if sx_token ctx = [] then ret ()
             else detached (flushPendingKeyBackups P (sx_token ctx) (sx_userId ctx) backupKey keyVersion) (\<lambda>_. ret ()))
        | None \<Rightarrow> ret ()) (\<lambda>_.
     ret \<lparr>sr_messages = sort_key im_timestamp (lr_messages live @ ar_messages archive),
          sr_candidates = ar_candidates archive\<rparr>))))))"

section \<open>The database stays well formed\<close>

lemma messaging_keep [keeps_intros]:
  "keeps (on_db idb_ok) (backup_new_key P ctx sid k)" "keeps (on_db idb_ok) (share_step P ctx seen raw)"
  "keeps (on_db idb_ok) (message_step P ctx raw st)" "keeps (on_db idb_ok) (fetch_envelope P t key envs)"
  "keeps (on_db idb_ok) (flush_one P t u bk kv en)" "keeps (on_db idb_ok) (persistInbounds P sids)"
  "keeps (on_db idb_ok) (triggerCompaction P t u pre last_key)"
  by (auto intro!: keeps_intros simp: backup_new_key_def backupSessionKey_def backup_blob_def share_step_def
      apply_share_def message_step_def open_message_def fetch_envelope_def flush_one_def persistInbounds_def
      triggerCompaction_def split: option.splits envelope_content.splits prod.splits)

lemma processEnvelopes_keep [keeps_intros]: "keeps (on_db idb_ok) (processEnvelopes P ctx envs seen)"
  unfolding processEnvelopes_def by (intro keeps_intros)

lemma archive_step_keeps:
  assumes "\<And>k. keeps Q (storeGet P (sx_token ctx) k)" and "\<And>envs seen. keeps Q (processEnvelopes P ctx envs seen)"
  shows "keeps Q (archive_step P ctx ing key st)"
proof (rule keepsI)
  fix w assume w: "Q w"
  have g: "storeGet P (sx_token ctx) key w = (r, w1) \<Longrightarrow> Q w1" for r w1
    using keeps_result [OF assms(1) _ w] .
  have p: "processEnvelopes P ctx decoded seen w1 = (r, w2) \<Longrightarrow> Q w1 \<Longrightarrow> Q w2" for decoded seen w1 r w2
    by (rule keeps_result [OF assms(2)])
  show "Q (snd (archive_step P ctx ing key st w))"
    using w by (auto simp: archive_step_def io_simps dest: p g split: prod.splits sum.splits option.splits json.splits)
qed

lemma archive_step_keep [keeps_intros]: "keeps (on_db idb_ok) (archive_step P ctx ing key st)"
  by (intro archive_step_keeps keeps_intros)

lemma sync_keep [keeps_intros]:
  "keeps (on_db idb_ok) (syncLive P ctx)" "keeps (on_db idb_ok) (syncArchive P ctx seen)"
  "keeps (on_db idb_ok) (flushPendingKeyBackups P t u bk kv)" "keeps (on_db idb_ok) (finish_live P ctx live)"
  by (auto intro!: keeps_intros simp: syncLive_def syncArchive_def flushPendingKeyBackups_def finish_live_def Let_def
      split: option.splits)

lemma fetchMessages_keep [keeps_intros]: "keeps (on_db idb_ok) (fetchMessages P ctx)"
  unfolding fetchMessages_def by (intro keeps_intros) (auto intro!: keeps_intros split: option.splits)

end
