(* ===== verification/Delivery.thy ===== *)
theory Delivery
  imports Messaging
begin

text \<open>
  What sending and receiving (Messaging) guarantee together: a batch delivers no message twice, an
  archive is reported as ingested only when each of its messages was seen or threw when it was opened, a
  send ships one ciphertext and the key to whoever lacks it, after saving the ratchet, and what one
  client sends another reads.
\<close>

section \<open>The manager's cache\<close>

definition on_mgr :: "(mgr \<Rightarrow> bool) \<Rightarrow> 'n world \<Rightarrow> bool" where
  "on_mgr Q w \<longleftrightarrow> Q (w_mgr w)"

lemma on_mgr_local: "on_mgr Q = on_local (\<lambda>_ _ m. Q m)"
  by (simp add: fun_eq_iff on_mgr_def on_local_def)

lemma keeps_on_mgr [keeps_intros]:
  "keeps (on_mgr Q) (platform_io f)" "keeps (on_mgr Q) (db_read P g)" "keeps (on_mgr Q) (db_write P h)"
  "keeps (on_mgr Q) get_mgr" "(\<And>m. Q m \<Longrightarrow> Q (u m)) \<Longrightarrow> keeps (on_mgr Q) (mod_mgr u)"
  by (simp_all add: keeps_def io_simps on_mgr_def)

lemma map_has_update [simp]: "map_has k (AList.update j v m) \<longleftrightarrow> k = j \<or> map_has k m"
  by (simp add: map_has_def)

section \<open>Decrypting a batch\<close>

text \<open>What one pass adds: the ids of its messages are new, distinct, and exactly what \<open>seenMsgIds\<close>
  grew by, and every message comes from an envelope of the batch.\<close>

definition from_batch :: "'n platform \<Rightarrow> sync_ctx \<Rightarrow> json list \<Rightarrow> incoming \<Rightarrow> bool" where
  "from_batch P ctx envs m \<longleftrightarrow> (\<exists>raw \<in> set envs. \<exists>e p text. envelope_of raw = Some e
     \<and> ev_content e = MessageContent p \<and> m = decrypted P ctx e p text)"

definition batch_inv :: "'n platform \<Rightarrow> sync_ctx \<Rightarrow> json list \<Rightarrow> string list \<Rightarrow> process_state \<Rightarrow> bool" where
  "batch_inv P ctx envs seen st \<longleftrightarrow>
     distinct (map im_id (ps_messages st)) \<and> set (map im_id (ps_messages st)) \<inter> set seen = {}
     \<and> set (ps_seen st) = set seen \<union> set (map im_id (ps_messages st))
     \<and> (\<forall>m \<in> set (ps_messages st). from_batch P ctx envs m)"

lemma open_message_cases:
  assumes "open_message P ctx st e p w = (Inr st', w')"
  shows "st' = st \<or> st' = st\<lparr>ps_skips := ps_skips st + 1\<rparr>
    \<or> (\<exists>text. st' = st\<lparr>ps_advanced := set_add (mp_session_id p) (ps_advanced st),
          ps_messages := ps_messages st @ [decrypted P ctx e p text], ps_seen := set_add (ev_msg_id e) (ps_seen st)\<rparr>)"
  using assms by (auto simp: open_message_def io_simps split: prod.splits sum.splits if_splits)

lemma message_step_inv:
  assumes "raw \<in> set envs" "batch_inv P ctx envs seen st" "message_step P ctx raw st w = (Inr st', w')"
  shows "batch_inv P ctx envs seen st'"
proof (cases "st' = st \<or> st' = st\<lparr>ps_skips := ps_skips st + 1\<rparr>")
  case True
  then have "ps_messages st' = ps_messages st" "ps_seen st' = ps_seen st" by auto
  then show ?thesis using assms(2) by (simp add: batch_inv_def)
next
  case False
  then obtain e p where e: "envelope_of raw = Some e" "ev_content e = MessageContent p"
      "ev_msg_id e \<notin> set (ps_seen st)" "open_message P ctx st e p w = (Inr st', w')"
    using assms(3) by (auto simp: message_step_def io_simps split: option.splits envelope_content.splits if_splits)
  obtain plain where st': "st' = st\<lparr>ps_advanced := set_add (mp_session_id p) (ps_advanced st),
      ps_messages := ps_messages st @ [decrypted P ctx e p plain], ps_seen := set_add (ev_msg_id e) (ps_seen st)\<rparr>"
    using open_message_cases [OF e(4)] False by blast
  have "from_batch P ctx envs (decrypted P ctx e p plain)"
    using assms(1) e(1,2) by (auto simp: from_batch_def)
  moreover have "im_id (decrypted P ctx e p plain) = ev_msg_id e" by (simp add: decrypted_def)
  ultimately show ?thesis using assms(2) e(3) by (auto simp: batch_inv_def st')
qed

lemma processEnvelopes_shares:
  assumes "processEnvelopes P ctx envs seen w = (Inr st, w')"
  obtains w1 where "fold_io (message_step P ctx) envs
      \<lparr>ps_messages = [], ps_advanced = [], ps_skips = 0, ps_seen = seen\<rparr> w1 = (Inr st, w')"
  using assms by (auto simp: processEnvelopes_def io_simps split: prod.splits sum.splits)

lemma processEnvelopes_inv:
  assumes "processEnvelopes P ctx envs seen w = (Inr st, w')"
  shows "batch_inv P ctx envs seen st"
proof -
  obtain w1 where "fold_io (message_step P ctx) envs \<lparr>ps_messages = [], ps_advanced = [], ps_skips = 0, ps_seen = seen\<rparr> w1 = (Inr st, w')"
    using assms by (rule processEnvelopes_shares)
  then show ?thesis
  proof (rule fold_io_inv [where J = "batch_inv P ctx envs seen"])
    show "batch_inv P ctx envs seen \<lparr>ps_messages = [], ps_advanced = [], ps_skips = 0, ps_seen = seen\<rparr>"
      by (simp add: batch_inv_def)
  qed (rule message_step_inv)
qed

section \<open>No message is left behind\<close>

text \<open>The log of a run, kept beside it. Opening a message throws when reading its session or decrypting
  throws; \<open>unopened\<close> lists the messages of a pass whose opening threw.\<close>

definition open_fails :: "'n platform \<Rightarrow> message_payload \<Rightarrow> 'n world \<Rightarrow> bool" where
  "open_fails P p w =
     (case getInbound P (mp_session_id p) w of
        (Inl _, _) \<Rightarrow> True
      | (Inr None, _) \<Rightarrow> False
      | (Inr (Some _), w1) \<Rightarrow> (case decryptInbound P (mp_session_id p) (mp_ciphertext p) w1 of
            (Inl _, _) \<Rightarrow> True
          | (Inr _, _) \<Rightarrow> False))"

definition step_fails :: "'n platform \<Rightarrow> sync_ctx \<Rightarrow> json \<Rightarrow> process_state \<Rightarrow> 'n world \<Rightarrow> bool" where
  "step_fails P ctx raw st w =
     (case envelope_of raw of
        Some e \<Rightarrow> (case ev_content e of
            MessageContent p \<Rightarrow> ev_msg_id e \<notin> set (ps_seen st) \<and> open_fails P p w
          | KeyShareContent _ \<Rightarrow> False)
      | None \<Rightarrow> False)"

fun unopened :: "'n platform \<Rightarrow> sync_ctx \<Rightarrow> json list \<Rightarrow> process_state \<Rightarrow> 'n world \<Rightarrow> json list" where
  "unopened P ctx [] st w = []"
| "unopened P ctx (raw # envs) st w =
     (if step_fails P ctx raw st w then [raw] else [])
     @ (case message_step P ctx raw st w of
          (Inl _, _) \<Rightarrow> []
        | (Inr st', w') \<Rightarrow> unopened P ctx envs st' w')"

text \<open>An envelope is covered when it is no message, its id was seen, or opening it threw.\<close>

definition covered :: "string set \<Rightarrow> json list \<Rightarrow> json \<Rightarrow> bool" where
  "covered seen failed raw =
     (case envelope_of raw of
        Some e \<Rightarrow> (case ev_content e of
            MessageContent _ \<Rightarrow> ev_msg_id e \<in> seen \<or> raw \<in> set failed
          | KeyShareContent _ \<Rightarrow> True)
      | None \<Rightarrow> True)"

lemma covered_mono:
  "covered seen failed raw \<Longrightarrow> seen \<subseteq> seen' \<Longrightarrow> set failed \<subseteq> set failed' \<Longrightarrow> covered seen' failed' raw"
  by (auto simp: covered_def split: option.splits envelope_content.splits)

lemma message_step_covered:
  assumes "sx_hasManager ctx" "message_step P ctx raw st w = (Inr st', w')"
  shows "set (ps_seen st) \<subseteq> set (ps_seen st') \<and> ps_skips st \<le> ps_skips st'
    \<and> (ps_skips st' = ps_skips st \<longrightarrow> covered (set (ps_seen st')) (if step_fails P ctx raw st w then [raw] else []) raw)"
  using assms
  by (auto simp: message_step_def open_message_def step_fails_def open_fails_def covered_def io_simps
      split: option.splits envelope_content.splits if_splits prod.splits sum.splits)

lemma message_steps_covered:
  assumes "sx_hasManager ctx" "fold_io (message_step P ctx) envs st w = (Inr st', w')"
  shows "set (ps_seen st) \<subseteq> set (ps_seen st') \<and> ps_skips st \<le> ps_skips st'
    \<and> (ps_skips st' = ps_skips st \<longrightarrow> (\<forall>raw \<in> set envs. covered (set (ps_seen st')) (unopened P ctx envs st w) raw))"
  using assms(2)
proof (induction envs arbitrary: st w)
  case (Cons raw envs)
  then obtain st1 w1 where m: "message_step P ctx raw st w = (Inr st1, w1)"
    and f: "fold_io (message_step P ctx) envs st1 w1 = (Inr st', w')"
    by (auto simp: await_Inr)
  note s = message_step_covered [OF assms(1) m] and r = Cons.IH [OF f]
  have "covered (set (ps_seen st1)) (if step_fails P ctx raw st w then [raw] else []) raw
      \<Longrightarrow> covered (set (ps_seen st')) (unopened P ctx (raw # envs) st w) raw"
    using r by (auto simp del: unopened.simps(1) intro: covered_mono)
  moreover have "covered (set (ps_seen st')) (unopened P ctx envs st1 w1) e
      \<Longrightarrow> covered (set (ps_seen st')) (unopened P ctx (raw # envs) st w) e" for e
    by (rule covered_mono) (auto simp: m)
  ultimately show ?case using s r by auto
qed (simp add: ret_app)

definition batch_unopened :: "'n platform \<Rightarrow> sync_ctx \<Rightarrow> json list \<Rightarrow> string list \<Rightarrow> 'n world \<Rightarrow> json list" where
  "batch_unopened P ctx envs seen w =
     (case (if sx_hasManager ctx then for_each envs (share_step P ctx seen) else ret ()) w of
        (Inl _, _) \<Rightarrow> []
      | (Inr _, w1) \<Rightarrow> unopened P ctx envs \<lparr>ps_messages = [], ps_advanced = [], ps_skips = 0, ps_seen = seen\<rparr> w1)"

lemma processEnvelopes_covered:
  assumes "sx_hasManager ctx" "processEnvelopes P ctx envs seen w = (Inr st, w')"
  shows "set seen \<subseteq> set (ps_seen st)
    \<and> (ps_skips st = 0 \<longrightarrow> (\<forall>raw \<in> set envs. covered (set (ps_seen st)) (batch_unopened P ctx envs seen w) raw))"
proof -
  obtain w1 where s: "(if sx_hasManager ctx then for_each envs (share_step P ctx seen) else ret ()) w = (Inr (), w1)"
    and f: "fold_io (message_step P ctx) envs \<lparr>ps_messages = [], ps_advanced = [], ps_skips = 0, ps_seen = seen\<rparr> w1 = (Inr st, w')"
    using assms(2) by (auto simp: processEnvelopes_def await_Inr)
  from message_steps_covered [OF assms(1) f] s show ?thesis by (simp add: batch_unopened_def)
qed

section \<open>A sync\<close>

lemma archive_step_cases:
  assumes "archive_step P ctx ing key st w = (Inr st', w')"
  obtains (skipped) "st' = st"
  | (processed) blob decoded result w1 where "storeGet P (sx_token ctx) key w = (Inr blob, w1)"
      "pl_cbor_decode P blob = Some (JArr decoded)"
      "processEnvelopes P ctx decoded (ar_seen st) w1 = (Inr result, w')"
      "st' = \<lparr>ar_messages = ar_messages st @ ps_messages result,
              ar_advanced = fold set_add (ps_advanced result) (ar_advanced st),
              ar_candidates = ar_candidates st @ (if ps_skips result = 0 then [key] else []),
              ar_seen = ps_seen result\<rparr>"
proof (cases "key \<in> set ing")
  case False
  obtain g w1 where g: "storeGet P (sx_token ctx) key w = (g, w1)" by fastforce
  show thesis
  proof (cases g)
    case (Inr blob)
    show thesis
    proof (cases "pl_cbor_decode P blob")
      case None
      then show thesis using assms False g Inr by (intro skipped) (simp add: archive_step_def)
    next
      case (Some j)
      then obtain decoded where j: "j = JArr decoded"
        using assms False g Inr by (cases j) (simp_all add: archive_step_def)
      obtain r w2 where r: "processEnvelopes P ctx decoded (ar_seen st) w1 = (r, w2)" by fastforce
      then obtain result where "r = Inr result"
        using assms False g Inr Some j by (cases r) (simp_all add: archive_step_def await_app)
      then show thesis
        using assms False g Inr Some j r
        by (intro processed [of blob w1 decoded result]) (simp_all add: archive_step_def await_app ret_app)
    qed
  next
    case (Inl err)
    then show thesis using assms False g by (intro skipped) (simp add: archive_step_def)
  qed
next
  case True
  then show thesis using assms by (intro skipped) (simp add: archive_step_def ret_app)
qed

text \<open>What the archive pass has done so far: its messages are new and distinct, and the archives it
  would mark hold nothing that was not delivered.\<close>

definition archive_inv :: "'n platform \<Rightarrow> sync_ctx \<Rightarrow> string list \<Rightarrow> archive_state \<Rightarrow> bool" where
  "archive_inv P ctx seen st \<longleftrightarrow>
     distinct (map im_id (ar_messages st)) \<and> set (map im_id (ar_messages st)) \<inter> set seen = {}
     \<and> set (ar_seen st) = set seen \<union> set (map im_id (ar_messages st))"

lemma archive_step_inv:
  assumes "archive_inv P ctx seen st" "archive_step P ctx ing key st w = (Inr st', w')"
  shows "archive_inv P ctx seen st'"
  using assms(2)
proof (cases rule: archive_step_cases)
  case (processed blob decoded result w1)
  from processEnvelopes_inv [OF processed(3)] assms(1) show ?thesis
    by (auto simp: archive_inv_def batch_inv_def processed(4))
qed (use assms(1) in simp)

lemma syncArchive_fold:
  assumes "syncArchive P ctx seen w = (Inr st, w')"
  shows "st = \<lparr>ar_messages = [], ar_advanced = [], ar_candidates = [], ar_seen = seen\<rparr>
    \<or> (\<exists>ing ks w1. fold_io (archive_step P ctx ing) ks \<lparr>ar_messages = [], ar_advanced = [], ar_candidates = [], ar_seen = seen\<rparr> w1 = (Inr st, w'))"
  using assms
  by (auto simp: syncArchive_def Let_def io_simps split: prod.splits sum.splits option.splits)

lemma syncArchive_inv:
  assumes "syncArchive P ctx seen w = (Inr st, w')"
  shows "archive_inv P ctx seen st"
proof -
  have e: "archive_inv P ctx seen \<lparr>ar_messages = [], ar_advanced = [], ar_candidates = [], ar_seen = seen\<rparr>"
    by (simp add: archive_inv_def)
  from syncArchive_fold [OF assms] show ?thesis
  proof (elim disjE exE)
    fix ing ks w1
    assume "fold_io (archive_step P ctx ing) ks \<lparr>ar_messages = [], ar_advanced = [], ar_candidates = [], ar_seen = seen\<rparr> w1 = (Inr st, w')"
    then show ?thesis
    proof (rule fold_io_inv [where J = "archive_inv P ctx seen", OF _ e])
      show "archive_inv P ctx seen st2" if "archive_inv P ctx seen st1" "archive_step P ctx ing key st1 v = (Inr st2, v')"
        for key st1 v st2 v' using that by (rule archive_step_inv)
    qed
  qed (simp add: e)
qed

section \<open>The log of an archive pass\<close>

text \<open>The archives an archive pass downloads and decodes, each with its contents and those of its
  messages whose opening threw.\<close>

type_synonym archive_record = "string \<times> json list \<times> json list"

definition archive_entry :: "'n platform \<Rightarrow> sync_ctx \<Rightarrow> string list \<Rightarrow> string \<Rightarrow> archive_state \<Rightarrow> 'n world \<Rightarrow> archive_record list" where
  "archive_entry P ctx ingested key st w =
     (if key \<in> set ingested then []
      else (case storeGet P (sx_token ctx) key w of
          (Inl _, _) \<Rightarrow> []
        | (Inr blob, w1) \<Rightarrow> (case pl_cbor_decode P blob of
              Some (JArr decoded) \<Rightarrow> [(key, decoded, batch_unopened P ctx decoded (ar_seen st) w1)]
            | _ \<Rightarrow> [])))"

fun archive_log :: "'n platform \<Rightarrow> sync_ctx \<Rightarrow> string list \<Rightarrow> string list \<Rightarrow> archive_state \<Rightarrow> 'n world \<Rightarrow> archive_record list" where
  "archive_log P ctx ingested [] st w = []"
| "archive_log P ctx ingested (key # keys) st w =
     archive_entry P ctx ingested key st w
     @ (case archive_step P ctx ingested key st w of
          (Inl _, _) \<Rightarrow> []
        | (Inr st', w') \<Rightarrow> archive_log P ctx ingested keys st' w')"

definition fully_read :: "string set \<Rightarrow> archive_record list \<Rightarrow> string \<Rightarrow> bool" where
  "fully_read seen log key \<longleftrightarrow> (\<exists>(k, decoded, failed) \<in> set log. k = key \<and> (\<forall>raw \<in> set decoded. covered seen failed raw))"

lemma fully_read_mono:
  "fully_read seen log key \<Longrightarrow> seen \<subseteq> seen' \<Longrightarrow> set log \<subseteq> set log' \<Longrightarrow> fully_read seen' log' key"
  unfolding fully_read_def
proof (elim bexE)
  fix x assume "x \<in> set log" "case x of (k, decoded, failed) \<Rightarrow> k = key \<and> (\<forall>raw \<in> set decoded. covered seen failed raw)"
    "seen \<subseteq> seen'" "set log \<subseteq> set log'"
  then show "\<exists>(k, decoded, failed) \<in> set log'. k = key \<and> (\<forall>raw \<in> set decoded. covered seen' failed raw)"
    by (intro bexI [of _ x]) (auto intro: covered_mono)
qed

lemma archive_step_read:
  assumes "sx_hasManager ctx" "archive_step P ctx ing key st w = (Inr st', w')"
  shows "set (ar_seen st) \<subseteq> set (ar_seen st')
    \<and> (\<forall>k \<in> set (ar_candidates st'). k \<in> set (ar_candidates st) \<or> fully_read (set (ar_seen st')) (archive_entry P ctx ing key st w) k)"
proof (cases "key \<in> set ing")
  case False
  show ?thesis using assms(2)
  proof (cases rule: archive_step_cases)
    case (processed blob decoded result w1)
    from processEnvelopes_covered [OF assms(1) processed(3)] False show ?thesis
      by (auto simp: processed archive_entry_def fully_read_def)
  qed simp
qed (use assms(2) in \<open>simp add: archive_step_def ret_app\<close>)

lemma archive_steps_read:
  assumes "sx_hasManager ctx" "fold_io (archive_step P ctx ing) ks st w = (Inr st', w')"
  shows "set (ar_seen st) \<subseteq> set (ar_seen st')
    \<and> (\<forall>k \<in> set (ar_candidates st'). k \<in> set (ar_candidates st) \<or> fully_read (set (ar_seen st')) (archive_log P ctx ing ks st w) k)"
  using assms(2)
proof (induction ks arbitrary: st w)
  case (Cons key ks)
  then obtain st1 w1 where m: "archive_step P ctx ing key st w = (Inr st1, w1)"
    and f: "fold_io (archive_step P ctx ing) ks st1 w1 = (Inr st', w')"
    by (auto simp: await_Inr)
  note s = archive_step_read [OF assms(1) m] and r = Cons.IH [OF f]
  have "fully_read (set (ar_seen st1)) (archive_entry P ctx ing key st w) k
      \<Longrightarrow> fully_read (set (ar_seen st')) (archive_log P ctx ing (key # ks) st w) k" for k
    using r by (auto intro: fully_read_mono)
  moreover have "fully_read (set (ar_seen st')) (archive_log P ctx ing ks st1 w1) k
      \<Longrightarrow> fully_read (set (ar_seen st')) (archive_log P ctx ing (key # ks) st w) k" for k
    by (auto simp: m intro: fully_read_mono)
  ultimately show ?case using s r by blast
qed (simp add: ret_app)

text \<open>The log of the archive pass of a sync.\<close>

definition syncArchive_log :: "'n platform \<Rightarrow> sync_ctx \<Rightarrow> string list \<Rightarrow> 'n world \<Rightarrow> archive_record list" where
  "syncArchive_log P ctx seen w =
     (case loadIngestedArchiveKeys P w of
        (Inl _, _) \<Rightarrow> []
      | (Inr ingested, w1) \<Rightarrow> (case storeListAll P (sx_token ctx) (path_inboxArchive (sx_userId ctx)) w1 of
            (Inl _, _) \<Rightarrow> []
          | (Inr ks, w2) \<Rightarrow> archive_log P ctx ingested ks
              \<lparr>ar_messages = [], ar_advanced = [], ar_candidates = [], ar_seen = seen\<rparr> w2))"

definition sync_log :: "'n platform \<Rightarrow> sync_ctx \<Rightarrow> 'n world \<Rightarrow> archive_record list" where
  "sync_log P ctx w =
     (case syncLive P ctx w of
        (Inl _, _) \<Rightarrow> []
      | (Inr live, w1) \<Rightarrow> (case loadMessageIds P (sx_userId ctx) w1 of
            (Inl _, _) \<Rightarrow> []
          | (Inr stored, w2) \<Rightarrow> syncArchive_log P ctx (fold set_add (map im_id (lr_messages live)) stored) w2))"

text \<open>An archive is offered for marking only when nothing of it is left behind: every key that
  \<open>syncArchive\<close> reports was downloaded and decoded in this pass, and each of its messages was seen
  before, is among the messages delivered, or threw when it was opened.\<close>

lemma syncArchive_read:
  assumes "sx_hasManager ctx" and "syncArchive P ctx seen w = (Inr st, w')" and "key \<in> set (ar_candidates st)"
  shows "fully_read (set (ar_seen st)) (syncArchive_log P ctx seen w) key"
proof -
  obtain ing w1 where i: "loadIngestedArchiveKeys P w = (Inr ing, w1)"
    using assms(2) by (auto simp: syncArchive_def Let_def await_Inr)
  show ?thesis
  proof (cases "storeListAll P (sx_token ctx) (path_inboxArchive (sx_userId ctx)) w1")
    case (Pair r w2)
    show ?thesis
    proof (cases r)
      case (Inl e)
      then show ?thesis using assms(2,3) i Pair
        by (auto simp: syncArchive_def Let_def await_app catch_err_app ret_app)
    next
      case (Inr ks)
      then have "fold_io (archive_step P ctx ing) ks
          \<lparr>ar_messages = [], ar_advanced = [], ar_candidates = [], ar_seen = seen\<rparr> w2 = (Inr st, w')"
        using assms(2) i Pair by (simp add: syncArchive_def Let_def await_app catch_err_app ret_app)
      from archive_steps_read [OF assms(1) this] assms(3) i Pair Inr show ?thesis
        by (simp add: syncArchive_log_def)
    qed
  qed
qed

section \<open>Sending\<close>

lemma message_envelopes_shape:
  assumes "message_envelopes P me to conv sid ct w = (Inr msgs, w')"
  obtains mid where "map ev_to_user msgs = (if to = sd_userId me then [to] else [to, sd_userId me])"
    and "\<forall>e \<in> set msgs. ev_msg_id e = mid \<and> ev_from_user e = sd_userId me \<and> ev_from_device e = sd_deviceId me
      \<and> ev_content e = MessageContent \<lparr>mp_conversation_id = Some conv, mp_session_id = sid, mp_ciphertext = ct\<rparr>"
    and "w_db w' = w_db w" and "w_mgr w' = w_mgr w"
  using assms
  by (cases "to = sd_userId me")
    (auto simp: message_envelopes_def message_envelope_def await_Inr ret_app platform_io_app)

definition is_share :: "sender \<Rightarrow> string \<Rightarrow> envelope \<Rightarrow> bool" where
  "is_share me conv e \<longleftrightarrow> ev_from_user e = sd_userId me \<and> ev_from_device e = sd_deviceId me
     \<and> (\<exists>k. ev_content e = KeyShareContent k \<and> ks_conversation_id k = Some conv)"

lemma share_envelopes_shape:
  assumes "share_envelopes P me to pk conv key w = (Inr shares, w')"
  shows "map ev_to_user shares = (if to = sd_userId me then [to] else [to, sd_userId me])
    \<and> (\<forall>e \<in> set shares. is_share me conv e)"
  using assms
  by (cases "to = sd_userId me")
    (auto simp: share_envelopes_def key_share_envelope_def is_share_def await_Inr ret_app platform_io_app)

text \<open>An envelope that carries a session key sealed for the holder of a public key.\<close>

definition seals_key :: "'n platform \<Rightarrow> bytes \<Rightarrow> string \<Rightarrow> envelope \<Rightarrow> bool" where
  "seals_key P pk key e \<longleftrightarrow> (\<exists>k ec v v'. ev_content e = KeyShareContent k \<and> decode_share k = Some ec
     \<and> seal_session_key P pk key v = (Inr ec, v'))"

lemma key_share_seals:
  assumes "seal_session_key P pk key v = (Inr enc, v')" and "key_share_envelope P me to mid conv enc w = (Inr e, w')"
  shows "seals_key P pk key e \<and> ev_to_user e = to"
proof -
  obtain k where k: "ev_content e = KeyShareContent k" "decode_share k = Some enc" "ev_to_user e = to"
    using assms(2)
    by (auto simp: key_share_envelope_def decode_share_def base64UrlDecode_Encode await_Inr ret_app platform_io_app)
  then show ?thesis using assms(1) unfolding seals_key_def by blast
qed

lemma share_envelopes_seal:
  assumes "share_envelopes P me to pk conv key w = (Inr shares, w')"
  shows "\<forall>e \<in> set shares. seals_key P (if ev_to_user e = to then pk else sd_publicKey me) key e"
  using assms key_share_seals [of P _ key]
  by (cases "to = sd_userId me") (fastforce simp: share_envelopes_def await_Inr ret_app)+

section \<open>From sender to recipient\<close>

text \<open>Megolm: what an outbound session encrypts, the inbound session made from the key it exported
  before decrypts, under the same session id.\<close>

definition megolm_law :: "'n platform \<Rightarrow> bool" where
  "megolm_law P \<longleftrightarrow> (\<forall>s m ct s'. mo_encrypt P s m = (ct, s') \<longrightarrow>
     (\<exists>i. mi_from_session_key P (mo_session_key P s) = Some i \<and> mi_session_id P i = mo_session_id P s'
        \<and> fst (mi_decrypt P i ct) = Some m))"

definition sends_with :: "string \<Rightarrow> 'n world \<Rightarrow> bool" where
  "sends_with s = on_mgr (\<lambda>m. mg_outbound m = Some s)"

lemma sends_with_keep [keeps_intros]:
  "keeps (sends_with s) (platform_io f)" "keeps (sends_with s) (db_read P g)" "keeps (sends_with s) (db_write P h)"
  "keeps (sends_with s) (addInbound P u d k)"
  by (auto intro!: keeps_intros simp: sends_with_def addInbound_def Let_def loadInboundSession_def
      saveInboundSession_def cache_inbound_def split: option.splits)

lemma sends_with_share [keeps_intros]: "keeps (sends_with s) (share_envelopes P me to pk conv key)"
  by (auto intro!: keeps_intros simp: share_envelopes_def seal_session_key_def key_share_envelope_def
      importSharingPublicKey_def eciesEncrypt_def)

lemma persist_sends [keeps_intros]:
  "keeps (sends_with s) (persistOutbound P x)" "keeps (sends_with s) (add_self P self x)"
  by (auto intro!: keeps_intros simp: persistOutbound_def saveOutboundSession_def add_self_def split: option.splits)

lemma install_sends:
  assumes "install_outbound P self onCreated w = (Inr s, w')" and "\<And>a b s. keeps (sends_with s) (onCreated a b)"
  shows "sends_with s w'"
proof -
  obtain w0 w1 w2 w3 where
      m: "mod_mgr (\<lambda>m. m\<lparr>mg_outbound := Some s\<rparr>) w0 = (Inr (), w1)" and p: "persistOutbound P s w1 = (Inr (), w2)"
    and a: "add_self P self s w2 = (Inr (), w3)" and c: "onCreated (mo_session_id P s) (mo_session_key P s) w3 = (Inr (), w')"
    using assms(1) by (auto simp: install_outbound_def await_Inr ret_app)
  have "sends_with s w1" using m by (auto simp: io_simps sends_with_def on_mgr_def)
  then show ?thesis
    using keeps_result [OF persist_sends(1) p] keeps_result [OF persist_sends(2) a] keeps_result [OF assms(2) c] by simp
qed

lemma rotate_sends:
  assumes "rotate P self onCreated w = (Inr s, w')" and "\<And>a b s. keeps (sends_with s) (onCreated a b)"
  shows "sends_with s w'"
proof -
  obtain w0 w1 w1' w2 w3 where
      m: "mod_mgr (\<lambda>m. m\<lparr>mg_outbound := Some s\<rparr>) w0 = (Inr (), w1)" and d: "clearOutboundSession P w1 = (Inr (), w1')"
    and p: "persistOutbound P s w1' = (Inr (), w2)"
    and a: "add_self P self s w2 = (Inr (), w3)" and c: "onCreated (mo_session_id P s) (mo_session_key P s) w3 = (Inr (), w')"
    using assms(1) by (auto simp: rotate_def await_Inr ret_app)
  have "sends_with s w1" using m by (auto simp: io_simps sends_with_def on_mgr_def)
  moreover have k: "keeps (sends_with s) (clearOutboundSession P)" by (simp add: clearOutboundSession_def keeps_intros)
  ultimately show ?thesis
    using keeps_result [OF k d] keeps_result [OF persist_sends(1) p] keeps_result [OF persist_sends(2) a]
      keeps_result [OF assms(2) c] by blast
qed

lemma current_outbound_sends:
  assumes "current_outbound P self onCreated w = (Inr (s, isNew), w')" and c: "\<And>a b s. keeps (sends_with s) (onCreated a b)"
  shows "sends_with s w'"
proof -
  obtain s0 n0 w0 where g: "getOutbound P self onCreated w = (Inr (s0, n0), w0)"
    and r: "(if needsRotation P s0 then await (rotate P self onCreated) (\<lambda>session'. ret (session', True)) else ret (s0, n0)) w0 = (Inr (s, isNew), w')"
    using assms(1) by (auto simp: current_outbound_def await_Inr)
  have "sends_with s0 w0"
  proof (cases "mg_outbound (w_mgr w)")
    case None
    then obtain w1 where "install_outbound P self onCreated w1 = (Inr s0, w0)"
      using g by (auto simp: getOutbound_def await_Inr mgr_app ret_app)
    then show ?thesis using install_sends c by blast
  qed (use g in \<open>auto simp: getOutbound_def io_simps sends_with_def on_mgr_def\<close>)
  then show ?thesis
    using r rotate_sends [OF _ c] by (cases "needsRotation P s0") (auto simp: await_Inr ret_app)
qed

lemma share_opens:
  assumes "share_envelopes P me to pk conv key w = (Inr shares, w')" and "aes_law P" and "ecdh_law P"
    and "pk = pl_p256_public P (ck_raw sk)"
  obtains e k ec rest where "shares = e # rest" "map ev_to_user rest = (if to = sd_userId me then [] else [sd_userId me])"
    "ev_to_user e = to" "ev_from_user e = sd_userId me" "ev_from_device e = sd_deviceId me"
    "ev_content e = KeyShareContent k" "decode_share k = Some ec" "\<And>v. eciesDecrypt P sk ec v = (Inr key, v)"
proof -
  obtain kid enc e1 w1 w2 w3 where
      s: "seal_session_key P pk key w1 = (Inr enc, w2)"
    and k: "key_share_envelope P me to kid conv enc w2 = (Inr e1, w3)" and h: "\<exists>rest. shares = e1 # rest"
    using assms(1)
    by (cases "to = sd_userId me") (auto simp: share_envelopes_def await_Inr ret_app platform_io_app)
  have d: "eciesDecrypt P sk enc v = (Inr key, v)" for v
    using s assms(4) by (auto simp: seal_session_key_def importSharingPublicKey_def await_Inr ret_app throw_app
        intro!: ecies_roundtrip [OF assms(2,3)] split: if_splits)
  obtain rest where rest: "shares = e1 # rest" using h by blast
  have "map ev_to_user rest = (if to = sd_userId me then [] else [sd_userId me])"
    using share_envelopes_shape [OF assms(1)] rest by (auto split: if_splits)
  moreover have "decode_share (case ev_content e1 of KeyShareContent k \<Rightarrow> k) = Some enc"
    using k by (auto simp: key_share_envelope_def decode_share_def base64UrlDecode_Encode await_Inr ret_app platform_io_app)
  ultimately show thesis
    using k rest d by (intro that [of e1 rest]) (auto simp: key_share_envelope_def decode_share_def base64UrlDecode_Encode await_Inr ret_app platform_io_app)
qed

text \<open>C21: a send ships one ciphertext, and its key to whoever lacks it. A prepared send starts with the
  key shares exactly when the session is new or the database has no record that its key went to this
  recipient; each share carries the key of that session, sealed for its addressee: the recipient and,
  unless it is a note to self, the sender's own devices. Then comes the message, to the same
  addressees: with one message id, conversation, session and ciphertext, which that session made from
  the payload; and by then the advanced ratchet is in the database, so no later send can reuse its
  message key.\<close>

theorem prepare_send_ships:
  assumes "prepare_send P self onCreated me to pk payload w = (Inr (envs, needsShare, sid), w')"
    and "idb_ok (w_db w)" and "\<And>a b. keeps (on_db idb_ok) (onCreated a b)" and "\<And>a b s. keeps (sends_with s) (onCreated a b)"
  shows "\<exists>session isNew w1 shares msgs mid session' ct. envs = shares @ msgs
    \<and> current_outbound P self onCreated w = (Inr (session, isNew), w1)
    \<and> needsShare = (isNew \<or> st_get (mo_session_id P session, to) (db_key_shares (w_db w1)) = None)
    \<and> map ev_to_user shares = (if \<not> needsShare then [] else if to = sd_userId me then [to] else [to, sd_userId me])
    \<and> (\<forall>e \<in> set shares. is_share me (conversationId (sd_userId me) to) e
         \<and> seals_key P (if ev_to_user e = to then pk else sd_publicKey me) (mo_session_key P session) e)
    \<and> map ev_to_user msgs = (if to = sd_userId me then [to] else [to, sd_userId me])
    \<and> (\<forall>e \<in> set msgs. ev_msg_id e = mid \<and> ev_from_user e = sd_userId me \<and> ev_content e = MessageContent
         \<lparr>mp_conversation_id = Some (conversationId (sd_userId me) to), mp_session_id = sid, mp_ciphertext = ct\<rparr>)
    \<and> mo_encrypt P session (stringify (payload_json payload)) = (ct, session') \<and> sid = mo_session_id P session'
    \<and> st_get ''current'' (db_outbound (w_db w')) =
        Some \<lparr>so_pickleJson = mo_pickle P session', so_sessionId = sid, so_messageIndex = mo_message_index P session'\<rparr>"
proof -
  let ?conv = "conversationId (sd_userId me) to"
  let ?asks = "\<lambda>s isNew. if isNew then ret True else await (hasSharedWith P (mo_session_id P s) to) (\<lambda>shared. ret (\<not> shared))"
  let ?share = "\<lambda>s need. if need then share_envelopes P me to pk ?conv (mo_session_key P s) else ret []"
  obtain s isNew shares ct s' msgs w1 w2 w3 w4 w5 where
      c: "current_outbound P self onCreated w = (Inr (s, isNew), w1)"
    and n: "?asks s isNew w1 = (Inr needsShare, w2)" and sh: "?share s needsShare w2 = (Inr shares, w3)"
    and e: "encryptOutbound P (stringify (payload_json payload)) w3 = (Inr (ct, s'), w4)"
    and m: "message_envelopes P me to ?conv (mo_session_id P s') ct w4 = (Inr msgs, w5)"
    and p: "persistOutbound P s' w5 = (Inr (), w')"
    and r: "envs = shares @ msgs" "sid = mo_session_id P s'"
    using assms(1) by (auto simp: prepare_send_def Let_def await_Inr ret_app)
  have kc: "keeps (on_db idb_ok) (current_outbound P self onCreated)"
    by (auto intro!: keeps_intros assms(3) simp: current_outbound_def)
  have ks: "keeps (on_db idb_ok) (?share s needsShare)"
    by (auto intro!: keeps_intros simp: share_envelopes_def seal_session_key_def key_share_envelope_def)
  have kn: "keeps (on_db idb_ok) (?asks s isNew)" "keeps (sends_with s) (?asks s isNew)"
    by (auto intro!: keeps_intros simp: hasSharedWith_def hasKeyShare_def)
  have "on_db idb_ok w4"
    using keeps_result [OF inbound_keep(7) e keeps_result [OF ks sh keeps_result [OF kn(1) n keeps_result [OF kc c]]]] assms(2)
    by (simp add: on_db_def)
  then have ok: "st_ok (db_outbound (w_db w4))" by (simp add: on_db_def idb_ok_def)
  have "sends_with s w2"
    using keeps_result [OF kn(2) n current_outbound_sends [OF c assms(4)]] .
  moreover have "keeps (sends_with s) (?share s needsShare)" by (intro keeps_intros)
  ultimately have "sends_with s w3" using sh keeps_result [where w = w2] by blast
  then have enc: "mo_encrypt P s (stringify (payload_json payload)) = (ct, s')"
    using e by (auto simp: encryptOutbound_def io_simps Let_def sends_with_def on_mgr_def split: prod.splits)
  obtain mid where mid: "map ev_to_user msgs = (if to = sd_userId me then [to] else [to, sd_userId me])"
      "\<forall>e \<in> set msgs. ev_msg_id e = mid \<and> ev_from_user e = sd_userId me \<and> ev_from_device e = sd_deviceId me
        \<and> ev_content e = MessageContent \<lparr>mp_conversation_id = Some ?conv, mp_session_id = mo_session_id P s', mp_ciphertext = ct\<rparr>"
      "w_db w5 = w_db w4"
    using message_envelopes_shape [OF m] by metis
  have st: "st_get ''current'' (db_outbound (w_db w')) =
      Some \<lparr>so_pickleJson = mo_pickle P s', so_sessionId = sid, so_messageIndex = mo_message_index P s'\<rparr>"
    using p ok mid(3) r(2)
    by (auto simp: persistOutbound_def saveOutboundSession_def io_simps st_get_put split: if_splits)
  have need: "needsShare = (isNew \<or> st_get (mo_session_id P s, to) (db_key_shares (w_db w1)) = None)"
    using n by (auto simp: hasSharedWith_def hasKeyShare_def io_simps split: if_splits)
  have "map ev_to_user shares = (if \<not> needsShare then [] else if to = sd_userId me then [to] else [to, sd_userId me])"
    using sh share_envelopes_shape [of P me to pk ?conv "mo_session_key P s" w2 shares w3] by (cases needsShare) (simp_all add: ret_app)
  moreover have "\<forall>e \<in> set shares. is_share me ?conv e
      \<and> seals_key P (if ev_to_user e = to then pk else sd_publicKey me) (mo_session_key P s) e"
    using sh share_envelopes_shape [of P me to pk ?conv "mo_session_key P s" w2 shares w3]
      share_envelopes_seal [of P me to pk ?conv "mo_session_key P s" w2 shares w3]
    by (cases needsShare) (simp_all add: ret_app)
  ultimately show ?thesis
    using r mid enc st c need by blast
qed

definition holds :: "string \<Rightarrow> string \<Rightarrow> 'n world \<Rightarrow> bool" where
  "holds sid i = on_mgr (\<lambda>m. map_of (mg_inbound m) sid = Some i)"

lemma holds_local: "holds sid i = on_local (\<lambda>_ _ m. map_of (mg_inbound m) sid = Some i)"
  by (simp add: holds_def on_mgr_local)

lemmas holds_api [keeps_intros] =
  api_keep_local [where Q = "\<lambda>_ _ m. map_of (mg_inbound m) sid = Some i", folded holds_local]
  crypto_keep [where Q = "\<lambda>_ _ m. map_of (mg_inbound m) sid = Some i", folded holds_local] for sid i

lemma holds_backup [keeps_intros]: "keeps (holds sid i) (backup_new_key P ctx s k)"
proof -
  have "keeps (holds sid i) (platform_io f)" "keeps (holds sid i) (db_write P h)" for f h
    by (simp_all add: holds_def keeps_intros)
  then show ?thesis
    by (auto intro!: keeps_intros simp: backup_new_key_def backupSessionKey_def backup_blob_def upload_object_def
        enqueuePendingKeyBackup_def Let_def split: option.splits prod.splits)
qed

lemma apply_share_holds:
  assumes "decode_share k = Some ec" and "\<And>v. eciesDecrypt P (sx_sharingKey ctx) ec v = (Inr key, v)"
    and "mi_from_session_key P key = Some i" and "mi_session_id P i = sid"
    and "\<And>n. fst (pl_idb P n)" and "\<not> knows_inbound sid w"
  obtains w' where "apply_share P ctx e k w = (Inr (), w')" and "holds sid i w'"
proof -
  have un: "map_of (mg_inbound (w_mgr w)) sid = None" "st_get sid (db_inbound (w_db w)) = None"
    using assms(6) by (auto simp: knows_inbound_def map_has_def)
  obtain w1 where a: "addInbound P (ev_from_user e) (ev_from_device e) key w = (Inr (sid, True), w1)"
    and h: "holds sid i w1"
    using un assms(3-5)
    by (simp add: addInbound_def cache_inbound_def loadInboundSession_def saveInboundSession_def io_simps Let_def
        map_has_def holds_def on_mgr_def)
  obtain r w2 where b: "backup_new_key P ctx sid key w1 = (r, w2)" by fastforce
  have "holds sid i w2" using keeps_result [OF holds_backup b h] .
  then show thesis
    using a b assms(1,2) by (intro that) (auto simp: apply_share_def io_simps split: sum.splits)
qed

lemma open_known_message:
  assumes "holds sid i w" and "mp_session_id p = sid" and "fst (mi_decrypt P i (mp_ciphertext p)) = Some plain"
  obtains w' where "open_message P ctx st e p w = (Inr (st\<lparr>ps_advanced := set_add sid (ps_advanced st),
     ps_messages := ps_messages st @ [decrypted P ctx e p plain], ps_seen := set_add (ev_msg_id e) (ps_seen st)\<rparr>), w')"
  using assms
  by (cases "mi_decrypt P i (mp_ciphertext p)")
    (auto simp: open_message_def getInbound_def decryptInbound_def io_simps holds_def on_mgr_def Let_def)

text \<open>The envelopes of a send that the server puts in one user's inbox.\<close>

definition addressed_to :: "string \<Rightarrow> envelope list \<Rightarrow> json list" where
  "addressed_to u envs = map envelope_json (filter (\<lambda>e. ev_to_user e = u) envs)"

lemma envelope_json_not_null [simp]: "envelope_json e \<noteq> JNull"
  by (simp add: envelope_json_def)

lemma process_share_and_message:
  assumes e: "ev_content e = KeyShareContent k" and m: "ev_content m = MessageContent p"
    and "sx_hasManager ctx" and sh: "apply_share P ctx e k v = (Inr (), v1)" and "holds sid i v1"
    and "mp_session_id p = sid" "fst (mi_decrypt P i (mp_ciphertext p)) = Some plain"
  shows "\<exists>st v'. processEnvelopes P ctx [envelope_json e, envelope_json m] [] v = (Inr st, v')
    \<and> ps_messages st = [decrypted P ctx m p plain] \<and> ps_skips st = 0"
proof -
  obtain v2 where "open_message P ctx \<lparr>ps_messages = [], ps_advanced = [], ps_skips = 0, ps_seen = []\<rparr> m p v1 =
      (Inr \<lparr>ps_messages = [decrypted P ctx m p plain], ps_advanced = set_add sid [], ps_skips = 0,
            ps_seen = set_add (ev_msg_id m) []\<rparr>, v2)"
    using open_known_message [OF assms(5-7), of ctx "\<lparr>ps_messages = [], ps_advanced = [], ps_skips = 0, ps_seen = []\<rparr>" m]
    by auto
  then show ?thesis
    using assms(3) by (simp add: processEnvelopes_def share_step_def message_step_def envelope_roundtrip e m
        await_app ret_app sh)
qed

text \<open>C1: what one user sends the other reads. Let the primitives satisfy their laws, and let a send to
  \<open>to\<close> carry the session key. When a device of \<open>to\<close> that does not know the session processes what the
  send put in its inbox, it obtains exactly one message, with no envelope skipped: from the sender, in
  the conversation of the two, and its text parses to the payload that was sent.\<close>

theorem sent_message_is_received:
  assumes "aes_law P" and "ecdh_law P" and "megolm_law P"
    and sent: "prepare_send P self onCreated me to pk payload w = (Inr (envs, True, sid), w')"
    and cb: "\<And>a b s. keeps (sends_with s) (onCreated a b)"
    and "pk = pl_p256_public P (ck_raw (sx_sharingKey ctx))" and "sx_hasManager ctx"
    and "\<And>n. fst (pl_idb P n)" and "\<not> knows_inbound sid v" and "payload_ok payload"
  shows "\<exists>st m v'. processEnvelopes P ctx (addressed_to to envs) [] v = (Inr st, v')
    \<and> ps_messages st = [m] \<and> ps_skips st = 0 \<and> im_fromUser m = sd_userId me
    \<and> im_conversationId m = conversationId (sd_userId me) to \<and> parseInner (im_text m) = parsed_of payload"
proof -
  let ?conv = "conversationId (sd_userId me) to" and ?plain = "stringify (payload_json payload)"
  obtain s0 isNew shares ct s' msgs w1 w2 w3 w4 w5 where
      c: "current_outbound P self onCreated w = (Inr (s0, isNew), w1)"
    and n: "(if isNew then ret True else await (hasSharedWith P (mo_session_id P s0) to) (\<lambda>shared. ret (\<not> shared))) w1 = (Inr True, w2)"
    and sh: "share_envelopes P me to pk ?conv (mo_session_key P s0) w2 = (Inr shares, w3)"
    and e: "encryptOutbound P ?plain w3 = (Inr (ct, s'), w4)"
    and m: "message_envelopes P me to ?conv (mo_session_id P s') ct w4 = (Inr msgs, w5)"
    and r: "envs = shares @ msgs" "sid = mo_session_id P s'"
    using sent by (auto simp: prepare_send_def Let_def await_Inr ret_app)
  have kn: "keeps (sends_with s0) (if isNew then ret True else await (hasSharedWith P (mo_session_id P s0) to) (\<lambda>shared. ret (\<not> shared)))"
    by (auto intro!: keeps_intros simp: hasSharedWith_def hasKeyShare_def)
  have "sends_with s0 w3"
    using keeps_result [OF sends_with_share sh] keeps_result [OF kn n] current_outbound_sends [OF c cb] by blast
  then have enc: "mo_encrypt P s0 ?plain = (ct, s')"
    using e by (auto simp: encryptOutbound_def io_simps Let_def sends_with_def on_mgr_def split: prod.splits)
  obtain i where i: "mi_from_session_key P (mo_session_key P s0) = Some i" "mi_session_id P i = sid" "fst (mi_decrypt P i ct) = Some ?plain"
    using assms(3) enc r(2) unfolding megolm_law_def by blast
  obtain e1 k ec rest where e1: "shares = e1 # rest" "map ev_to_user rest = (if to = sd_userId me then [] else [sd_userId me])"
      "ev_to_user e1 = to" "ev_content e1 = KeyShareContent k"
      "decode_share k = Some ec" "\<And>v. eciesDecrypt P (sx_sharingKey ctx) ec v = (Inr (mo_session_key P s0), v)"
    using share_opens [OF sh assms(1,2,6)] by metis
  obtain mid where mid: "map ev_to_user msgs = (if to = sd_userId me then [to] else [to, sd_userId me])"
      "\<forall>e \<in> set msgs. ev_msg_id e = mid \<and> ev_from_user e = sd_userId me \<and> ev_from_device e = sd_deviceId me
        \<and> ev_content e = MessageContent \<lparr>mp_conversation_id = Some ?conv, mp_session_id = sid, mp_ciphertext = ct\<rparr>"
    using message_envelopes_shape [OF m] r(2) by metis
  obtain m1 mrest where m1: "msgs = m1 # mrest" "map ev_to_user mrest = (if to = sd_userId me then [] else [sd_userId me])"
      "ev_to_user m1 = to" "ev_from_user m1 = sd_userId me"
      "ev_content m1 = MessageContent \<lparr>mp_conversation_id = Some ?conv, mp_session_id = sid, mp_ciphertext = ct\<rparr>"
    using mid by (auto simp: map_eq_Cons_conv split: if_splits)
  have "filter (\<lambda>e. ev_to_user e = to) rest = []" "filter (\<lambda>e. ev_to_user e = to) mrest = []"
    using e1(2) m1(2) by (auto simp: filter_empty_conv split: if_splits)
  then have to: "addressed_to to envs = [envelope_json e1, envelope_json m1]"
    by (simp add: addressed_to_def r(1) e1(1,3) m1(1,3))
  obtain v1 where "apply_share P ctx e1 k v = (Inr (), v1)" "holds sid i v1"
    using apply_share_holds [OF e1(5,6) i(1,2) assms(8,9)] by metis
  from process_share_and_message [OF e1(4) m1(5) assms(7) this] i(3)
  obtain st v' where "processEnvelopes P ctx [envelope_json e1, envelope_json m1] [] v = (Inr st, v')" "ps_skips st = 0"
      "ps_messages st = [decrypted P ctx m1 \<lparr>mp_conversation_id = Some ?conv, mp_session_id = sid, mp_ciphertext = ct\<rparr> ?plain]"
    by auto
  then show ?thesis
    using parseInner_payload [OF assms(10)] by (simp add: to decrypted_def m1(4) del: stringify.simps)
qed

section \<open>Concrete runs\<close>

definition demo_sender :: sender where
  "demo_sender = \<lparr>sd_token = ''t'', sd_userId = ''U1'', sd_deviceId = ''D1'', sd_publicKey = ''k1''\<rparr>"

definition no_callback :: "'n created_callback" where
  "no_callback = (\<lambda>_ _. ret ())"

lemma no_callback_keeps [keeps_intros]: "keeps Q (no_callback a b)"
  by (simp add: no_callback_def keeps_intros)

lemma demo_prepared:
  "\<exists>envs w'. prepare_send quiet_platform None no_callback demo_sender ''U2'' ''k2'' (TextPayload ''hi'') quiet_world
     = (Inr (envs, True, ''sid''), w')"
  by (simp add: prepare_send_def current_outbound_def getOutbound_def install_outbound_def loadOutboundSession_def
      persistOutbound_def saveOutboundSession_def add_self_def no_callback_def needsRotation_def
      ROTATION_THRESHOLD_def share_envelopes_def seal_session_key_def importSharingPublicKey_def eciesEncrypt_def
      key_share_envelope_def encryptOutbound_def message_envelopes_def message_envelope_def Let_def io_simps
      demo_sender_def quiet_platform_def quiet_world_def empty_mgr_def empty_idb_def del: stringify.simps)

theorem prepare_send_ships_witness:
  "\<exists>envs w'. prepare_send quiet_platform None no_callback demo_sender ''U2'' ''k2'' (TextPayload ''hi'') quiet_world
     = (Inr (envs, True, ''sid''), w') \<and> map ev_to_user envs = [''U2'', ''U1'', ''U2'', ''U1'']"
proof -
  obtain envs w' where s: "prepare_send quiet_platform None no_callback demo_sender ''U2'' ''k2'' (TextPayload ''hi'') quiet_world
     = (Inr (envs, True, ''sid''), w')"
    using demo_prepared by blast
  from prepare_send_ships [OF s] have "map ev_to_user envs = [''U2'', ''U1'', ''U2'', ''U1'']"
    by (auto simp: demo_sender_def keeps_intros)
  then show ?thesis by (intro exI [of _ envs] exI [of _ w'] conjI s)
qed

lemma quiet_megolm_law: "megolm_law quiet_platform"
  by (simp add: megolm_law_def quiet_platform_def)

definition demo_ctx :: sync_ctx where
  "demo_ctx = \<lparr>sx_token = ''t'', sx_userId = ''U2'', sx_sharingKey = \<lparr>ck_raw = ''k2'', ck_extractable = False\<rparr>,
     sx_hasManager = True, sx_backup = None\<rparr>"

theorem sent_message_is_received_witness:
  "\<exists>envs st m v'. processEnvelopes (quiet_platform :: unit platform) demo_ctx (addressed_to ''U2'' envs) [] quiet_world = (Inr st, v')
     \<and> ps_messages st = [m] \<and> im_fromUser m = ''U1'' \<and> parseInner (im_text m) = PText ''hi''"
proof -
  obtain envs w' where s: "prepare_send quiet_platform None no_callback demo_sender ''U2'' ''k2'' (TextPayload ''hi'') quiet_world
     = (Inr (envs, True, ''sid''), w')"
    using demo_prepared by blast
  have "payload_ok (TextPayload ''hi'')" by simp
  moreover have "\<not> knows_inbound ''sid'' quiet_world"
    by (simp add: knows_inbound_def map_has_def quiet_world_def empty_mgr_def empty_idb_def)
  ultimately have "\<exists>st m v'. processEnvelopes quiet_platform demo_ctx (addressed_to ''U2'' envs) [] quiet_world = (Inr st, v')
    \<and> ps_messages st = [m] \<and> ps_skips st = 0 \<and> im_fromUser m = sd_userId demo_sender
    \<and> im_conversationId m = conversationId (sd_userId demo_sender) ''U2'' \<and> parseInner (im_text m) = parsed_of (TextPayload ''hi'')"
    by (intro sent_message_is_received [OF quiet_laws quiet_megolm_law s])
      (auto simp: demo_ctx_def quiet_platform_def keeps_intros)
  then show ?thesis by (auto simp: demo_sender_def)
qed

text \<open>A server that answers every listing with one key and every download with one message.\<close>

definition demo_message_envelope :: envelope where
  "demo_message_envelope = \<lparr>ev_to_user = ''U2'', ev_from_user = ''U1'', ev_from_device = ''D1'', ev_msg_id = ''m1'',
     ev_sent_at = None, ev_content = MessageContent \<lparr>mp_conversation_id = None, mp_session_id = ''sid'', mp_ciphertext = ''c''\<rparr>\<rparr>"

definition demo_sync_platform :: "unit platform" where
  "demo_sync_platform = quiet_platform\<lparr>
     pl_fetch := (\<lambda>_ n. (Some \<lparr>rs_status = 200, rs_status_text = [], rs_json_type = True,
       rs_json = Some (JObj [(''keys'', JArr [JStr ''k''])]), rs_bytes = stringify (envelope_json demo_message_envelope)\<rparr>, n)),
     pl_cbor_decode := (\<lambda>_. Some (JArr [envelope_json demo_message_envelope]))\<rparr>"

definition demo_sync_world :: "unit world" where
  "demo_sync_world = quiet_world\<lparr>w_mgr := empty_mgr\<lparr>mg_inbound := [(''sid'', ''s'')]\<rparr>\<rparr>"

lemma demo_request: "request demo_sync_platform rq w = (Inr (Some (JObj [(''keys'', JArr [JStr ''k''])])), w)"
  by (simp add: request_def do_fetch_def finish_request_def res_ok_def io_simps demo_sync_platform_def)

lemma demo_list:
  "storeList demo_sync_platform t p c w = (Inr \<lparr>sp_keys = [''k''], sp_next_cursor = []\<rparr>, w)"
  "storeListAll demo_sync_platform t p w = (Inr [''k''], w)"
proof -
  show l: "storeList demo_sync_platform t p c w = (Inr \<lparr>sp_keys = [''k''], sp_next_cursor = []\<rparr>, w)" for c w
    by (simp add: storeList_def await_app demo_request read_body_def or_throw_def ret_app store_page_of_def
        str_list_def str_field_def)
  have "pl_page_limit demo_sync_platform = Suc 0" by (simp add: demo_sync_platform_def quiet_platform_def)
  then show "storeListAll demo_sync_platform t p w = (Inr [''k''], w)"
    by (simp add: storeListAll_def await_app l ret_app)
qed

lemma demo_get: "storeGet demo_sync_platform t key w = (Inr (stringify (envelope_json demo_message_envelope)), w)"
  by (simp add: storeGet_def do_fetch_def res_ok_def io_simps demo_sync_platform_def del: stringify.simps)

lemma demo_compact: "storeCompact demo_sync_platform t p u w = (Inr (), w)"
  by (simp add: storeCompact_def await_app demo_request read_unit_def ret_app)

lemma demo_parse: "json_parse (stringify (envelope_json demo_message_envelope)) = Some (envelope_json demo_message_envelope)"
  by (rule json_roundtrip) (simp add: envelope_json_def demo_message_envelope_def opt_member_def)

definition demo_incoming :: incoming where
  "demo_incoming = \<lparr>im_id = ''m1'', im_conversationId = conversationId ''U1'' ''U2'', im_fromUser = ''U1'',
     im_fromDevice = ''D1'', im_text = ''c'', im_timestamp = 0\<rparr>"

lemma demo_processed:
  assumes "sx_userId ctx = ''U2''" and "sx_hasManager ctx"
  shows "processEnvelopes demo_sync_platform ctx [envelope_json demo_message_envelope] seen demo_sync_world =
     (Inr (if ''m1'' \<in> set seen then \<lparr>ps_messages = [], ps_advanced = [], ps_skips = 0, ps_seen = seen\<rparr>
           else \<lparr>ps_messages = [demo_incoming], ps_advanced = [''sid''], ps_skips = 0, ps_seen = set_add ''m1'' seen\<rparr>),
      demo_sync_world)"
  using assms
  by (simp add: processEnvelopes_def share_step_def message_step_def envelope_roundtrip open_message_def getInbound_def
      decryptInbound_def io_simps Let_def demo_message_envelope_def demo_sync_world_def empty_mgr_def
      demo_sync_platform_def quiet_platform_def decrypted_def demo_incoming_def set_add_def)

lemma demo_archive:
  assumes "sx_userId ctx = ''U2''" and "sx_hasManager ctx"
  shows "syncArchive demo_sync_platform ctx seen demo_sync_world =
     (Inr (if ''m1'' \<in> set seen then \<lparr>ar_messages = [], ar_advanced = [], ar_candidates = [''k''], ar_seen = seen\<rparr>
           else \<lparr>ar_messages = [demo_incoming], ar_advanced = [''sid''], ar_candidates = [''k''], ar_seen = set_add ''m1'' seen\<rparr>),
      demo_sync_world)"
proof -
  have i: "loadIngestedArchiveKeys demo_sync_platform demo_sync_world = (Inr [], demo_sync_world)"
    by (simp add: loadIngestedArchiveKeys_def io_simps demo_sync_platform_def quiet_platform_def demo_sync_world_def
        quiet_world_def empty_idb_def st_keys_def)
  have c: "pl_cbor_decode demo_sync_platform b = Some (JArr [envelope_json demo_message_envelope])" for b
    by (simp add: demo_sync_platform_def)
  show ?thesis
    by (simp add: syncArchive_def Let_def await_app i demo_list catch_err_app ret_app archive_step_def demo_get c
        demo_processed [OF assms] set_add_def)
qed

lemma demo_fetched:
  assumes "sx_userId ctx = ''U2''" and "sx_hasManager ctx" and "sx_token ctx \<noteq> []"
  shows "\<exists>w'. fetchMessages demo_sync_platform ctx demo_sync_world =
    (Inr \<lparr>sr_messages = [demo_incoming], sr_candidates = [''k'']\<rparr>, w')"
proof -
  have c: "loadSyncCursor demo_sync_platform p demo_sync_world = (Inr None, demo_sync_world)" for p
    by (simp add: loadSyncCursor_def io_simps demo_sync_platform_def quiet_platform_def demo_sync_world_def
        quiet_world_def empty_idb_def)
  have l: "syncLive demo_sync_platform ctx demo_sync_world =
      (Inr \<lparr>lr_messages = [demo_incoming], lr_advanced = [''sid''], lr_lastKey = Some ''k'', lr_prefix = path_inboxLive ''U2''\<rparr>, demo_sync_world)"
    by (simp add: syncLive_def Let_def await_app c catch_err_app demo_list fetch_envelope_def demo_get demo_parse
        or_throw_def ret_app demo_processed [OF assms(1,2)] assms)
  have i: "loadMessageIds demo_sync_platform u demo_sync_world = (Inr [], demo_sync_world)" for u
    by (simp add: loadMessageIds_def io_simps demo_sync_platform_def quiet_platform_def demo_sync_world_def
        quiet_world_def empty_idb_def st_all_def)
  have p: "\<exists>w. persistInbounds demo_sync_platform [''sid''] demo_sync_world = (Inr (), w)"
    by (simp add: persistInbounds_def persistInbound_def io_simps demo_sync_world_def empty_mgr_def)
  have f: "\<exists>w'. finish_live demo_sync_platform ctx \<lparr>lr_messages = ms, lr_advanced = a, lr_lastKey = Some k, lr_prefix = pre\<rparr> w = (Inr (), w')"
    for ms a k pre w
    by (simp add: finish_live_def saveSyncCursor_def triggerCompaction_def io_simps demo_compact)
      (simp add: demo_sync_platform_def quiet_platform_def)
  obtain w1 where w1: "persistInbounds demo_sync_platform [''sid''] demo_sync_world = (Inr (), w1)" using p by blast
  obtain w2 where w2: "finish_live demo_sync_platform ctx \<lparr>lr_messages = [demo_incoming], lr_advanced = [''sid''],
      lr_lastKey = Some ''k'', lr_prefix = path_inboxLive ''U2''\<rparr> w1 = (Inr (), w2)" using f by blast
  have m: "im_id demo_incoming = ''m1''" by (simp add: demo_incoming_def)
  have d: "\<exists>w3. (case sx_backup ctx of
          Some (backupKey, keyVersion) \<Rightarrow>
            (if sx_token ctx = [] then ret ()
             else detached (flushPendingKeyBackups demo_sync_platform (sx_token ctx) (sx_userId ctx) backupKey keyVersion) (\<lambda>_. ret ()))
        | None \<Rightarrow> ret ()) w2 = (Inr (), w3)"
    by (simp add: ret_app detached_app split: option.split)
  then show ?thesis
    by (auto simp: fetchMessages_def await_app l i demo_archive [OF assms(1,2)] m set_add_def w1 w2 assms(2) ret_app)
qed

section \<open>What is not checked\<close>

text \<open>The conversation of a message is the sender's choice. A message envelope that names a
  conversation is filed under it whoever sent it, so a user whose session the recipient holds can put
  a message into the recipient's chat with anyone else.\<close>

lemma conversation_not_checked:
  assumes "holds (mp_session_id p) i v" and "fst (mi_decrypt P i (mp_ciphertext p)) = Some plain"
    and "ev_content m = MessageContent p" and "mp_conversation_id p = Some c" and "sx_hasManager ctx"
  shows "\<exists>st v'. processEnvelopes P ctx [envelope_json m] [] v = (Inr st, v')
    \<and> map (\<lambda>m. (im_fromUser m, im_conversationId m)) (ps_messages st) = [(ev_from_user m, c)]"
proof -
  obtain v2 where "open_message P ctx \<lparr>ps_messages = [], ps_advanced = [], ps_skips = 0, ps_seen = []\<rparr> m p v =
      (Inr \<lparr>ps_messages = [decrypted P ctx m p plain], ps_advanced = set_add (mp_session_id p) [], ps_skips = 0,
            ps_seen = set_add (ev_msg_id m) []\<rparr>, v2)"
    using open_known_message [OF assms(1) refl assms(2), of ctx "\<lparr>ps_messages = [], ps_advanced = [], ps_skips = 0, ps_seen = []\<rparr>" m]
    by auto
  then show ?thesis
    using assms(3-5) by (simp add: processEnvelopes_def share_step_def message_step_def envelope_roundtrip
        await_app ret_app decrypted_def)
qed

end
