(* ===== verification/Auth.thy ===== *)
theory Auth
  imports Crypto Idb
begin

text \<open>
  web/src/lib/auth.ts, recipient.ts and credential.ts: the session kept in localStorage and in the
  \<open>keys\<close> store, the wipe when another account signs in, who a message is addressed to, and the
  secret a password gives. \<open>argonStretch\<close> is the platform's Argon2id.
\<close>

record session =
  se_token :: string
  se_userId :: string
  se_deviceId :: string
  se_handle :: string
  se_sharingPrivateKey :: crypto_key
  se_sharingPublicKeyBytes :: bytes
  se_backupKey :: crypto_key
  se_keyVersion :: int

definition LS_PREFIX :: string where
  "LS_PREFIX = ''atmin:''"

definition ls_key :: "string \<Rightarrow> string" where
  "ls_key name = LS_PREFIX @ name"

definition wipeIfAccountChanged :: "'n platform \<Rightarrow> string \<Rightarrow> ('n world, unit) io" where
  "wipeIfAccountChanged P userId =
     await (get_ls (ls_key ''userId'')) (\<lambda>owner.
     if owner \<noteq> Some userId then deleteDatabase P else ret ())"

definition saveSession :: "'n platform \<Rightarrow> session \<Rightarrow> ('n world, unit) io" where
  "saveSession P s =
     await (wipeIfAccountChanged P (se_userId s)) (\<lambda>_.
     await (set_ls (ls_key ''token'') (se_token s)) (\<lambda>_.
     await (set_ls (ls_key ''userId'') (se_userId s)) (\<lambda>_.
     await (set_ls (ls_key ''deviceId'') (se_deviceId s)) (\<lambda>_.
     await (set_ls (ls_key ''handle'') (se_handle s)) (\<lambda>_.
     await (set_ls (ls_key ''sharingPublicKeyBytes'') (btoa (se_sharingPublicKeyBytes s))) (\<lambda>_.
     await (set_ls (ls_key ''keyVersion'') (show_int (se_keyVersion s))) (\<lambda>_.
     await (putKey P ''sharingPrivateKey'' (se_sharingPrivateKey s)) (\<lambda>_.
     putKey P ''backupKey'' (se_backupKey s)))))))))"

text \<open>\<open>Number.parseInt(s, 10)\<close>; \<open>None\<close> is NaN.\<close>

definition parse_nat :: "string \<Rightarrow> nat option" where
  "parse_nat s = (let ds = takeWhile is_digit s in if ds = [] then None else Some (nat_of_digits ds))"

definition parseInt :: "string \<Rightarrow> int option" where
  "parseInt s = (case skip_ws s of
      [] \<Rightarrow> None
    | c # r \<Rightarrow> if c = CHR ''-'' then map_option (\<lambda>n. - int n) (parse_nat r)
        else if c = CHR ''+'' then map_option int (parse_nat r)
        else map_option int (parse_nat (c # r)))"

definition stored_version :: "string option \<Rightarrow> int" where
  "stored_version kvRaw = (case Option.bind kvRaw parseInt of Some v \<Rightarrow> if v > 0 then v else 1 | None \<Rightarrow> 1)"

text \<open>A value is truthy when it is there and not empty.\<close>

definition truthy :: "string option \<Rightarrow> bool" where
  "truthy x \<longleftrightarrow> x \<noteq> None \<and> x \<noteq> Some []"

definition loadSession :: "'n platform \<Rightarrow> ('n world, session option) io" where
  "loadSession P =
     await (get_ls (ls_key ''token'')) (\<lambda>token.
     await (get_ls (ls_key ''userId'')) (\<lambda>userId.
     await (get_ls (ls_key ''deviceId'')) (\<lambda>deviceId.
     await (get_ls (ls_key ''handle'')) (\<lambda>handle.
     await (get_ls (ls_key ''sharingPublicKeyBytes'')) (\<lambda>b64.
     if \<not> truthy token \<or> \<not> truthy userId \<or> \<not> truthy deviceId \<or> \<not> truthy handle \<or> \<not> truthy b64 then ret None
     else await (getKey P ''sharingPrivateKey'') (\<lambda>sharing.
       await (getKey P ''backupKey'') (\<lambda>backup.
       case (sharing, backup) of
         (Some sk, Some bk) \<Rightarrow>
           await (or_throw InvalidCharacterError (atob (the b64))) (\<lambda>pk.
           await (get_ls (ls_key ''keyVersion'')) (\<lambda>kvRaw.
           ret (Some \<lparr>se_token = the token, se_userId = the userId, se_deviceId = the deviceId,
             se_handle = the handle, se_sharingPrivateKey = sk, se_sharingPublicKeyBytes = pk,
             se_backupKey = bk, se_keyVersion = stored_version kvRaw\<rparr>)))
       | _ \<Rightarrow> ret None)))))))"

definition clearToken :: "('n world, unit) io" where
  "clearToken =
     await (remove_ls (ls_key ''token'')) (\<lambda>_.
     await (remove_ls (ls_key ''userId'')) (\<lambda>_.
     await (remove_ls (ls_key ''deviceId'')) (\<lambda>_.
     await (remove_ls (ls_key ''handle'')) (\<lambda>_.
     await (remove_ls (ls_key ''sharingPublicKeyBytes'')) (\<lambda>_.
     remove_ls (ls_key ''keyVersion''))))))"

definition clearSession :: "'n platform \<Rightarrow> ('n world, unit) io" where
  "clearSession P = await clearToken (\<lambda>_. deleteDatabase P)"

section \<open>Recipients and credentials\<close>

definition resolveRecipient :: "'n platform \<Rightarrow> session \<Rightarrow> string option \<Rightarrow> bool \<Rightarrow> ('n world, string \<times> bytes) io" where
  "resolveRecipient P s handle isSaved =
     (if isSaved then ret (se_userId s, se_sharingPublicKeyBytes s)
      else if \<not> truthy handle then throw (JsError ''No recipient handle'')
      else await (resolve P (the handle)) (\<lambda>res.
        case res of
          NotFound \<Rightarrow> throw (JsError ''Recipient unknown'')
        | Released _ _ \<Rightarrow> throw (JsError ''Recipient deleted'')
        | Live live \<Rightarrow> await (or_throw InvalidCharacterError (base64UrlDecode (rl_sharing_public_key live))) (\<lambda>pk.
            ret (rl_user_id live, pk))))"

definition argonStretch :: "'n platform \<Rightarrow> string \<Rightarrow> bytes \<Rightarrow> kdf_params \<Rightarrow> ('n world, bytes) io" where
  "argonStretch P password salt kdf =
     or_throw (JsError ''argon2'') (pl_argon2 P password salt (kdf_m kdf) (kdf_t kdf) (kdf_p kdf))"

definition solvePow :: "'n platform \<Rightarrow> pow_challenge \<Rightarrow> ('n world, nat) io" where
  "solvePow P c =
     await (or_throw InvalidCharacterError (base64UrlDecode (pc_nonce c))) (\<lambda>nonce.
     or_throw (JsError ''pow'') (pl_pow P nonce (pc_m c) (pc_t c) (pc_p c) (pc_bits c)))"

definition deriveSecretFromPassword ::
  "'n platform \<Rightarrow> string \<Rightarrow> string option \<Rightarrow> kdf_params option \<Rightarrow> ('n world, bytes) io" where
  "deriveSecretFromPassword P password salt kdf =
     (case (salt, kdf) of
        (Some s, Some k) \<Rightarrow>
          (if s = [] then throw (JsError ''Account is missing credential parameters.'')
           else await (or_throw InvalidCharacterError (base64UrlDecode s)) (\<lambda>bytes. argonStretch P password bytes k))
      | _ \<Rightarrow> throw (JsError ''Account is missing credential parameters.''))"

lemma auth_keep [keeps_intros]:
  "keeps (on_db idb_ok) (saveSession P s)" "keeps (on_db idb_ok) (loadSession P)"
  "keeps (on_db idb_ok) clearToken" "keeps (on_db idb_ok) (clearSession P)"
  "keeps (on_db idb_ok) (resolveRecipient P s h b)" "keeps (on_db idb_ok) (deriveSecretFromPassword P p so ko)"
  "keeps (on_db idb_ok) (solvePow P ch)" "keeps (on_db idb_ok) (argonStretch P p bs kd)"
  by (auto intro!: keeps_intros simp: saveSession_def wipeIfAccountChanged_def loadSession_def clearToken_def
      clearSession_def resolveRecipient_def deriveSecretFromPassword_def solvePow_def argonStretch_def
      split: option.splits resolve_result.splits)

section \<open>Round trip\<close>

lemma parseInt_show_int:
  assumes "0 < v"
  shows "parseInt (show_int v) = Some v"
proof -
  have n: "show_nat (nat v) \<noteq> []" "\<forall>c \<in> set (show_nat (nat v)). is_digit c" "nat_of_digits (show_nat (nat v)) = nat v"
    using show_nat_props [of "nat v"] by simp_all
  then obtain c cs where c: "show_nat (nat v) = c # cs" "is_digit c" by (cases "show_nat (nat v)") auto
  have "skip_ws (c # cs) = c # cs" using c(2) is_digit_ws by (simp add: skip_ws_def)
  moreover have "takeWhile is_digit (c # cs) = c # cs" using n(2) c by (simp add: takeWhile_eq_all_conv)
  then have "parse_nat (c # cs) = Some (nat v)" using n(3) c by (simp only: parse_nat_def Let_def) simp
  moreover have "c \<noteq> CHR ''-''" "c \<noteq> CHR ''+''" using c(2) by (auto simp: is_digit_def)
  ultimately show ?thesis
    using assms c by (simp add: parseInt_def show_int_def)
qed

text \<open>A session that can be told from none: what the server issues is never empty.\<close>

definition session_ok :: "session \<Rightarrow> bool" where
  "session_ok s \<longleftrightarrow> se_token s \<noteq> [] \<and> se_userId s \<noteq> [] \<and> se_deviceId s \<noteq> [] \<and> se_handle s \<noteq> []
     \<and> se_sharingPublicKeyBytes s \<noteq> [] \<and> 0 < se_keyVersion s"

lemma btoa_empty [simp]: "btoa b = [] \<longleftrightarrow> b = []"
proof
  assume "btoa b = []"
  moreover have "btoa [] = []" by (simp add: btoa_def pad4_def)
  ultimately show "b = []" using atob_btoa [of b] atob_btoa [of "[]"] by simp
qed (simp add: btoa_def pad4_def)

lemma session_reload:
  assumes "session_ok s" and "\<And>n. fst (pl_idb P n)" and "idb_ok (w_db w)" and "saveSession P s w = (r, w1)"
  shows "\<exists>w2. r = Inr () \<and> loadSession P w1 = (Inr (Some s), w2)"
proof -
  have "st_ok (db_keys (w_db w))" using assms(3) by (simp add: idb_ok_def)
  then have keys: "st_ok (db_keys (w_db w'))" if "wipeIfAccountChanged P u w = (Inr (), w')" for u w'
    using that assms(2) by (auto simp: wipeIfAccountChanged_def deleteDatabase_def io_simps empty_idb_def split: if_splits)
  obtain w' where w': "wipeIfAccountChanged P (se_userId s) w = (Inr (), w')"
    using assms(2) by (cases "map_of (w_ls w) (ls_key ''userId'') = Some (se_userId s)")
      (simp_all add: wipeIfAccountChanged_def deleteDatabase_def io_simps)
  have "st_ok (db_keys (w_db w'))" using keys [OF w'] .
  then show ?thesis
    using assms(1,2,4)
    by (auto simp: saveSession_def w' io_simps putKey_def loadSession_def getKey_def truthy_def session_ok_def
        ls_key_def LS_PREFIX_def st_get_put st_ok_put atob_btoa stored_version_def parseInt_show_int)
qed

text \<open>A session survives a reload. On a device whose transactions commit, loading after
  \<open>saveSession\<close> gives exactly the session that was saved, its key version included.\<close>

lemma session_roundtrip:
  assumes "session_ok s" and "\<And>n. fst (pl_idb P n)" and "idb_ok (w_db w)" and "saveSession P s w = (r, w1)"
  shows "\<exists>w2. r = Inr () \<and> loadSession P w1 = (Inr (Some s), w2)"
  using session_reload [OF assms] .

definition demo_session :: session where
  "demo_session = \<lparr>se_token = ''t'', se_userId = ''U1'', se_deviceId = ''D1'', se_handle = ''ann'',
     se_sharingPrivateKey = \<lparr>ck_raw = ''sk'', ck_extractable = False\<rparr>, se_sharingPublicKeyBytes = ''pk'',
     se_backupKey = \<lparr>ck_raw = ''bk'', ck_extractable = False\<rparr>, se_keyVersion = 2\<rparr>"

section \<open>One account on a device\<close>

text \<open>The rows of the database that belong to an account, beside its two keys.\<close>

definition only_keys_of :: "session \<Rightarrow> idb \<Rightarrow> bool" where
  "only_keys_of s d \<longleftrightarrow> d\<lparr>db_keys := []\<rparr> = empty_idb
     \<and> (\<forall>(n, k) \<in> set (db_keys d). k = se_sharingPrivateKey s \<or> k = se_backupKey s)"

text \<open>C26: an account never inherits another's data. When \<open>saveSession\<close> is called for an account that is
  not the recorded owner of the device, either the wipe fails and nothing at all has changed, or, even
  if a later write fails, the database holds nothing but keys of the new session.\<close>

theorem saveSession_isolates:
  assumes "map_of (w_ls w) (ls_key ''userId'') \<noteq> Some (se_userId s)" and "saveSession P s w = (r, w')"
  shows "(r = Inl IdbError \<and> w_db w' = w_db w \<and> w_ls w' = w_ls w)
    \<or> (map_of (w_ls w') (ls_key ''userId'') = Some (se_userId s) \<and> only_keys_of s (w_db w'))"
proof (cases "fst (pl_idb P (w_net w))")
  case True
  then show ?thesis
    using assms
    by (auto simp: saveSession_def wipeIfAccountChanged_def deleteDatabase_def putKey_def io_simps only_keys_of_def
        empty_idb_def ls_key_def LS_PREFIX_def split: if_splits)
next
  case False
  then show ?thesis
    using assms by (auto simp: saveSession_def wipeIfAccountChanged_def deleteDatabase_def io_simps)
qed

theorem saveSession_isolates_witness:
  "only_keys_of demo_session (w_db (snd (saveSession quiet_platform demo_session quiet_world)))"
proof -
  have o: "map_of (w_ls quiet_world) (ls_key ''userId'') \<noteq> Some (se_userId demo_session)"
    by (simp add: quiet_world_def)
  obtain r w' where r: "saveSession quiet_platform demo_session quiet_world = (r, w')"
    by (cases "saveSession quiet_platform demo_session quiet_world")
  have "r \<noteq> Inl IdbError"
    using r by (auto simp: saveSession_def wipeIfAccountChanged_def deleteDatabase_def putKey_def io_simps
        quiet_platform_def split: if_splits)
  with saveSession_isolates [OF o r] r show ?thesis by simp
qed

end
