(* ===== verification/ReadMarkers.thy ===== *)
theory ReadMarkers
  imports Auth KeyBackup Conversations
begin

text \<open>
  web/src/lib/read-markers.ts: the read watermarks of all devices, merged by a per-conversation
  maximum and kept as one encrypted blob. A marker map is an association list with distinct keys;
  members of the stored object that are not integers are left out. The debounce timer of
  \<open>scheduleReadMarkerPush\<close> is the state machine at the end.
\<close>

type_synonym markers = "(string \<times> int) list"

definition mergeMarkers :: "markers \<Rightarrow> markers \<Rightarrow> markers" where
  "mergeMarkers a b = fold (\<lambda>(cid, ts) out. if ts > opt_or (map_of out cid) 0 then AList.update cid ts out else out) b a"

definition markers_json :: "markers \<Rightarrow> json" where
  "markers_json ms = JObj [(''v'', JNum (NInt 1)), (''markers'', JObj (map (\<lambda>(c, t). (c, JNum (NInt t))) ms))]"

definition uploadReadMarkers :: "'n platform \<Rightarrow> string \<Rightarrow> string \<Rightarrow> crypto_key \<Rightarrow> int \<Rightarrow> markers \<Rightarrow> ('n world, unit) io" where
  "uploadReadMarkers P token userId backupKey keyVersion markers =
     await (backup_blob P None (stringify (markers_json markers)) backupKey keyVersion) (\<lambda>blobBytes.
     upload_object P token (path_readMarkers userId) blobBytes)"

text \<open>\<open>Object.entries\<close> of a fetched value, its integer members; \<open>null\<close> has none to give and throws.\<close>

definition int_entry :: "string \<times> json \<Rightarrow> (string \<times> int) option" where
  "int_entry e = (case e of (k, JNum (NInt t)) \<Rightarrow> Some (k, t) | _ \<Rightarrow> None)"

definition marker_entries :: "json \<Rightarrow> markers option" where
  "marker_entries j = (case j of
      JObj ms \<Rightarrow> Some (List.map_filter int_entry ms)
    | JArr xs \<Rightarrow> Some (List.map_filter int_entry (zip (map show_nat [0..<length xs]) xs))
    | JNull \<Rightarrow> None
    | _ \<Rightarrow> Some [])"

text \<open>\<open>data && typeof data.markers === 'object' ? data.markers : {}\<close>.\<close>

definition markers_value :: "json \<Rightarrow> json" where
  "markers_value data = (case field ''markers'' data of
      Some (JObj ms) \<Rightarrow> JObj ms | Some (JArr xs) \<Rightarrow> JArr xs | Some JNull \<Rightarrow> JNull | _ \<Rightarrow> JObj [])"

definition fetchReadMarkers :: "'n platform \<Rightarrow> string \<Rightarrow> string \<Rightarrow> crypto_key \<Rightarrow> int \<Rightarrow> ('n world, json) io" where
  "fetchReadMarkers P token userId backupKey currentVersion = (\<lambda>w.
     (case storeGet P token (path_readMarkers userId) w of
        (Inl _, w1) \<Rightarrow> (Inr (JObj []), w1)
      | (Inr blob, w1) \<Rightarrow>
          (case parse_blob blob of
             Inl e \<Rightarrow> (Inl e, w1)
           | Inr e \<Rightarrow>
               (if kb_v e > currentVersion then (Inr (JObj []), w1)
                else await (contacts_key P token userId backupKey currentVersion (kb_v e)) (\<lambda>decryptor.
                     await (backupDecrypt P decryptor \<lparr>ae_iv = kb_iv e, ae_ciphertext = kb_ciphertext e\<rparr>) (\<lambda>plain.
                     await (or_throw SyntaxErr (json_parse plain)) (\<lambda>data. ret (markers_value data)))) w1))))"

definition marker_step ::
  "'n platform \<Rightarrow> markers \<Rightarrow> markers \<Rightarrow> string \<times> int \<Rightarrow> bool \<times> bool \<Rightarrow> ('n world, bool \<times> bool) io" where
  "marker_step P local remote entry flags =
     (case entry of (cid, ts) \<Rightarrow>
        await (if ts > opt_or (map_of local cid) 0 then markConversationRead P cid ts else ret False) (\<lambda>advanced.
        ret (fst flags \<or> advanced, snd flags \<or> ts > opt_or (map_of remote cid) 0)))"

definition syncReadMarkers :: "'n platform \<Rightarrow> session \<Rightarrow> ('n world, bool) io" where
  "syncReadMarkers P s =
     await (fetchReadMarkers P (se_token s) (se_userId s) (se_backupKey s) (se_keyVersion s)) (\<lambda>remote_value.
     await (loadReadMarkers P) (\<lambda>local.
     await (or_throw (TypeErr ''Object.entries(null)'') (marker_entries remote_value)) (\<lambda>remote.
     let merged = mergeMarkers local remote in
     await (fold_io (marker_step P local remote) merged (False, False)) (\<lambda>(localAdvanced, aheadOfRemote).
     await (if aheadOfRemote
            then uploadReadMarkers P (se_token s) (se_userId s) (se_backupKey s) (se_keyVersion s) merged
            else ret ()) (\<lambda>_.
     ret localAdvanced)))))"

section \<open>Merging is a join\<close>

text \<open>The contract of replicated state that is merged: each replica's value is abstracted to a point of
  a semilattice, and a merge joins the points. Any two replicas that have merged the same updates, in
  whatever order and however often, then hold the same value.\<close>

locale replica_merge =
  fixes merge :: "'s \<Rightarrow> 's \<Rightarrow> 's" and ok :: "'s \<Rightarrow> bool" and view :: "'s \<Rightarrow> 'v::semilattice_sup"
  assumes view_merge: "ok a \<Longrightarrow> ok b \<Longrightarrow> view (merge a b) = sup (view a) (view b)"
    and ok_merge: "ok a \<Longrightarrow> ok b \<Longrightarrow> ok (merge a b)"
begin

lemma merge_commute: "ok a \<Longrightarrow> ok b \<Longrightarrow> view (merge a b) = view (merge b a)"
  by (simp add: view_merge sup_commute)

lemma merge_assoc: "ok a \<Longrightarrow> ok b \<Longrightarrow> ok c \<Longrightarrow> view (merge (merge a b) c) = view (merge a (merge b c))"
  by (simp add: view_merge ok_merge sup_assoc)

lemma merge_idem: "ok a \<Longrightarrow> ok b \<Longrightarrow> view (merge (merge a b) b) = view (merge a b)"
  by (simp add: view_merge ok_merge sup_assoc)

lemma merge_upper: "ok a \<Longrightarrow> ok b \<Longrightarrow> view a \<le> view (merge a b) \<and> view b \<le> view (merge a b)"
  by (simp add: view_merge)

lemma view_merge_all:
  "ok a \<Longrightarrow> (\<forall>x \<in> set xs. ok x) \<Longrightarrow> ok (fold (\<lambda>x s. merge s x) xs a)
     \<and> view (fold (\<lambda>x s. merge s x) xs a) = Sup_fin (insert (view a) (view ` set xs))"
proof (induction xs arbitrary: a)
  case (Cons x xs)
  then have "ok (merge a x)" "view (merge a x) = sup (view a) (view x)"
    by (simp_all add: ok_merge view_merge)
  moreover have "Sup_fin (insert (sup (view a) (view x)) (view ` set xs)) = Sup_fin (insert (view a) (insert (view x) (view ` set xs)))"
    by (cases "set xs = {}") (simp_all add: sup_assoc)
  ultimately show ?case using Cons.IH [of "merge a x"] Cons.prems by simp
qed simp

lemma converge:
  assumes "ok a" "\<forall>x \<in> set xs. ok x" "set xs = set ys"
  shows "view (fold (\<lambda>x s. merge s x) xs a) = view (fold (\<lambda>x s. merge s x) ys a)"
  using view_merge_all [of a xs] view_merge_all [of a ys] assms by simp

end

definition watermark :: "markers \<Rightarrow> string \<Rightarrow> int" where
  "watermark m = (\<lambda>c. opt_or (map_of m c) 0)"

definition markers_ok :: "markers \<Rightarrow> bool" where
  "markers_ok m \<longleftrightarrow> distinct (map fst m) \<and> (\<forall>(c, t) \<in> set m. 0 \<le> t)"

lemma watermark_empty [simp]: "watermark [] c = 0"
  by (simp add: watermark_def)

lemma mergeMarkers_simps:
  "mergeMarkers a [] = a"
  "mergeMarkers a ((cid, ts) # b) = mergeMarkers (if ts > watermark a cid then AList.update cid ts a else a) b"
  by (simp_all add: mergeMarkers_def watermark_def)

lemma watermark_nonneg: "markers_ok m \<Longrightarrow> 0 \<le> watermark m c"
  by (cases "map_of m c") (auto simp: watermark_def markers_ok_def dest: map_of_SomeD)

lemma markers_ok_step: "markers_ok a \<Longrightarrow> markers_ok (if ts > watermark a cid then AList.update cid ts a else a)"
proof (cases "ts > watermark a cid")
  case True
  assume a: "markers_ok a"
  have "0 \<le> ts" using watermark_nonneg [OF a, of cid] True by simp
  moreover have "set (AList.update cid ts a) \<subseteq> insert (cid, ts) (set a)"
    by (induction a) auto
  ultimately show ?thesis using a True by (auto simp: markers_ok_def distinct_update)
qed simp

lemma mergeMarkers_ok: "markers_ok a \<Longrightarrow> markers_ok (mergeMarkers a b)"
proof (induction b arbitrary: a)
  case (Cons e b)
  obtain cid ts where "e = (cid, ts)" by force
  with Cons show ?case by (simp only: mergeMarkers_simps markers_ok_step)
qed (simp add: mergeMarkers_simps)

lemma watermark_merge:
  assumes "distinct (map fst b)"
  shows "watermark (mergeMarkers a b) c = (if c \<in> fst ` set b then max (watermark a c) (watermark b c) else watermark a c)"
  using assms
proof (induction b arbitrary: a)
  case (Cons e b)
  obtain cid ts where e: "e = (cid, ts)" by force
  have s: "watermark (if ts > watermark a cid then AList.update cid ts a else a) x = (if x = cid then max (watermark a cid) ts else watermark a x)" for x
    by (simp add: watermark_def max_def)
  have "watermark (e # b) x = (if x = cid then ts else watermark b x)" for x
    by (simp add: e watermark_def)
  with Cons s show ?case by (auto simp: e mergeMarkers_simps)
qed (simp add: mergeMarkers_simps)

lemma watermark_merge_sup:
  assumes "markers_ok a" "markers_ok b"
  shows "watermark (mergeMarkers a b) = sup (watermark a) (watermark b)"
proof (rule ext)
  fix c
  have d: "distinct (map fst b)" using assms(2) by (simp add: markers_ok_def)
  have z: "c \<notin> fst ` set b \<Longrightarrow> watermark b c = 0"
    by (simp add: watermark_def map_of_eq_None_iff [THEN iffD2])
  show "watermark (mergeMarkers a b) c = sup (watermark a) (watermark b) c"
    using z watermark_nonneg [OF assms(1), of c] by (simp add: watermark_merge [OF d] sup_max)
qed

interpretation marker_merge: replica_merge mergeMarkers markers_ok watermark
  by unfold_locales (simp_all add: watermark_merge_sup mergeMarkers_ok)

text \<open>C12: read markers converge. Merging is commutative, associative and idempotent on the watermarks, a
  merge never lowers one, and devices that have merged the same marker maps, in any order and with
  any repetitions, agree on the watermark of every conversation.\<close>

theorem mergeMarkers_converges:
  assumes "markers_ok a" and "markers_ok b" and "markers_ok c" and "\<forall>x \<in> set xs. markers_ok x" and "set xs = set ys"
  shows "watermark (mergeMarkers a b) = watermark (mergeMarkers b a)
    \<and> watermark (mergeMarkers (mergeMarkers a b) c) = watermark (mergeMarkers a (mergeMarkers b c))
    \<and> watermark (mergeMarkers (mergeMarkers a b) b) = watermark (mergeMarkers a b)
    \<and> watermark a \<le> watermark (mergeMarkers a b)
    \<and> watermark (fold (\<lambda>x s. mergeMarkers s x) xs a) = watermark (fold (\<lambda>x s. mergeMarkers s x) ys a)"
  using marker_merge.merge_commute [OF assms(1,2)] marker_merge.merge_assoc [OF assms(1-3)]
    marker_merge.merge_idem [OF assms(1,2)] marker_merge.merge_upper [OF assms(1,2)]
    marker_merge.converge [OF assms(1,4,5)]
  by blast

theorem mergeMarkers_converges_witness:
  "watermark (mergeMarkers [(''c'', 3), (''d'', 9)] [(''c'', 5)]) = watermark (mergeMarkers [(''c'', 5)] [(''c'', 3), (''d'', 9)])
   \<and> watermark (mergeMarkers [(''c'', 3), (''d'', 9)] [(''c'', 5)]) ''c'' = 5"
  using mergeMarkers_converges [of "[(''c'', 3), (''d'', 9)]" "[(''c'', 5)]" "[]" "[]" "[]"]
  by (simp add: markers_ok_def) (simp add: mergeMarkers_def watermark_def)

section \<open>Reconciling a device\<close>

definition row_read :: "stored_conversation \<Rightarrow> int" where
  "row_read row = opt_or (sc_lastReadTimestamp row) 0"

definition advance :: "int \<Rightarrow> stored_conversation \<Rightarrow> stored_conversation" where
  "advance t row = (if t > row_read row then row\<lparr>sc_lastReadTimestamp := Some t\<rparr> else row)"

definition conv_row :: "'n world \<Rightarrow> string \<Rightarrow> stored_conversation option" where
  "conv_row w c = st_get c (db_conversations (w_db w))"

lemma mark_advances:
  assumes "\<And>n. fst (pl_idb P n)" and "idb_ok (w_db w)"
  obtains b w' where "markConversationRead P c t w = (Inr b, w')" and "idb_ok (w_db w')"
    and "\<And>j. conv_row w' j = (if j = c then map_option (advance t) (conv_row w j) else conv_row w j)"
proof -
  obtain r w' where m: "markConversationRead P c t w = (r, w')" by force
  have key: "sc_conversationId row = c" if "st_get c (db_conversations (w_db w)) = Some row" for row
    using that assms(2) by (auto simp: st_get_in idb_okD dest: idb_okD(4))
  have ok: "idb_ok (w_db w')" using marked_ok [OF assms(2), of P c t] by (simp add: m)
  have "st_ok (db_conversations (w_db w))" using assms(2) by (simp add: idb_ok_def)
  then have "(\<exists>b. r = Inr b) \<and> (\<forall>j. conv_row w' j = (if j = c then map_option (advance t) (conv_row w j) else conv_row w j))"
    using m key assms(1)
    by (auto simp: markConversationRead_def io_simps put_conversations_def st_put_list_def st_get_put conv_row_def
        advance_def row_read_def split: option.splits if_splits)
  then show thesis using that m ok by blast
qed

lemma advance_twice: "advance a (advance b row) = advance (max a b) row"
  by (auto simp: advance_def row_read_def)

lemma marker_loop:
  assumes "\<And>n. fst (pl_idb P n)" and "idb_ok (w_db w)" and "distinct (map fst es)"
  obtains flags' w' where "fold_io (marker_step P local remote) es flags w = (Inr flags', w')" and "idb_ok (w_db w')"
    and "\<And>j. conv_row w' j = (case map_of es j of
        Some t \<Rightarrow> if t > watermark local j then map_option (advance t) (conv_row w j) else conv_row w j
      | None \<Rightarrow> conv_row w j)"
  using assms(2,3)
proof (induction es arbitrary: flags w thesis)
  case Nil
  show ?case by (rule Nil.prems(1)) (use Nil.prems(2) in \<open>simp_all add: ret_app\<close>)
next
  case (Cons e es)
  obtain cid ts where e: "e = (cid, ts)" by force
  obtain fl w1 where s: "marker_step P local remote e flags w = (Inr fl, w1)" "idb_ok (w_db w1)"
      "\<And>j. conv_row w1 j = (if j = cid \<and> ts > watermark local cid then map_option (advance ts) (conv_row w j) else conv_row w j)"
  proof (cases "ts > watermark local cid")
    case True
    obtain b w1 where "markConversationRead P cid ts w = (Inr b, w1)" "idb_ok (w_db w1)"
        "\<And>j. conv_row w1 j = (if j = cid then map_option (advance ts) (conv_row w j) else conv_row w j)"
      using mark_advances [OF assms(1) Cons.prems(2)] by blast
    then show thesis using True
      by (intro that) (auto simp: marker_step_def e await_app ret_app watermark_def)
  next
    case False
    then show thesis using Cons.prems(2)
      by (intro that) (auto simp: marker_step_def e await_app ret_app watermark_def)
  qed
  have d: "distinct (map fst es)" using Cons.prems(3) by simp
  obtain fl' w2 where r: "fold_io (marker_step P local remote) es fl w1 = (Inr fl', w2)" "idb_ok (w_db w2)"
      "\<And>j. conv_row w2 j = (case map_of es j of
        Some t \<Rightarrow> if t > watermark local j then map_option (advance t) (conv_row w1 j) else conv_row w1 j
      | None \<Rightarrow> conv_row w1 j)"
    using Cons.IH [OF _ s(2) d, of fl] by blast
  have n: "map_of es cid = None" using Cons.prems(3) by (simp add: e map_of_eq_None_iff)
  show ?case
  proof (rule Cons.prems(1))
    show "fold_io (marker_step P local remote) (e # es) flags w = (Inr fl', w2)" by (simp add: await_app s(1) r(1))
    show "conv_row w2 j = (case map_of (e # es) j of
        Some t \<Rightarrow> if t > watermark local j then map_option (advance t) (conv_row w j) else conv_row w j
      | None \<Rightarrow> conv_row w j)" for j
      by (cases "j = cid") (auto simp: r(3) s(3) e n split: option.splits)
  qed (rule r(2))
qed

text \<open>The local markers are the watermarks of the rows.\<close>

definition local_markers :: "stored_conversation list \<Rightarrow> markers \<Rightarrow> markers" where
  "local_markers convs m = fold (\<lambda>c markers. case sc_lastReadTimestamp c of
      Some t \<Rightarrow> if t \<noteq> 0 then AList.update (sc_conversationId c) t markers else markers
    | None \<Rightarrow> markers) convs m"

lemma local_markers_watermark:
  assumes "distinct (map sc_conversationId rows)"
  shows "watermark (local_markers rows m) c =
    (case map_of (map (\<lambda>r. (sc_conversationId r, r)) rows) c of
       Some r \<Rightarrow> if row_read r \<noteq> 0 then row_read r else watermark m c | None \<Rightarrow> watermark m c)"
  using assms
proof (induction rows arbitrary: m)
  case (Cons r rows)
  have step: "local_markers (r # rows) m =
      local_markers rows (if row_read r \<noteq> 0 then AList.update (sc_conversationId r) (row_read r) m else m)"
    by (cases "sc_lastReadTimestamp r") (simp_all add: local_markers_def row_read_def)
  have n: "map_of (map (\<lambda>r. (sc_conversationId r, r)) rows) (sc_conversationId r) = None"
    using Cons.prems by (auto simp: map_of_eq_None_iff)
  show ?case
    using Cons n by (cases "c = sc_conversationId r") (simp_all add: step watermark_def split: option.splits)
qed (simp add: local_markers_def)

lemma local_markers_ok: "\<lbrakk>markers_ok m; \<forall>r \<in> set rows. 0 \<le> row_read r\<rbrakk> \<Longrightarrow> markers_ok (local_markers rows m)"
proof (induction rows arbitrary: m)
  case (Cons r rows)
  have step: "local_markers (r # rows) m =
      local_markers rows (if row_read r \<noteq> 0 then AList.update (sc_conversationId r) (row_read r) m else m)"
    by (cases "sc_lastReadTimestamp r") (simp_all add: local_markers_def row_read_def)
  have "set (AList.update k v m) \<subseteq> insert (k, v) (set m)" for k and v :: int
    by (induction m) auto
  then have "markers_ok (if row_read r \<noteq> 0 then AList.update (sc_conversationId r) (row_read r) m else m)"
    using Cons.prems by (fastforce simp: markers_ok_def distinct_update)
  with Cons show ?case by (simp add: step)
qed (simp add: local_markers_def)

lemma conversation_rows:
  assumes "idb_ok d"
  shows "distinct (map sc_conversationId (conversations_by_recency d))"
    and "map_of (map (\<lambda>r. (sc_conversationId r, r)) (conversations_by_recency d)) = (\<lambda>c. st_get c (db_conversations d))"
proof -
  let ?s = "db_conversations d" and ?rows = "conversations_by_recency d"
  have filed: "\<forall>(k, c) \<in> set ?s. sc_conversationId c = k" and ok: "st_ok ?s"
    using assms by (auto simp: idb_ok_def)
  have ids: "map (\<lambda>r. (sc_conversationId r, r)) (st_all ?s) = ?s"
    unfolding st_all_def map_map using filed by (intro map_idI) auto
  then have "map sc_conversationId (st_all ?s) = map fst ?s"
    by (metis (no_types, lifting) map_map comp_def fst_conv map_eq_conv)
  then have da: "distinct (map sc_conversationId (st_all ?s))"
    using st_ok_distinct [OF ok] by simp
  have m: "mset ?rows = mset (st_all ?s)" by (simp add: conversations_by_recency_def)
  then have "mset (map sc_conversationId ?rows) = mset (map sc_conversationId (st_all ?s))" by (simp add: mset_map)
  with da show dr: "distinct (map sc_conversationId ?rows)" using mset_eq_imp_distinct_iff by blast
  have "set ?rows = set (st_all ?s)" using m by (rule mset_eq_setD)
  then have "set (map (\<lambda>r. (sc_conversationId r, r)) ?rows) = set ?s"
    using ids by (metis set_map)
  moreover have "distinct (map fst (map (\<lambda>r. (sc_conversationId r, r)) ?rows))" using dr by (simp add: comp_def)
  ultimately show "map_of (map (\<lambda>r. (sc_conversationId r, r)) ?rows) = (\<lambda>c. st_get c ?s)"
    using map_of_inject_set [of "map (\<lambda>r. (sc_conversationId r, r)) ?rows" ?s] st_ok_distinct [OF ok]
    by (simp add: st_get_def fun_eq_iff)
qed

lemma loadReadMarkers_spec:
  assumes "\<And>n. fst (pl_idb P n)" and "idb_ok (w_db w)" and "\<And>c row. conv_row w c = Some row \<Longrightarrow> 0 \<le> row_read row"
  obtains m w' where "loadReadMarkers P w = (Inr m, w')" and "w_db w' = w_db w" and "markers_ok m"
    and "\<And>c. watermark m c = (case conv_row w c of Some row \<Rightarrow> row_read row | None \<Rightarrow> 0)"
proof -
  let ?rows = "conversations_by_recency (w_db w)"
  note rows = conversation_rows [OF assms(2)]
  have l: "loadReadMarkers P w = (Inr (local_markers ?rows []), w\<lparr>w_net := snd (pl_idb P (w_net w))\<rparr>)"
    using assms(1) by (simp add: loadReadMarkers_def loadConversations_def io_simps local_markers_def)
  have "\<forall>r \<in> set ?rows. 0 \<le> row_read r"
  proof
    fix r assume "r \<in> set ?rows"
    then have "map_of (map (\<lambda>r. (sc_conversationId r, r)) ?rows) (sc_conversationId r) = Some r"
      using rows(1) by (intro map_of_is_SomeI) (auto simp: comp_def)
    then show "0 \<le> row_read r" using assms(3) rows(2) by (simp add: conv_row_def)
  qed
  then have "markers_ok (local_markers ?rows [])" by (intro local_markers_ok) (simp_all add: markers_ok_def)
  moreover have "watermark (local_markers ?rows []) c = (case conv_row w c of Some row \<Rightarrow> row_read row | None \<Rightarrow> 0)" for c
    using local_markers_watermark [OF rows(1), of "[]" c] by (simp add: rows(2) conv_row_def split: option.splits)
  ultimately show thesis using that [OF l] by simp
qed

lemma conversations_untouched [keeps_intros]:
  fixes X :: "(string, stored_conversation) store"
  shows "keeps (on_db (\<lambda>d. db_conversations d = X)) (resolveBackupKey P u k cv tv ls)"
proof -
  have "keeps (on_db (\<lambda>d. db_conversations d = X)) (walk n P u ls k v)" for n k v
    by (induction n arbitrary: k v)
      (auto intro!: keeps_intros simp: getBackupKey_def putBackupKey_def split: option.splits)
  then show ?thesis
    by (auto intro!: keeps_intros simp: resolveBackupKey_def getBackupKey_def split: option.splits)
qed

lemma fetchReadMarkers_keeps:
  assumes "\<And>key. keeps Q (storeGet P t key)" and "\<And>x. keeps Q (contacts_key P t u k v x)"
  shows "keeps Q (fetchReadMarkers P t u k v)"
proof (rule keepsI)
  fix w assume w: "Q w"
  have g: "storeGet P t (path_readMarkers u) w = (r, w2) \<Longrightarrow> Q w2" for r w2
    using keeps_result [OF assms(1) _ w] .
  have c: "keeps Q (await (contacts_key P t u k v x) (\<lambda>decryptor. await (backupDecrypt P decryptor e) (\<lambda>plain.
      await (or_throw SyntaxErr (json_parse plain)) (\<lambda>data. ret (markers_value data)))))" for x e
    unfolding backupDecrypt_def by (intro keeps_intros assms(2))
  show "Q (snd (fetchReadMarkers P t u k v w))"
    using w by (auto simp: fetchReadMarkers_def dest: g intro: keepsD [OF c] split: prod.splits sum.splits)
qed

lemma fetch_untouched:
  assumes "fetchReadMarkers P t u k v w = (Inr j, w1)"
  shows "db_conversations (w_db w1) = db_conversations (w_db w)" and "idb_ok (w_db w) \<Longrightarrow> idb_ok (w_db w1)"
proof -
  have "keeps (on_db (\<lambda>d. db_conversations d = db_conversations (w_db w))) (fetchReadMarkers P t u k v)"
    by (intro fetchReadMarkers_keeps) (auto intro!: keeps_intros simp: contacts_key_def)
  from keeps_result [OF this assms] show "db_conversations (w_db w1) = db_conversations (w_db w)"
    by (simp add: on_db_def)
  have "keeps (on_db idb_ok) (fetchReadMarkers P t u k v)"
    by (intro fetchReadMarkers_keeps) (auto intro!: keeps_intros simp: contacts_key_def)
  from keeps_result [OF this assms] show "idb_ok (w_db w1)" if "idb_ok (w_db w)"
    using that by (simp add: on_db_def)
qed

text \<open>C22: a reconcile brings a device to the maximum of both sides. When the remote markers were fetched
  and transactions commit, every conversation row has afterwards the larger of its own and the remote
  watermark, and is otherwise unchanged, whether or not the upload succeeds; no row is added.\<close>

theorem syncReadMarkers_reconciles:
  assumes "syncReadMarkers P s w = (r, w')" and "\<And>n. fst (pl_idb P n)" and "idb_ok (w_db w)"
    and "fetchReadMarkers P (se_token s) (se_userId s) (se_backupKey s) (se_keyVersion s) w = (Inr v, w1)"
    and "marker_entries v = Some remote" and "markers_ok remote"
    and "\<And>c row. conv_row w c = Some row \<Longrightarrow> 0 \<le> row_read row"
  shows "conv_row w' c = map_option (advance (watermark remote c)) (conv_row w c)"
proof -
  have cw: "conv_row w1 c = conv_row w c" for c using fetch_untouched(1) [OF assms(4)] by (simp add: conv_row_def)
  have ok1: "idb_ok (w_db w1)" using fetch_untouched(2) [OF assms(4)] assms(3) by blast
  obtain local w2 where l: "loadReadMarkers P w1 = (Inr local, w2)" "w_db w2 = w_db w1" "markers_ok local"
      and lw: "\<And>c. watermark local c = (case conv_row w1 c of Some row \<Rightarrow> row_read row | None \<Rightarrow> 0)"
    using loadReadMarkers_spec [OF assms(2) ok1] assms(7) cw by metis
  let ?merged = "mergeMarkers local remote"
  have mok: "markers_ok ?merged" using l(3) by (rule mergeMarkers_ok)
  then have d: "distinct (map fst ?merged)" by (simp add: markers_ok_def)
  have ok2: "idb_ok (w_db w2)" using ok1 l(2) by simp
  obtain flags w3 where f: "fold_io (marker_step P local remote) ?merged (False, False) w2 = (Inr flags, w3)"
      and fr: "\<And>j. conv_row w3 j = (case map_of ?merged j of
        Some t \<Rightarrow> if t > watermark local j then map_option (advance t) (conv_row w2 j) else conv_row w2 j
      | None \<Rightarrow> conv_row w2 j)"
    using marker_loop [OF assms(2) ok2 d] by blast
  have up: "keeps (on_db (\<lambda>d. db_conversations d = X)) (if b
      then uploadReadMarkers P (se_token s) (se_userId s) (se_backupKey s) (se_keyVersion s) ?merged else ret ())" for b X
    by (auto intro!: keeps_intros simp: uploadReadMarkers_def backup_blob_def)
  have "db_conversations (w_db w') = db_conversations (w_db w3)"
    using assms(1,4,5) l(1) f up [of "db_conversations (w_db w3)" "snd flags"]
    by (cases flags) (auto simp: syncReadMarkers_def await_app or_throw_def ret_app Let_def keeps_def on_db_def
        split: prod.splits sum.splits if_splits)
  then have c': "conv_row w' c = conv_row w3 c" by (simp add: conv_row_def)
  have m: "watermark ?merged c = max (watermark local c) (watermark remote c)"
    using watermark_merge_sup [OF l(3) assms(6)] by (simp add: sup_max)
  have c2: "conv_row w2 c = conv_row w c" using l(2) cw by (simp add: conv_row_def)
  show ?thesis
  proof (cases "conv_row w c")
    case None
    then show ?thesis using c' c2 by (simp add: fr split: option.splits)
  next
    case (Some row)
    then have lr: "watermark local c = row_read row" using lw cw by simp
    have r0: "0 \<le> row_read row" using assms(7) Some by blast
    show ?thesis
      using c' c2 Some m lr r0 by (cases "map_of ?merged c") (auto simp: fr advance_def watermark_def max_def split: if_splits)
  qed
qed

section \<open>A device reads what another uploaded\<close>

lemma marker_entries_json: "marker_entries (JObj (map (\<lambda>(c, t). (c, JNum (NInt t))) ms)) = Some ms"
  by (simp add: marker_entries_def, induction ms) (auto simp: List.map_filter_def int_entry_def)

lemma fetch_uploaded:
  assumes "aes_law P" and "0 < v" and "markers_ok ms"
    and "backup_blob P None (stringify (markers_json ms)) k v w0 = (Inr blob, w0')"
    and "storeGet P token (path_readMarkers u) w = (Inr blob, w1)"
  shows "fetchReadMarkers P token u k v w = (Inr (JObj (map (\<lambda>(c, t). (c, JNum (NInt t))) ms)), w1)"
proof -
  obtain e where e: "parse_blob blob = Inr e" "kb_v e = v" "open_envelope P k e = Some (stringify (markers_json ms))"
    using parse_backup_blob [OF assms(1,4,2)] by auto
  have "json_wf (markers_json ms)"
    using assms(3) by (auto simp: markers_json_def markers_ok_def comp_def case_prod_beta)
  then have "json_parse (stringify (markers_json ms)) = Some (markers_json ms)" by (rule json_roundtrip)
  moreover have "markers_value (markers_json ms) = JObj (map (\<lambda>(c, t). (c, JNum (NInt t))) ms)"
    by (simp add: markers_value_def markers_json_def)
  ultimately show ?thesis
    using e assms(5)
    by (simp add: fetchReadMarkers_def contacts_key_def backupDecrypt_def open_envelope_def io_simps del: stringify.simps)
qed

definition demo_marked_world :: "unit world" where
  "demo_marked_world = quiet_world\<lparr>w_db := empty_idb\<lparr>db_conversations := [(''c'',
     \<lparr>sc_conversationId = ''c'', sc_lastMessageText = ''hi'', sc_lastMessageTimestamp = 9, sc_messageCount = 1,
      sc_lastMessageDeleted = None, sc_lastReadTimestamp = Some 3\<rparr>)]\<rparr>\<rparr>"

theorem syncReadMarkers_reconciles_witness:
  "\<exists>blob row. conv_row (snd (syncReadMarkers (demo_contacts_server blob) demo_session demo_marked_world)) ''c'' = Some row
     \<and> row_read row = 5"
proof -
  let ?k = "se_backupKey demo_session" and ?v = "se_keyVersion demo_session"
  obtain blob where b: "\<And>c. \<exists>w0. backup_blob (demo_contacts_server c) None (stringify (markers_json [(''c'', 5)])) ?k ?v quiet_world
      = (Inr blob, w0)"
    by (simp add: backup_blob_def backupEncrypt_def io_simps demo_contacts_server_def quiet_platform_def del: stringify.simps)
  obtain w0 where b': "backup_blob (demo_contacts_server blob) None (stringify (markers_json [(''c'', 5)])) ?k ?v quiet_world
      = (Inr blob, w0)"
    using b [of blob] by blast
  have g: "storeGet (demo_contacts_server blob) t k demo_marked_world = (Inr blob, demo_marked_world)" for t k
    by (simp add: storeGet_def do_fetch_def io_simps demo_contacts_server_def res_ok_def)
  have law: "aes_law (demo_contacts_server blob)" and idb: "fst (pl_idb (demo_contacts_server blob) n)" for n
    by (simp_all add: demo_contacts_server_def aes_law_def quiet_platform_def)
  have mok: "markers_ok [(''c'', 5)]" by (simp add: markers_ok_def)
  have f: "fetchReadMarkers (demo_contacts_server blob) (se_token demo_session) (se_userId demo_session) ?k ?v demo_marked_world
      = (Inr (JObj (map (\<lambda>(c, t). (c, JNum (NInt t))) [(''c'', 5)])), demo_marked_world)"
    by (rule fetch_uploaded [OF law _ mok b' g]) (simp add: demo_session_def)
  have ok: "idb_ok (w_db demo_marked_world)"
    by (simp add: demo_marked_world_def idb_ok_def empty_idb_def st_ok_def)
  have c: "conv_row demo_marked_world j = (if j = ''c'' then Some (snd (hd (db_conversations (w_db demo_marked_world)))) else None)" for j
    by (simp add: demo_marked_world_def conv_row_def st_get_def)
  have nn: "0 \<le> row_read row" if "conv_row demo_marked_world j = Some row" for j row
    using that by (simp add: c split: if_splits) (auto simp: demo_marked_world_def row_read_def)
  have "conv_row (snd (syncReadMarkers (demo_contacts_server blob) demo_session demo_marked_world)) ''c''
      = map_option (advance (watermark [(''c'', 5)] ''c'')) (conv_row demo_marked_world ''c'')"
    by (rule syncReadMarkers_reconciles [OF prod.collapse [symmetric] idb ok f marker_entries_json mok nn])
  then show ?thesis
    by (intro exI [of _ blob]) (simp add: c, simp add: demo_marked_world_def advance_def row_read_def watermark_def)
qed

section \<open>The debounced push\<close>

text \<open>The module's \<open>pushTimer\<close>: the time the pending push fires, and the number of pushes made. Scheduling
  clears the timer and sets a new one; the clock lets it fire when it is due.\<close>

record push_state =
  ps_timer :: "int option"
  ps_pushes :: nat

definition scheduleReadMarkerPush :: "int \<Rightarrow> int \<Rightarrow> push_state \<Rightarrow> push_state" where
  "scheduleReadMarkerPush now delayMs st = st\<lparr>ps_timer := Some (now + delayMs)\<rparr>"

definition fire_push :: "int \<Rightarrow> push_state \<Rightarrow> push_state" where
  "fire_push now st = (case ps_timer st of
      Some t \<Rightarrow> if t \<le> now then st\<lparr>ps_timer := None, ps_pushes := ps_pushes st + 1\<rparr> else st
    | None \<Rightarrow> st)"

text \<open>Requests to push at the given times, the clock running between them.\<close>

fun run_pushes :: "int \<Rightarrow> int list \<Rightarrow> push_state \<Rightarrow> push_state" where
  "run_pushes delay [] st = st"
| "run_pushes delay (t # ts) st = run_pushes delay ts (scheduleReadMarkerPush t delay (fire_push t st))"

text \<open>Marking many chats read in a row makes one upload. When each request follows the one before by
  less than the delay, no push runs until the delay after the last one, and then exactly one does.\<close>

lemma burst_pushes_once:
  assumes "successively (\<lambda>a b. a \<le> b \<and> b < a + delay) (t # ts)" and "ps_timer st = None" and "last (t # ts) + delay \<le> now"
  shows "ps_pushes (run_pushes delay (t # ts) st) = ps_pushes st
    \<and> fire_push now (run_pushes delay (t # ts) st) = \<lparr>ps_timer = None, ps_pushes = ps_pushes st + 1\<rparr>"
proof -
  have "\<lbrakk>successively (\<lambda>a b. a \<le> b \<and> b < a + delay) (a # ts); ps_timer st = Some (a + delay)\<rbrakk> \<Longrightarrow>
      run_pushes delay ts st = st\<lparr>ps_timer := Some (last (a # ts) + delay)\<rparr>" for a st
  proof (induction ts arbitrary: a st)
    case (Cons b ts)
    then have "fire_push b st = st" by (simp add: fire_push_def)
    with Cons.IH [of b "st\<lparr>ps_timer := Some (b + delay)\<rparr>"] Cons.prems show ?case
      by (simp add: scheduleReadMarkerPush_def)
  qed simp
  from this [of t "scheduleReadMarkerPush t delay st"] assms show ?thesis
    by (simp add: scheduleReadMarkerPush_def fire_push_def)
qed

end
