(* ===== verification/InboxSync.thy ===== *)
theory InboxSync
  imports Delivery ReadMarkers
begin

text \<open>
  web/src/lib/inbox-sync.ts and \<open>syncMessages\<close> of messaging.ts: one sync at a time, shared by its
  callers; its messages saved, its archives marked, the read markers reconciled and the listeners
  told. A listener is an effect of its own; one that throws is skipped.
\<close>

section \<open>syncAndPublish\<close>

definition ctx_of :: "session \<Rightarrow> sync_ctx" where
  "ctx_of s = \<lparr>sx_token = se_token s, sx_userId = se_userId s, sx_sharingKey = se_sharingPrivateKey s,
     sx_hasManager = True, sx_backup = Some (se_backupKey s, se_keyVersion s)\<rparr>"

definition mark_ingested :: "'n platform \<Rightarrow> string \<Rightarrow> ('n world, unit) io" where
  "mark_ingested P key = catch_err (markArchiveIngested P key) (\<lambda>_. ret ())"

definition notify_listeners :: "('w, unit) io list \<Rightarrow> ('w, unit) io" where
  "notify_listeners fns = for_each fns (\<lambda>f. catch_err f (\<lambda>_. ret ()))"

text \<open>What follows a successful \<open>syncMessages\<close>.\<close>

definition publish :: "'n platform \<Rightarrow> session \<Rightarrow> ('n world, unit) io list \<Rightarrow> sync_result \<Rightarrow> ('n world, unit) io" where
  "publish P s listeners synced = (\<lambda>w.
     (case (if sr_messages synced = [] then ret () else saveMessages P (se_userId s) (sr_messages synced)) w of
        (Inl _, w1) \<Rightarrow> (Inr (), w1)
      | (Inr _, w1) \<Rightarrow>
          await (for_each (sr_candidates synced) (mark_ingested P)) (\<lambda>_.
          await (catch_err (await (syncReadMarkers P s) (\<lambda>_. ret ())) (\<lambda>_. ret ())) (\<lambda>_.
          notify_listeners listeners)) w1))"

text \<open>\<open>syncAndPublish\<close> when no other sync is in flight, so that \<open>syncMessages\<close> is \<open>fetchMessages\<close>.\<close>

definition syncAndPublish :: "'n platform \<Rightarrow> session \<Rightarrow> ('n world, unit) io list \<Rightarrow> ('n world, unit) io" where
  "syncAndPublish P s listeners = (\<lambda>w.
     (case fetchMessages P (ctx_of s) w of
        (Inl _, w1) \<Rightarrow> (Inr (), w1)
      | (Inr synced, w1) \<Rightarrow> publish P s listeners synced w1))"

lemma total_mark [total_intros]: "never_throws (mark_ingested P key)"
  unfolding mark_ingested_def by (intro total_intros)

lemma total_for_each [total_intros]: "(\<And>x. never_throws (f x)) \<Longrightarrow> never_throws (for_each xs f)"
  by (induction xs) (auto intro: total_intros)

lemma total_mark_all: "never_throws (for_each ks (mark_ingested P))"
  by (intro total_intros)

lemma total_notify [total_intros]: "never_throws (notify_listeners fns)"
  unfolding notify_listeners_def by (intro total_intros)

lemma publish_total: "never_throws (publish P s ls synced)"
proof (rule never_throwsI)
  fix w
  have "never_throws (await (for_each (sr_candidates synced) (mark_ingested P)) (\<lambda>_.
      await (catch_err (await (syncReadMarkers P s) (\<lambda>_. ret ())) (\<lambda>_. ret ())) (\<lambda>_. notify_listeners ls)))"
    by (intro total_intros)
  then show "\<exists>x. fst (publish P s ls synced w) = Inr x"
    unfolding never_throws_def publish_def by (simp split: prod.split sum.split)
qed

text \<open>A sync never breaks its caller: whatever fails (the network, a decryption, the save, the marks,
  the read markers, a listener), \<open>syncAndPublish\<close> returns.\<close>

lemma syncAndPublish_never_throws: "fst (syncAndPublish P s listeners w) = Inr ()"
  using publish_total [of P s listeners]
  by (auto simp: syncAndPublish_def never_throws_def split: prod.splits sum.splits)

section \<open>What a sync leaves alone\<close>

definition on_rows :: "((string, stored_message) store \<Rightarrow> (string, int) store \<Rightarrow> bool) \<Rightarrow> 'n world \<Rightarrow> bool" where
  "on_rows R = on_db (\<lambda>d. R (db_messages d) (db_ingested d))"

lemma rows_db_write [keeps_intros]:
  "(\<And>d. db_messages (f d) = db_messages d \<and> db_ingested (f d) = db_ingested d) \<Longrightarrow> keeps (on_rows R) (db_write P f)"
  by (auto simp: on_rows_def intro!: keeps_intros)

lemma rows_local: "on_rows R = on_local (\<lambda>d _ _. R (db_messages d) (db_ingested d))"
  by (simp add: on_rows_def on_db_local)

lemmas rows_api [keeps_intros] =
  api_keep_local [where Q = "\<lambda>d _ _. R (db_messages d) (db_ingested d)", folded rows_local]
  local_storeGet [where Q = "\<lambda>d _ _. R (db_messages d) (db_ingested d)", folded rows_local]
  crypto_keep [where Q = "\<lambda>d _ _. R (db_messages d) (db_ingested d)", folded rows_local]
  fetchChain_keep [where Q = "\<lambda>d _ _. R (db_messages d) (db_ingested d)", folded rows_local]
  upload_object_keep [where Q = "\<lambda>d _ _. R (db_messages d) (db_ingested d)", folded rows_local] for R

lemma rows_basic [keeps_intros]:
  "keeps (on_rows R) (platform_io f)" "keeps (on_rows R) (db_read P g)" "keeps (on_rows R) get_mgr"
  "keeps (on_rows R) (mod_mgr u)"
  by (simp_all add: on_rows_def keeps_intros)

lemma rows_inbound [keeps_intros]:
  "keeps (on_rows R) (getInbound P sid)" "keeps (on_rows R) (decryptInbound P sid ct)"
  "keeps (on_rows R) (addInbound P u d k)" "keeps (on_rows R) (persistInbound P sid)"
  by (auto intro!: keeps_intros simp: getInbound_def decryptInbound_def addInbound_def persistInbound_def Let_def
      loadInboundSession_def saveInboundSession_def cache_inbound_def case_prod_beta split: option.splits)

lemma rows_steps [keeps_intros]:
  "keeps (on_rows R) (message_step P ctx raw st)" "keeps (on_rows R) (share_step P ctx seen raw)"
  "keeps (on_rows R) (fetch_envelope P t key envs)"
  "keeps (on_rows R) (flush_one P t u bk kv en)" "keeps (on_rows R) (persistInbounds P sids)"
  by (auto intro!: keeps_intros simp: message_step_def open_message_def share_step_def apply_share_def
      backup_new_key_def backupSessionKey_def backup_blob_def enqueuePendingKeyBackup_def fetch_envelope_def
      flush_one_def deletePendingKeyBackup_def persistInbounds_def Let_def
      split: option.splits envelope_content.splits prod.splits)

lemma rows_processEnvelopes [keeps_intros]: "keeps (on_rows R) (processEnvelopes P ctx envs seen)"
  unfolding processEnvelopes_def by (intro keeps_intros)

lemma rows_archive_step [keeps_intros]: "keeps (on_rows R) (archive_step P ctx ing key st)"
  by (intro archive_step_keeps keeps_intros)

lemma rows_passes [keeps_intros]:
  "keeps (on_rows R) (syncLive P ctx)" "keeps (on_rows R) (syncArchive P ctx seen)"
  "keeps (on_rows R) (flushPendingKeyBackups P t u bk kv)" "keeps (on_rows R) (finish_live P ctx live)"
  by (auto intro!: keeps_intros simp: syncLive_def syncArchive_def flushPendingKeyBackups_def finish_live_def
      triggerCompaction_def loadSyncCursor_def saveSyncCursor_def loadIngestedArchiveKeys_def listPendingKeyBackups_def
      Let_def split: option.splits)

lemma rows_fetchMessages [keeps_intros]: "keeps (on_rows R) (fetchMessages P ctx)"
  by (auto intro!: keeps_intros simp: fetchMessages_def loadMessageIds_def split: option.splits)

lemma rows_keys [keeps_intros]: "keeps (on_rows R) (resolveBackupKey P u k cv tv ls)"
proof -
  have "keeps (on_rows R) (walk n P u ls k v)" for n k v
    by (induction n arbitrary: k v)
      (auto intro!: keeps_intros simp: getBackupKey_def putBackupKey_def split: option.splits)
  then show ?thesis by (auto intro!: keeps_intros simp: resolveBackupKey_def getBackupKey_def split: option.splits)
qed

lemma rows_fetchReadMarkers [keeps_intros]: "keeps (on_rows R) (fetchReadMarkers P t u k v)"
  by (intro fetchReadMarkers_keeps) (auto intro!: keeps_intros simp: contacts_key_def)

lemma rows_markConversationRead [keeps_intros]: "keeps (on_rows R) (markConversationRead P c t)"
  by (auto intro!: keeps_intros simp: markConversationRead_def put_conversations_def split: option.splits)

lemma rows_syncReadMarkers [keeps_intros]: "keeps (on_rows R) (syncReadMarkers P s)"
  by (auto intro!: keeps_intros simp: syncReadMarkers_def loadReadMarkers_def loadConversations_def Let_def
      marker_step_def uploadReadMarkers_def backup_blob_def split: prod.splits)

section \<open>What a fetch delivers\<close>

lemma syncLive_distinct:
  assumes "syncLive P ctx w = (Inr live, w')"
  shows "distinct (map im_id (lr_messages live))"
proof -
  obtain envs st w1 w2 where "processEnvelopes P ctx envs [] w1 = (Inr st, w2)" "lr_messages live = ps_messages st"
    using assms by (auto simp: syncLive_def Let_def io_simps split: prod.splits sum.splits)
  then show ?thesis using processEnvelopes_inv [of P ctx envs "[]" w1 st w2] by (simp add: batch_inv_def)
qed

lemma set_fold_add: "set (fold set_add xs ys) = set xs \<union> set ys"
  by (induction xs arbitrary: ys) auto

text \<open>The ids of a user's messages.\<close>

definition ids_of :: "string \<Rightarrow> (string, stored_message) store \<Rightarrow> string set" where
  "ids_of u ms = fst ` set (filter (\<lambda>(_, row). sm_userId row = u) ms)"

text \<open>What the archive pass reads as stored is what was stored when the sync started.\<close>

lemma stored_ids:
  assumes "syncLive P ctx w = (Inr live, w1)" and "loadMessageIds P u w1 = (Inr stored, w2)"
  shows "set stored = ids_of u (db_messages (w_db w))"
    and "db_messages (w_db w2) = db_messages (w_db w)"
proof -
  have "db_messages (w_db w1) = db_messages (w_db w)"
    using keeps_result [OF rows_passes(1) assms(1), of "\<lambda>ms _. ms = db_messages (w_db w)"]
    by (simp add: on_rows_def on_db_def)
  with assms(2) show "set stored = ids_of u (db_messages (w_db w))"
    and "db_messages (w_db w2) = db_messages (w_db w)"
    by (force simp: loadMessageIds_def ids_of_def io_simps split: if_splits)+
qed

text \<open>C2: a sync delivers each message once. The messages of one sync have distinct ids and come in the
  order of their timestamps; everything the live pass decrypted is among them, and any other one, read
  from an archive, is new: the database held no message of the user under its id when the sync started.\<close>

theorem fetchMessages_no_duplicates:
  assumes "fetchMessages P ctx w = (Inr r, w')"
  shows "distinct (map im_id (sr_messages r)) \<and> sorted (map im_timestamp (sr_messages r))
    \<and> (\<exists>live w1. syncLive P ctx w = (Inr live, w1) \<and> set (lr_messages live) \<subseteq> set (sr_messages r)
        \<and> (\<forall>m \<in> set (sr_messages r) - set (lr_messages live).
             im_id m \<notin> ids_of (sx_userId ctx) (db_messages (w_db w))))"
proof -
  obtain live stored archive w1 w2 w3 where
    l: "syncLive P ctx w = (Inr live, w1)" and s: "loadMessageIds P (sx_userId ctx) w1 = (Inr stored, w2)"
    and a: "syncArchive P ctx (fold set_add (map im_id (lr_messages live)) stored) w2 = (Inr archive, w3)"
    and r: "sr_messages r = sort_key im_timestamp (lr_messages live @ ar_messages archive)"
    using assms by (auto simp: fetchMessages_def io_simps split: prod.splits sum.splits)
  note ai = syncArchive_inv [OF a]
  then have ds: "distinct (map im_id (lr_messages live @ ar_messages archive))"
      "set (map im_id (ar_messages archive)) \<inter> set stored = {}"
    using syncLive_distinct [OF l] by (auto simp: archive_inv_def set_fold_add)
  have "mset (map im_id (sr_messages r)) = mset (map im_id (lr_messages live @ ar_messages archive))"
    by (simp add: r)
  then have "distinct (map im_id (sr_messages r))" using ds(1) mset_eq_imp_distinct_iff by blast
  moreover have "\<forall>m \<in> set (sr_messages r) - set (lr_messages live).
      im_id m \<notin> ids_of (sx_userId ctx) (db_messages (w_db w))"
    using ds(2) stored_ids(1) [OF l s] by (auto simp: r)
  ultimately show ?thesis using l by (auto simp: r)
qed

section \<open>Archives are marked after their messages are stored\<close>

lemma saved_rows:
  assumes "saveMessages P u ms w = (r, w')"
  shows "db_ingested (w_db w') = db_ingested (w_db w)"
    and "r = Inr () \<longrightarrow> db_messages (w_db w') = st_put_list (save_rows u ms) (db_messages (w_db w))"
proof -
  show "db_ingested (w_db w') = db_ingested (w_db w)"
  proof (cases "ms = []")
    case False
    from assms this show ?thesis
      by (rule saveMessages_outcome)
        (simp_all add: saved_db_def recomputed_db_def put_conversations_def save_phase2_def Let_def)
  qed (use assms in \<open>simp add: saveMessages_def ret_app\<close>)
  show "r = Inr () \<longrightarrow> db_messages (w_db w') = st_put_list (save_rows u ms) (db_messages (w_db w))"
    using saveMessages_messages [OF assms] by blast
qed

lemma mark_keep [keeps_intros]: "keeps (on_db idb_ok) (mark_ingested P key)"
  unfolding mark_ingested_def by (intro keeps_intros)

lemma mark_all:
  assumes "for_each ks (mark_ingested P) w = (r, w')" and "idb_ok (w_db w)"
  shows "db_messages (w_db w') = db_messages (w_db w)"
    and "st_get k (db_ingested (w_db w')) \<noteq> None \<Longrightarrow> k \<in> set ks \<or> st_get k (db_ingested (w_db w)) \<noteq> None"
proof -
  have "db_messages (w_db w') = db_messages (w_db w)
    \<and> (st_get k (db_ingested (w_db w')) \<noteq> None \<longrightarrow> k \<in> set ks \<or> st_get k (db_ingested (w_db w)) \<noteq> None)"
    using assms
  proof (induction ks arbitrary: w)
    case (Cons j ks)
    have "fst (mark_ingested P j w) = Inr ()" using total_mark [of P j] by (simp add: never_throws_def)
    then obtain w1 where m: "mark_ingested P j w = (Inr (), w1)" by (metis prod.collapse)
    have "idb_ok (w_db w1)"
      using keeps_result [OF mark_keep m] Cons.prems(2) by (simp add: on_db_def)
    moreover have "st_ok (db_ingested (w_db w))" using Cons.prems(2) by (simp add: idb_ok_def)
    then have "db_messages (w_db w1) = db_messages (w_db w)"
        "st_get k (db_ingested (w_db w1)) \<noteq> None \<longrightarrow> k = j \<or> st_get k (db_ingested (w_db w)) \<noteq> None"
      using m by (auto simp: mark_ingested_def io_simps markArchiveIngested_def st_get_put split: if_splits)
    moreover have "for_each ks (mark_ingested P) w1 = (r, w')" using Cons.prems(1) m by (simp add: await_app)
    ultimately show ?case using Cons.IH [of w1] by auto
  qed (simp add: ret_app)
  then show "db_messages (w_db w') = db_messages (w_db w)"
    and "st_get k (db_ingested (w_db w')) \<noteq> None \<Longrightarrow> k \<in> set ks \<or> st_get k (db_ingested (w_db w)) \<noteq> None"
    by blast+
qed

lemma marked_all:
  assumes "\<And>n. fst (pl_idb P n)" and "for_each ks (mark_ingested P) w = (r, w')" and "idb_ok (w_db w)"
  shows "\<forall>k \<in> set ks. st_get k (db_ingested (w_db w')) \<noteq> None"
proof -
  have k: "keeps (on_rows (\<lambda>_ i. st_ok i \<and> st_get k i \<noteq> None)) (mark_ingested P j)" for k j
    by (rule keepsI) (auto simp: mark_ingested_def io_simps markArchiveIngested_def on_rows_def on_db_def st_get_put split: if_splits)
  show ?thesis using assms(2,3)
  proof (induction ks arbitrary: w)
    case (Cons j ks)
    have "fst (mark_ingested P j w) = Inr ()" using total_mark [of P j] by (simp add: never_throws_def)
    then obtain w1 where m: "mark_ingested P j w = (Inr (), w1)" by (metis prod.collapse)
    have ok: "idb_ok (w_db w1)" using keeps_result [OF mark_keep m] Cons.prems(2) by (simp add: on_db_def)
    have rest: "for_each ks (mark_ingested P) w1 = (r, w')" using Cons.prems(1) m by (simp add: await_app)
    have "st_ok (db_ingested (w_db w))" using Cons.prems(2) by (simp add: idb_ok_def)
    then have j: "st_get j (db_ingested (w_db w1)) \<noteq> None"
      using m by (auto simp: assms(1) mark_ingested_def io_simps markArchiveIngested_def st_get_put split: if_splits)
    have kf: "keeps (on_rows (\<lambda>_ i. st_ok i \<and> st_get j i \<noteq> None)) (for_each ks (mark_ingested P))"
      using k by (intro keeps_intros)
    have "st_get j (db_ingested (w_db w')) \<noteq> None"
      using keeps_result [OF kf rest] j ok by (simp add: on_rows_def on_db_def idb_ok_def)
    with Cons.IH [OF rest ok] show ?case by simp
  qed (simp add: ret_app)
qed

lemma saveMessages_commits:
  assumes "\<And>n. fst (pl_idb P n)"
  shows "fst (saveMessages P u ms w) = Inr ()"
  using assms
  by (auto simp: saveMessages_def recomputeAmendedSummaries_def io_simps Let_def split: prod.splits)

lemma publish_stores:
  assumes "\<And>n. fst (pl_idb P n)" and "idb_ok (w_db w)"
  shows "db_messages (w_db (snd (publish P s [] synced w))) = st_put_list (save_rows (se_userId s) (sr_messages synced)) (db_messages (w_db w))"
    and "\<forall>k \<in> set (sr_candidates synced). st_get k (db_ingested (w_db (snd (publish P s [] synced w)))) \<noteq> None"
proof -
  let ?ms = "sr_messages synced"
  let ?save = "if ?ms = [] then ret () else saveMessages P (se_userId s) ?ms"
  have "fst (?save w) = Inr ()" using saveMessages_commits [OF assms(1)] by (simp add: ret_app)
  then obtain w2 where sv: "?save w = (Inr (), w2)" by (metis prod.collapse)
  have ks: "keeps (on_db idb_ok) ?save" by (intro keeps_intros)
  have ok2: "idb_ok (w_db w2)" using keeps_result [OF ks sv] assms(2) by (simp add: on_db_def)
  obtain w3 where mk: "for_each (sr_candidates synced) (mark_ingested P) w2 = (Inr (), w3)"
    using total_mark_all [of "sr_candidates synced" P] unfolding never_throws_def by (metis prod.collapse old.unit.exhaust)
  let ?tail = "await (catch_err (await (syncReadMarkers P s) (\<lambda>_. ret ())) (\<lambda>_. ret ())) (\<lambda>_. notify_listeners [])"
  have kt: "keeps (on_rows (\<lambda>m i. m = db_messages (w_db w3) \<and> i = db_ingested (w_db w3))) ?tail"
    by (simp add: notify_listeners_def keeps_intros)
  have e: "publish P s [] synced w = ?tail w3" using sv mk by (simp add: publish_def await_app)
  have r: "db_messages (w_db (snd (publish P s [] synced w))) = db_messages (w_db w3)
      \<and> db_ingested (w_db (snd (publish P s [] synced w))) = db_ingested (w_db w3)"
    unfolding e using keepsD [OF kt, of w3] by (simp add: on_rows_def on_db_def)
  have "db_messages (w_db w2) = st_put_list (save_rows (se_userId s) ?ms) (db_messages (w_db w))"
  proof (cases "?ms = []")
    case False
    then show ?thesis using saved_rows(2) [of P "se_userId s" ?ms w "Inr ()" w2] sv by simp
  qed (use sv in \<open>simp add: ret_app save_rows_def st_put_list_def\<close>)
  then show "db_messages (w_db (snd (publish P s [] synced w))) = st_put_list (save_rows (se_userId s) ?ms) (db_messages (w_db w))"
    using r mark_all(1) [OF mk ok2] by simp
  show "\<forall>k \<in> set (sr_candidates synced). st_get k (db_ingested (w_db (snd (publish P s [] synced w)))) \<noteq> None"
    using r marked_all [OF assms(1) mk ok2] by simp
qed

text \<open>What a fetch offers for marking is read: its messages are the user's in the database or among the
  messages delivered, but for those whose opening threw.\<close>

lemma fetched_candidate:
  assumes "sx_hasManager ctx" and "fetchMessages P ctx w = (Inr synced, w')" and "key \<in> set (sr_candidates synced)"
  shows "db_messages (w_db w') = db_messages (w_db w)"
    and "\<exists>seen. fully_read seen (sync_log P ctx w) key
      \<and> seen \<subseteq> ids_of (sx_userId ctx) (db_messages (w_db w)) \<union> set (map im_id (sr_messages synced))"
proof -
  show "db_messages (w_db w') = db_messages (w_db w)"
    using keeps_result [OF rows_fetchMessages assms(2), of "\<lambda>ms _. ms = db_messages (w_db w)"]
    by (simp add: on_rows_def on_db_def)
  obtain live stored archive w1 w2 w3 where
    l: "syncLive P ctx w = (Inr live, w1)" and s: "loadMessageIds P (sx_userId ctx) w1 = (Inr stored, w2)"
    and a: "syncArchive P ctx (fold set_add (map im_id (lr_messages live)) stored) w2 = (Inr archive, w3)"
    and r: "set (sr_messages synced) = set (lr_messages live) \<union> set (ar_messages archive)" "sr_candidates synced = ar_candidates archive"
    using assms(2) by (auto simp: fetchMessages_def await_Inr ret_app)
  have "fully_read (set (ar_seen archive)) (sync_log P ctx w) key"
    using syncArchive_read [OF assms(1) a] assms(3) r(2) by (simp add: sync_log_def l s)
  moreover have "set (ar_seen archive) \<subseteq> ids_of (sx_userId ctx) (db_messages (w_db w)) \<union> set (map im_id (sr_messages synced))"
    using syncArchive_inv [OF a] stored_ids(1) [OF l s] r(1) by (auto simp: archive_inv_def set_fold_add)
  ultimately show "\<exists>seen. fully_read seen (sync_log P ctx w) key
      \<and> seen \<subseteq> ids_of (sx_userId ctx) (db_messages (w_db w)) \<union> set (map im_id (sr_messages synced))" by blast
qed

lemma saved_ids:
  assumes "st_ok ms"
  shows "ids_of u ms \<union> im_id ` set new \<subseteq> ids_of u (st_put_list (save_rows u new) ms)"
proof -
  have k: "st_ok (st_put_list (save_rows u new) ms)" using assms by simp
  have g: "x \<in> ids_of u s \<longleftrightarrow> (\<exists>row. st_get x s = Some row \<and> sm_userId row = u)" if "st_ok s" for x s
    using that by (force simp: ids_of_def st_get_def st_ok_def strict_sorted_iff)
  have u: "row \<in> snd ` set (save_rows u new) \<Longrightarrow> sm_userId row = u" for row
    by (auto simp: save_rows_def stored_of_def)
  show ?thesis
  proof
    fix x assume x: "x \<in> ids_of u ms \<union> im_id ` set new"
    show "x \<in> ids_of u (st_put_list (save_rows u new) ms)"
    proof (cases "map_of (rev (save_rows u new)) x")
      case None
      then have "x \<notin> im_id ` set new" by (auto simp: map_of_eq_None_iff save_rows_def image_image)
      with x None show ?thesis using assms by (auto simp: g k st_get_put_list)
    next
      case (Some row)
      then have "row \<in> snd ` set (save_rows u new)" by (force dest: map_of_SomeD)
      with Some u show ?thesis using assms by (simp add: g [OF k] st_get_put_list)
    qed
  qed
qed

lemma publish_tail:
  assumes "\<forall>f \<in> set listeners. \<forall>R. keeps (on_rows R) f"
    and "await (catch_err (await (syncReadMarkers P s) (\<lambda>_. ret ())) (\<lambda>_. ret ())) (\<lambda>_. notify_listeners listeners) w = (r, w')"
  shows "db_messages (w_db w') = db_messages (w_db w) \<and> db_ingested (w_db w') = db_ingested (w_db w)"
proof -
  let ?Q = "on_rows (\<lambda>m i. m = db_messages (w_db w) \<and> i = db_ingested (w_db w)) :: 'a world \<Rightarrow> bool"
  have ls: "keeps ?Q (notify_listeners listeners)"
    using assms(1) unfolding notify_listeners_def by (induction listeners) (auto intro!: keeps_intros)
  have "keeps ?Q (await (catch_err (await (syncReadMarkers P s) (\<lambda>_. ret ())) (\<lambda>_. ret ())) (\<lambda>_. notify_listeners listeners))"
    using ls by (intro keeps_intros)
  from keeps_result [OF this assms(2)] show ?thesis by (simp add: on_rows_def on_db_def)
qed

text \<open>C3: no archive is marked before its messages are safe. Whatever fails on the way, when a
  \<open>syncAndPublish\<close> marks an archive as ingested, so that it is never downloaded again, that very sync
  downloaded and decoded it, and afterwards each of its messages is in the database as a message of
  the user, except those whose opening threw in this sync: their session could not be read, or was
  there and did not decrypt them. A message whose session is unknown keeps its archive unmarked, and
  so does a save that fails.\<close>

theorem ingested_archives_are_stored:
  assumes "idb_ok (w_db w)" and "syncAndPublish P s listeners w = (r, w')"
    and "st_get key (db_ingested (w_db w)) = None" and "st_get key (db_ingested (w_db w')) \<noteq> None"
    and "\<forall>f \<in> set listeners. \<forall>R. keeps (on_rows R) f"
  shows "\<exists>decoded failed. (key, decoded, failed) \<in> set (sync_log P (ctx_of s) w)
    \<and> (\<forall>raw \<in> set decoded. covered (ids_of (se_userId s) (db_messages (w_db w'))) failed raw)"
proof -
  let ?ctx = "ctx_of s"
  have ing: "st_get key (db_ingested (w_db v)) = None" if "fetchMessages P ?ctx w = (r, v)" for r v
    using keeps_result [OF rows_fetchMessages that, of "\<lambda>_ i. st_get key i = None"] assms(3)
    by (simp add: on_rows_def on_db_def)
  obtain synced w1 where f: "fetchMessages P ?ctx w = (Inr synced, w1)"
    using assms(2,4) ing by (auto simp: syncAndPublish_def split: prod.splits sum.splits)
  let ?save = "if sr_messages synced = [] then ret () else saveMessages P (se_userId s) (sr_messages synced)"
  obtain x w2 where sv: "?save w1 = (x, w2)" by fastforce
  have ing2: "db_ingested (w_db w2) = db_ingested (w_db w1)"
    using sv saved_rows(1) by (cases "sr_messages synced = []") (auto simp: ret_app)
  have pub: "publish P s listeners synced w1 = (r, w')" using assms(2) f by (simp add: syncAndPublish_def)
  have x: "x = Inr ()"
  proof (cases x)
    case (Inl e)
    then have "w' = w2" using pub sv by (simp add: publish_def)
    then show ?thesis using assms(4) ing [OF f] ing2 by simp
  qed simp
  have "fst (for_each (sr_candidates synced) (mark_ingested P) w2) = Inr ()"
    using total_mark_all [of "sr_candidates synced" P] by (simp add: never_throws_def)
  then obtain w3 where mk: "for_each (sr_candidates synced) (mark_ingested P) w2 = (Inr (), w3)" by (metis prod.collapse)
  have rows: "db_messages (w_db w') = db_messages (w_db w3)" "db_ingested (w_db w') = db_ingested (w_db w3)"
    using publish_tail [OF assms(5), of P s w3 r w'] pub sv x mk by (simp_all add: publish_def await_app)
  have ok1: "idb_ok (w_db w1)" using keeps_result [OF fetchMessages_keep f] assms(1) by (simp add: on_db_def)
  have ks: "keeps (on_db idb_ok) ?save" by (intro keeps_intros)
  have ok2: "idb_ok (w_db w2)" using keeps_result [OF ks sv] ok1 by (simp add: on_db_def)
  have key: "key \<in> set (sr_candidates synced)"
    using mark_all(2) [OF mk ok2, of key] assms(4) rows(2) ing2 ing [OF f] by auto
  have m: "sx_hasManager ?ctx" "sx_userId ?ctx = se_userId s" by (simp_all add: ctx_of_def)
  note fc = fetched_candidate [OF m(1) f key]
  obtain seen where seen: "fully_read seen (sync_log P ?ctx w) key"
      "seen \<subseteq> ids_of (se_userId s) (db_messages (w_db w1)) \<union> set (map im_id (sr_messages synced))"
    using fc m(2) by auto
  have "db_messages (w_db w2) = st_put_list (save_rows (se_userId s) (sr_messages synced)) (db_messages (w_db w1))"
  proof (cases "sr_messages synced = []")
    case False
    then show ?thesis using saved_rows(2) [of P "se_userId s" "sr_messages synced" w1 x w2] sv x by simp
  qed (use sv in \<open>simp add: ret_app save_rows_def st_put_list_def\<close>)
  then have d: "db_messages (w_db w') = st_put_list (save_rows (se_userId s) (sr_messages synced)) (db_messages (w_db w1))"
    using mark_all(1) [OF mk ok2] rows(1) by simp
  have o: "st_ok (db_messages (w_db w1))" using ok1 by (simp add: idb_ok_def)
  have "seen \<subseteq> ids_of (se_userId s) (db_messages (w_db w'))"
    using seen(2) saved_ids [OF o, of "se_userId s" "sr_messages synced"] d by auto
  from fully_read_mono [OF seen(1) this subset_refl] show ?thesis by (auto simp: fully_read_def)
qed

definition demo_receiver :: session where
  "demo_receiver = demo_session\<lparr>se_userId := ''U2''\<rparr>"

lemma demo_receives:
  "\<exists>w'. fetchMessages demo_sync_platform (ctx_of demo_receiver) demo_sync_world =
    (Inr \<lparr>sr_messages = [demo_incoming], sr_candidates = [''k'']\<rparr>, w')"
  by (rule demo_fetched) (simp_all add: ctx_of_def demo_receiver_def demo_session_def)

lemma demo_commits: "fst (pl_idb demo_sync_platform n)"
  by (simp add: demo_sync_platform_def quiet_platform_def)

lemma demo_world_ok: "idb_ok (w_db demo_sync_world)"
  by (simp add: demo_sync_world_def quiet_world_def empty_idb_def idb_ok_def)

theorem fetchMessages_no_duplicates_witness:
  "\<exists>r w'. fetchMessages demo_sync_platform demo_ctx demo_sync_world = (Inr r, w')
     \<and> sr_messages r = [demo_incoming] \<and> sr_candidates r = [''k''] \<and> distinct (map im_id (sr_messages r))"
proof -
  obtain w' where r: "fetchMessages demo_sync_platform demo_ctx demo_sync_world =
      (Inr \<lparr>sr_messages = [demo_incoming], sr_candidates = [''k'']\<rparr>, w')"
    using demo_fetched [of demo_ctx] by (auto simp: demo_ctx_def)
  show ?thesis by (intro exI conjI, rule r) (use fetchMessages_no_duplicates [OF r] in simp_all)
qed

theorem ingested_archives_are_stored_witness:
  "\<exists>w' decoded failed. syncAndPublish demo_sync_platform demo_receiver [] demo_sync_world = (Inr (), w')
    \<and> st_get ''k'' (db_ingested (w_db w')) \<noteq> None
    \<and> (''k'', decoded, failed) \<in> set (sync_log demo_sync_platform (ctx_of demo_receiver) demo_sync_world)
    \<and> (\<forall>raw \<in> set decoded. covered (ids_of ''U2'' (db_messages (w_db w'))) failed raw)"
proof -
  obtain w1 where f: "fetchMessages demo_sync_platform (ctx_of demo_receiver) demo_sync_world =
      (Inr \<lparr>sr_messages = [demo_incoming], sr_candidates = [''k'']\<rparr>, w1)" (is "_ = (Inr ?synced, _)")
    using demo_receives by blast
  have ok: "idb_ok (w_db w1)" using keeps_result [OF fetchMessages_keep f] demo_world_ok by (simp add: on_db_def)
  obtain r w' where p: "publish demo_sync_platform demo_receiver [] ?synced w1 = (r, w')" by fastforce
  then have s: "syncAndPublish demo_sync_platform demo_receiver [] demo_sync_world = (r, w')"
    using f by (simp add: syncAndPublish_def)
  have r: "r = Inr ()" using p publish_total [of demo_sync_platform demo_receiver "[]" ?synced]
    by (auto simp: never_throws_def dest: spec [of _ w1])
  have k: "st_get ''k'' (db_ingested (w_db w')) \<noteq> None"
    using publish_stores(2) [OF demo_commits ok, where s = demo_receiver and synced = ?synced] p by simp
  have n: "st_get ''k'' (db_ingested (w_db demo_sync_world)) = None"
    by (simp add: demo_sync_world_def quiet_world_def empty_idb_def)
  from ingested_archives_are_stored [OF demo_world_ok s n k] show ?thesis
    using s r k by (auto simp: demo_receiver_def)
qed

section \<open>One fetch at a time\<close>

text \<open>The module variable \<open>syncInFlight\<close> under calls that overlap. A call that finds no fetch in flight
  starts one for its own arguments; a call that finds one joins it, whatever its arguments are; when
  the fetch settles, fulfilled or rejected alike, the variable is cleared and every caller waiting has its
  outcome. \<open>waiting\<close>, \<open>started\<close> and \<open>answered\<close> record the callers, the fetches and for whom each call
  was fetched; the code keeps only \<open>in_flight\<close>.\<close>

record 'c share_state =
  in_flight :: "'c option"
  waiting :: "'c list"
  started :: "'c list"
  answered :: "('c \<times> 'c) list"

datatype 'c share_event = CallSync 'c | Settle

inductive share_trans :: "'c share_state \<Rightarrow> 'c share_event \<Rightarrow> 'c share_state \<Rightarrow> bool" where
  start: "in_flight st = None \<Longrightarrow>
    share_trans st (CallSync c) (st\<lparr>in_flight := Some c, waiting := [c], started := started st @ [c]\<rparr>)"
| join: "in_flight st = Some d \<Longrightarrow> share_trans st (CallSync c) (st\<lparr>waiting := waiting st @ [c]\<rparr>)"
| settle: "in_flight st = Some d \<Longrightarrow>
    share_trans st Settle (st\<lparr>in_flight := None, waiting := [], answered := answered st @ map (\<lambda>c. (c, d)) (waiting st)\<rparr>)"

inductive_cases callE: "share_trans st (CallSync c) st'"
inductive_cases settleE: "share_trans st Settle st'"

definition share_init :: "'c share_state" where
  "share_init = \<lparr>in_flight = None, waiting = [], started = [], answered = []\<rparr>"

inductive share_run :: "'c share_event list \<Rightarrow> 'c share_state \<Rightarrow> bool" where
  "share_run [] share_init"
| "share_run evs st \<Longrightarrow> share_trans st ev st' \<Longrightarrow> share_run (evs @ [ev]) st'"

fun calls :: "'c share_event list \<Rightarrow> 'c list" where
  "calls [] = []"
| "calls (CallSync c # evs) = c # calls evs"
| "calls (Settle # evs) = calls evs"

lemma calls_append [simp]: "calls (a @ b) = calls a @ calls b"
  by (induction a rule: calls.induct) auto

text \<open>C20: syncs are shared without loss. However calls of \<open>syncMessages\<close> and settlements interleave, each
  call is answered by one fetch or is waiting for the one in flight, in the order of the calls; a
  fetch is in flight exactly when a call waits; and only fetches that a call started answer calls.\<close>

theorem sync_calls_answered:
  assumes "share_run evs st"
  shows "map fst (answered st) @ waiting st = calls evs
    \<and> (in_flight st = None \<longleftrightarrow> waiting st = []) \<and> set (map snd (answered st)) \<subseteq> set (started st)
    \<and> (\<forall>d. in_flight st = Some d \<longrightarrow> started st \<noteq> [] \<and> last (started st) = d)
    \<and> set (started st) \<subseteq> set (calls evs)"
  using assms
proof induction
  case (2 evs st ev st')
  show ?case
  proof (cases ev)
    case (CallSync c)
    with 2 show ?thesis by (fastforce elim!: callE)
  next
    case Settle
    with 2 show ?thesis by (fastforce elim!: settleE simp: comp_def)
  qed
qed (simp add: share_init_def)

theorem sync_calls_answered_witness:
  "\<exists>st. share_run [CallSync ''a'', CallSync ''b'', Settle] st \<and> map fst (answered st) = [''a'', ''b'']"
proof -
  let ?s1 = "share_init\<lparr>in_flight := Some ''a'', waiting := [''a''], started := [''a'']\<rparr>"
  let ?s2 = "?s1\<lparr>waiting := [''a'', ''b'']\<rparr>"
  have 1: "share_run [CallSync ''a''] ?s1"
    using share_run.intros(2) [OF share_run.intros(1) start, of "''a''"] by (simp add: share_init_def)
  have 2: "share_run [CallSync ''a'', CallSync ''b''] ?s2"
    using share_run.intros(2) [OF 1 join, of "''a''" "''b''"] by simp
  obtain st where 3: "share_run [CallSync ''a'', CallSync ''b'', Settle] st"
    and st: "waiting st = []" using share_run.intros(2) [OF 2 settle, of "''a''"] by simp
  from sync_calls_answered [OF 3] st 3 show ?thesis by auto
qed

text \<open>C39: a sync in flight outlives a change of account. A call for another account \<open>b\<close> that comes while the
  fetch of account \<open>a\<close> runs is answered with the messages of \<open>a\<close>, and \<open>syncAndPublish\<close> then stores them
  as messages of \<open>b\<close>.\<close>

theorem shared_sync_crosses_accounts:
  assumes "fetchMessages P (ctx_of a) w = (Inr synced, w1)" and "m \<in> set (sr_messages synced)"
    and "\<And>n. fst (pl_idb P n)" and "idb_ok (w_db w)"
  shows "(\<exists>st. share_run [CallSync a, CallSync b, Settle] st \<and> (b, a) \<in> set (answered st))
    \<and> (\<exists>row. st_get (im_id m) (db_messages (w_db (snd (publish P b [] synced w1)))) = Some row
         \<and> sm_userId row = se_userId b)"
proof
  let ?s1 = "share_init\<lparr>in_flight := Some a, waiting := [a], started := [a]\<rparr>"
  have 1: "share_run [CallSync a] ?s1"
    using share_run.intros(2) [OF share_run.intros(1) start, of a] by (simp add: share_init_def)
  have 2: "share_run [CallSync a, CallSync b] (?s1\<lparr>waiting := [a, b]\<rparr>)"
    using share_run.intros(2) [OF 1 join, of a b] by simp
  show "\<exists>st. share_run [CallSync a, CallSync b, Settle] st \<and> (b, a) \<in> set (answered st)"
    using share_run.intros(2) [OF 2 settle, of a] by auto
next
  let ?ms = "sr_messages synced"
  have ok1: "idb_ok (w_db w1)" using keeps_result [OF fetchMessages_keep assms(1)] assms(4) by (simp add: on_db_def)
  have d: "db_messages (w_db (snd (publish P b [] synced w1))) = st_put_list (save_rows (se_userId b) ?ms) (db_messages (w_db w1))"
    using publish_stores(1) [OF assms(3) ok1] .
  obtain row where row: "map_of (rev (save_rows (se_userId b) ?ms)) (im_id m) = Some row"
    using assms(2) by (cases "map_of (rev (save_rows (se_userId b) ?ms)) (im_id m)") (auto simp: map_of_eq_None_iff save_rows_def image_image)
  then have "sm_userId row = se_userId b" by (auto simp: save_rows_def stored_of_def dest!: map_of_SomeD)
  moreover have "st_get (im_id m) (db_messages (w_db (snd (publish P b [] synced w1)))) = Some row"
    using ok1 row by (simp add: d st_get_put_list idb_ok_def)
  ultimately show "\<exists>row. st_get (im_id m) (db_messages (w_db (snd (publish P b [] synced w1)))) = Some row
         \<and> sm_userId row = se_userId b" by blast
qed

theorem shared_sync_crosses_accounts_witness:
  "\<exists>synced w1 row. fetchMessages demo_sync_platform (ctx_of demo_receiver) demo_sync_world = (Inr synced, w1)
    \<and> st_get ''m1'' (db_messages (w_db (snd (publish demo_sync_platform demo_session [] synced w1)))) = Some row
    \<and> se_userId demo_receiver = ''U2'' \<and> sm_userId row = ''U1''"
proof -
  obtain w1 where f: "fetchMessages demo_sync_platform (ctx_of demo_receiver) demo_sync_world =
      (Inr \<lparr>sr_messages = [demo_incoming], sr_candidates = [''k'']\<rparr>, w1)"
    using demo_receives by blast
  from shared_sync_crosses_accounts [OF f, of demo_incoming demo_session]
  obtain row where "st_get ''m1'' (db_messages (w_db (snd (publish demo_sync_platform demo_session []
        \<lparr>sr_messages = [demo_incoming], sr_candidates = [''k'']\<rparr> w1)))) = Some row" "sm_userId row = ''U1''"
    by (auto simp: demo_commits demo_world_ok demo_incoming_def demo_session_def)
  with f show ?thesis by (auto simp: demo_receiver_def)
qed

end
