(* ===== verification/Materializer.thy ===== *)
theory Materializer
  imports Conversations
begin

text \<open>
  \<open>toMessages\<close> of web/src/hooks/useChat.ts: the bubbles of a chat from its stored rows. The
  function throws when a media key or iv is not base64url, so its result is a sum. The theorems
  say which amendments count, and relate the last bubble to the conversation summary that
  web/src/lib/db.ts computes on its own.
\<close>

record ui_message =
  um_id :: string
  um_text :: string
  um_timestamp :: int
  um_sent :: bool
  um_media :: "media_file option"
  um_editedAt :: "int option"
  um_deleted :: bool

fun map_result :: "('a \<Rightarrow> 'e + 'b) \<Rightarrow> 'a list \<Rightarrow> 'e + 'b list" where
  "map_result f [] = Inr []"
| "map_result f (x # xs) =
     (case f x of Inl e \<Rightarrow> Inl e
      | Inr y \<Rightarrow> (case map_result f xs of Inl e \<Rightarrow> Inl e | Inr ys \<Rightarrow> Inr (y # ys)))"

definition decode_preview :: "preview_ref \<Rightarrow> decoded_preview option" where
  "decode_preview p =
     (case (base64UrlDecode (pr_key p), base64UrlDecode (pr_iv p)) of
        (Some k, Some i) \<Rightarrow>
          Some \<lparr>dp_url = pr_url p, dp_key = k, dp_iv = i, dp_width = pr_width p, dp_height = pr_height p\<rparr>
      | _ \<Rightarrow> None)"

definition decode_media :: "parsed_media_file \<Rightarrow> media_file option" where
  "decode_media f =
     (case (base64UrlDecode (pf_key f), base64UrlDecode (pf_iv f)) of
        (Some k, Some i) \<Rightarrow>
          (case pf_preview f of
             None \<Rightarrow> Some \<lparr>mf_url = pf_url f, mf_key = k, mf_iv = i, mf_name = pf_name f,
                           mf_size = pf_size f, mf_extras = pf_extras f, mf_preview = None\<rparr>
           | Some p \<Rightarrow> map_option (\<lambda>dp. \<lparr>mf_url = pf_url f, mf_key = k, mf_iv = i, mf_name = pf_name f,
                           mf_size = pf_size f, mf_extras = pf_extras f, mf_preview = Some dp\<rparr>)
                         (decode_preview p))
      | _ \<Rightarrow> None)"

definition base_message :: "string \<Rightarrow> stored_message \<Rightarrow> js_error + ui_message" where
  "base_message userId m =
     (let base = \<lparr>um_id = sm_id m,
                  um_text = (case sm_inner m of PText b \<Rightarrow> b | PMedia b _ \<Rightarrow> b | _ \<Rightarrow> []),
                  um_timestamp = sm_timestamp m, um_sent = (sm_fromUser m = userId),
                  um_media = None, um_editedAt = None, um_deleted = False\<rparr>
      in case sm_inner m of
           PMedia _ f \<Rightarrow> (case decode_media f of
               None \<Rightarrow> Inl InvalidCharacterError
             | Some mf \<Rightarrow> Inr (base\<lparr>um_media := Some mf\<rparr>))
         | _ \<Rightarrow> Inr base)"

fun apply_chain :: "string \<Rightarrow> ui_message \<Rightarrow> stored_message list \<Rightarrow> ui_message" where
  "apply_chain sender base [] = base"
| "apply_chain sender base (am # chain) =
     (case sm_inner am of
        PAmendment _ action body \<Rightarrow>
          (if sm_fromUser am \<noteq> sender then apply_chain sender base chain
           else if action = ''delete''
             then base\<lparr>um_deleted := True, um_text := [], um_media := None\<rparr>
           else if action = ''edit'' then
             (case body of
                None \<Rightarrow> apply_chain sender base chain
              | Some b \<Rightarrow>
                  (if um_media base \<noteq> None \<and> um_text base = [] then apply_chain sender base chain
                   else apply_chain sender
                          (base\<lparr>um_text := b, um_editedAt := Some (sm_timestamp am)\<rparr>) chain))
           else apply_chain sender base chain)
      | _ \<Rightarrow> apply_chain sender base chain)"

definition materialize :: "(string \<times> stored_message list) list \<Rightarrow> string \<Rightarrow> stored_message \<Rightarrow> js_error + ui_message" where
  "materialize amendmentsByTarget userId m =
     (case base_message userId m of
        Inl e \<Rightarrow> Inl e
      | Inr base \<Rightarrow> Inr (apply_chain (sm_fromUser m) base
          (sort_key sm_id (opt_or (map_of amendmentsByTarget (sm_id m)) []))))"

definition toMessages :: "stored_message list \<Rightarrow> string \<Rightarrow> js_error + ui_message list" where
  "toMessages msgs userId =
     (let (amendmentsByTarget, originals) = partition_rows sm_inner msgs
      in map_result (materialize amendmentsByTarget userId) originals)"

section \<open>The two passes\<close>

definition bubble_of :: "stored_message list \<Rightarrow> string \<Rightarrow> stored_message \<Rightarrow> js_error + ui_message" where
  "bubble_of msgs userId m =
     (case base_message userId m of
        Inl e \<Rightarrow> Inl e
      | Inr base \<Rightarrow> Inr (apply_chain (sm_fromUser m) base
          (sort_key sm_id (filter (\<lambda>a. amends (sm_id m) (sm_inner a)) msgs))))"

lemma toMessages_bubbles:
  "toMessages msgs u = map_result (bubble_of msgs u) (filter (\<lambda>m. is_original (sm_inner m)) msgs)"
proof -
  have "materialize (fst (partition_rows sm_inner msgs)) u = bubble_of msgs u"
    by (rule ext) (simp only: materialize_def bubble_of_def partition_rows)
  then show ?thesis
    by (simp add: toMessages_def case_prod_beta partition_rows)
qed

lemma map_result_Inr: "map_result f xs = Inr ys \<longleftrightarrow> map f xs = map Inr ys"
proof (induction xs arbitrary: ys)
  case (Cons x xs)
  show ?case
  proof (cases "f x")
    case (Inr y)
    then show ?thesis
      using Cons by (cases ys; cases "map_result f xs") auto
  qed (cases ys; simp)
qed auto

lemma map_result_Inl: "(\<exists>e. map_result f xs = Inl e) \<longleftrightarrow> (\<exists>x \<in> set xs. \<exists>e. f x = Inl e)"
  by (induction xs) (auto split: sum.splits)

lemma map_result_cong: "(\<And>x. x \<in> set xs \<Longrightarrow> f x = g x) \<Longrightarrow> map_result f xs = map_result g xs"
  by (induction xs) (auto split: sum.splits)

lemma apply_chain_id [simp]:
  "um_id (apply_chain s b ch) = um_id b" "um_timestamp (apply_chain s b ch) = um_timestamp b"
  "um_sent (apply_chain s b ch) = um_sent b"
  by (induction s b ch rule: apply_chain.induct) (simp_all split: parsed_inner.splits option.splits)

lemma bubble_of_head:
  assumes "bubble_of msgs u m = Inr b"
  shows "um_id b = sm_id m \<and> um_timestamp b = sm_timestamp m \<and> um_sent b = (sm_fromUser m = u)"
  using assms
  by (auto simp: bubble_of_def base_message_def Let_def split: parsed_inner.splits option.splits sum.splits)

text \<open>The timeline has one bubble per original of the history, in the history's order, with its
  id and time, on the side of its sender; amendments and messages of an unknown type have none.\<close>

lemma toMessages_timeline:
  assumes "toMessages msgs u = Inr bubbles"
  shows "map (\<lambda>b. (um_id b, um_timestamp b, um_sent b)) bubbles =
    map (\<lambda>m. (sm_id m, sm_timestamp m, sm_fromUser m = u)) (filter (\<lambda>m. is_original (sm_inner m)) msgs)"
proof -
  have "map (bubble_of msgs u) xs = map Inr bs \<Longrightarrow>
      map (\<lambda>b. (um_id b, um_timestamp b, um_sent b)) bs = map (\<lambda>m. (sm_id m, sm_timestamp m, sm_fromUser m = u)) xs"
    for xs bs
    by (induction xs arbitrary: bs) (auto simp: map_eq_Cons_conv Cons_eq_map_conv dest!: bubble_of_head)
  with assms show ?thesis by (simp add: toMessages_bubbles map_result_Inr)
qed

lemma demo_inner: "sm_inner (stored_of u demo_message) = PText ''hi''"
  by (simp add: sm_inner_def stored_of_def demo_message_def parseInner_def)

lemma demo_bubble:
  "toMessages [stored_of ''U1'' demo_message] ''U1'' =
     Inr [\<lparr>um_id = ''01A'', um_text = ''hi'', um_timestamp = 5, um_sent = False, um_media = None,
           um_editedAt = None, um_deleted = False\<rparr>]"
  by (simp add: toMessages_bubbles demo_inner is_original_def bubble_of_def base_message_def Let_def amends_def)
    (simp add: stored_of_def demo_message_def)

section \<open>Who may amend\<close>

lemma apply_chain_filter:
  "(\<And>am. am \<in> set ch \<Longrightarrow> \<not> keep am \<Longrightarrow> sm_fromUser am \<noteq> s) \<Longrightarrow>
    apply_chain s base (filter keep ch) = apply_chain s base ch"
  by (induction s base ch rule: apply_chain.induct) (auto split: parsed_inner.splits option.splits)

text \<open>An amendment can act only when the history has an original with the target's id from the
  amendment's own sender.\<close>

definition effective :: "stored_message list \<Rightarrow> stored_message \<Rightarrow> bool" where
  "effective msgs m = (case sm_inner m of
      PAmendment t _ _ \<Rightarrow> list_ex (\<lambda>orig. is_original (sm_inner orig) \<and> sm_id orig = t \<and> sm_fromUser orig = sm_fromUser m) msgs
    | _ \<Rightarrow> True)"

text \<open>C23: amendment authorization. Orphan amendments and amendments by anyone but the original's
  sender have no effect at all on the chat: the timeline is the one of the history without them.\<close>

theorem toMessages_only_effective:
  "toMessages (filter (effective msgs) msgs) u = toMessages msgs u"
proof -
  let ?orig = "\<lambda>m. is_original (sm_inner m)"
  have orig: "filter ?orig (filter (effective msgs) msgs) = filter ?orig msgs"
    by (auto simp: effective_def is_original_def intro!: filter_cong split: parsed_inner.splits)
  have "bubble_of (filter (effective msgs) msgs) u m = bubble_of msgs u m"
    if m: "m \<in> set (filter ?orig msgs)" for m
  proof -
    let ?ch = "filter (\<lambda>a. amends (sm_id m) (sm_inner a)) msgs"
    have "filter (\<lambda>a. amends (sm_id m) (sm_inner a)) (filter (effective msgs) msgs) = filter (effective msgs) ?ch"
      by (auto intro: filter_cong)
    moreover have "apply_chain (sm_fromUser m) b (filter (effective msgs) (sort_key sm_id ?ch)) =
        apply_chain (sm_fromUser m) b (sort_key sm_id ?ch)" for b
      using m by (intro apply_chain_filter)
        (auto simp: effective_def amends_def list_ex_iff split: parsed_inner.splits)
    ultimately show ?thesis
      by (simp add: bubble_of_def filter_sort split: sum.splits)
  qed
  then show ?thesis
    unfolding toMessages_bubbles orig by (rule map_result_cong)
qed

section \<open>Deletes and edits\<close>

lemma apply_chain_deleted:
  assumes "d \<in> set ch" and "sm_fromUser d = s" and "sm_inner d = PAmendment t ''delete'' b"
  shows "um_deleted (apply_chain s base ch) \<and> um_text (apply_chain s base ch) = []
    \<and> um_media (apply_chain s base ch) = None"
  using assms
  by (induction s base ch rule: apply_chain.induct) (auto split: parsed_inner.splits option.splits)

lemma apply_chain_not_deleted:
  "(\<And>d t b. d \<in> set ch \<Longrightarrow> sm_fromUser d = s \<Longrightarrow> sm_inner d \<noteq> PAmendment t ''delete'' b) \<Longrightarrow>
    \<not> um_deleted base \<Longrightarrow> \<not> um_deleted (apply_chain s base ch) \<and> um_media (apply_chain s base ch) = um_media base"
  by (induction s base ch rule: apply_chain.induct) (auto split: parsed_inner.splits option.splits)

text \<open>The deletes of a message: amendments with action delete by its own sender.\<close>

definition deletes_of :: "stored_message list \<Rightarrow> stored_message \<Rightarrow> stored_message list" where
  "deletes_of msgs m = filter (\<lambda>d. sm_fromUser d = sm_fromUser m
     \<and> (case sm_inner d of PAmendment t a _ \<Rightarrow> t = sm_id m \<and> a = ''delete'' | _ \<Rightarrow> False)) msgs"

lemma bubble_deleted:
  assumes "bubble_of msgs u m = Inr b"
  shows "(um_deleted b \<longleftrightarrow> deletes_of msgs m \<noteq> []) \<and> (um_deleted b \<longrightarrow> um_text b = [] \<and> um_media b = None)"
proof -
  let ?ch = "sort_key sm_id (filter (\<lambda>a. amends (sm_id m) (sm_inner a)) msgs)"
  obtain base where base: "base_message u m = Inr base" "b = apply_chain (sm_fromUser m) base ?ch"
    using assms by (auto simp: bubble_of_def split: sum.splits)
  have nd: "\<not> um_deleted base"
    using base(1) by (auto simp: base_message_def Let_def split: parsed_inner.splits option.splits)
  show ?thesis
  proof (cases "deletes_of msgs m")
    case Nil
    then have "sm_inner d \<noteq> PAmendment t ''delete'' bo" if "d \<in> set ?ch" "sm_fromUser d = sm_fromUser m" for d t bo
      using that by (auto simp: deletes_of_def filter_empty_conv amends_def)
    with nd Nil base show ?thesis using apply_chain_not_deleted [of ?ch "sm_fromUser m" base] by blast
  next
    case (Cons d ds)
    then have "d \<in> set (deletes_of msgs m)" by simp
    then obtain t bo where "d \<in> set ?ch" "sm_fromUser d = sm_fromUser m" "sm_inner d = PAmendment t ''delete'' bo"
      by (auto simp: deletes_of_def amends_def split: parsed_inner.splits)
    from apply_chain_deleted [OF this, of base] base Cons show ?thesis by simp
  qed
qed

text \<open>A delete is terminal. A bubble is deleted exactly when its sender sent a delete for it, at
  whatever position of the history and whatever edits come before or after, and then neither its
  text nor its media is shown.\<close>

lemma toMessages_delete_terminal:
  assumes "toMessages msgs u = Inr bubbles" and "i < length bubbles"
  shows "(um_deleted (bubbles ! i) \<longleftrightarrow> deletes_of msgs (filter (\<lambda>m. is_original (sm_inner m)) msgs ! i) \<noteq> [])
    \<and> (um_deleted (bubbles ! i) \<longrightarrow> um_text (bubbles ! i) = [] \<and> um_media (bubbles ! i) = None)"
proof -
  have eq: "map (bubble_of msgs u) (filter (\<lambda>m. is_original (sm_inner m)) msgs) = map Inr bubbles"
    using assms(1) by (simp add: toMessages_bubbles map_result_Inr)
  then have "length (filter (\<lambda>m. is_original (sm_inner m)) msgs) = length bubbles"
    by (metis length_map)
  with eq assms(2) have "bubble_of msgs u (filter (\<lambda>m. is_original (sm_inner m)) msgs ! i) = Inr (bubbles ! i)"
    by (metis nth_map)
  then show ?thesis by (rule bubble_deleted)
qed

text \<open>One undecodable media message takes the whole chat down. When any original of the history
  is media whose key or iv is not base64url (a peer chooses both), \<open>toMessages\<close> throws and no
  message of the conversation is shown; the parser accepts such a message.\<close>

lemma toMessages_undecodable_media:
  assumes "m \<in> set msgs" and "sm_inner m = PMedia body f"
    and "base64UrlDecode (pf_key f) = None \<or> base64UrlDecode (pf_iv f) = None"
  shows "\<exists>e. toMessages msgs u = Inl e"
proof -
  have "decode_media f = None"
    using assms(3) by (auto simp: decode_media_def split: option.splits)
  then have "bubble_of msgs u m = Inl InvalidCharacterError"
    using assms(2) by (simp add: bubble_of_def base_message_def)
  moreover have "m \<in> set (filter (\<lambda>m. is_original (sm_inner m)) msgs)"
    using assms(1,2) by (simp add: is_original_def)
  ultimately show ?thesis unfolding toMessages_bubbles map_result_Inl by blast
qed

definition demo_broken :: stored_message where
  "demo_broken = \<lparr>sm_id = ''01B'', sm_userId = ''U1'', sm_conversationId = ''dm:U1:U2'', sm_fromUser = ''U2'',
     sm_fromDevice = ''D2'', sm_text = stringify (payload_json (MediaPayload ''x''
       \<lparr>pf_url = ''u'', pf_key = ''!'', pf_iv = ''!'', pf_name = ''n'', pf_size = NInt 1,
        pf_extras = \<lparr>me_mime = None, me_width = None, me_height = None, me_optimized = None\<rparr>,
        pf_preview = None\<rparr>)), sm_timestamp = 6\<rparr>"

lemma demo_broken_inner:
  "sm_inner demo_broken =
   PMedia ''x'' \<lparr>pf_url = ''u'', pf_key = ''!'', pf_iv = ''!'', pf_name = ''n'', pf_size = NInt 1,
        pf_extras = \<lparr>me_mime = None, me_width = None, me_height = None, me_optimized = None\<rparr>,
        pf_preview = None\<rparr>"
  by (simp add: sm_inner_def demo_broken_def parseInner_payload media_file_ok_def del: payload_json.simps)

lemma undecodable_key: "base64UrlDecode ''!'' = None"
  by code_simp

section \<open>The conversation summary and the last bubble\<close>

lemma sort_key_perm:
  assumes "mset xs = mset ys" and "distinct (map f xs)"
  shows "sort_key f xs = sort_key f ys"
proof (rule sort_key_inj_key_eq)
  show "mset xs = mset (sort_key f ys)" using assms(1) by simp
  show "inj_on f (set xs)" using assms(2) by (simp add: distinct_map)
  show "sorted (map f (sort_key f ys))" by simp
qed

lemma latest_unique:
  assumes "ms \<noteq> []" and "distinct (map sm_id ms)" and "x \<in> set ms"
    and "\<And>y. y \<in> set ms \<Longrightarrow> order_key y \<le> order_key x"
  shows "latest_of ms = x"
proof -
  have "order_key (latest_of ms) = order_key x"
    using assms latest_of_max [OF assms(1)] by (meson order.antisym)
  then have "sm_id (latest_of ms) = sm_id x" by (simp add: order_key_def)
  with assms(2,3) latest_of_max(1) [OF assms(1)] show ?thesis
    by (meson distinct_map inj_onD)
qed

text \<open>The chain loop of the summary and the one of the materializer agree on a text or media
  original.\<close>

definition is_delete :: "string \<Rightarrow> stored_message \<Rightarrow> bool" where
  "is_delete s am \<longleftrightarrow> sm_fromUser am = s
     \<and> (case sm_inner am of PAmendment _ a _ \<Rightarrow> a = ''delete'' | _ \<Rightarrow> False)"

lemma summary_chain_deleted: "fst (summary_chain m ed ch) \<longleftrightarrow> list_ex (is_delete (sm_fromUser m)) ch"
proof (induction ch arbitrary: ed)
  case (Cons a ch)
  then show ?case by (cases "sm_inner a") (auto simp: is_delete_def)
qed simp

lemma apply_chain_deleted_iff: "um_deleted (apply_chain s b ch) \<longleftrightarrow> um_deleted b \<or> list_ex (is_delete s) ch"
proof (induction ch arbitrary: b)
  case (Cons a ch)
  then show ?case by (cases "sm_inner a") (auto simp: is_delete_def split: option.splits)
qed simp

lemma chain_deleted:
  "\<not> um_deleted b \<Longrightarrow> fst (summary_chain m ed ch) = um_deleted (apply_chain (sm_fromUser m) b ch)"
  by (simp add: summary_chain_deleted apply_chain_deleted_iff)

lemma chain_edited:
  "sm_inner m = PText t \<Longrightarrow> um_media b = None \<Longrightarrow> \<not> fst (summary_chain m ed ch) \<Longrightarrow> um_text b = opt_or ed t \<Longrightarrow>
    um_text (apply_chain (sm_fromUser m) b ch) = opt_or (snd (summary_chain m ed ch)) t"
  by (induction m ed ch arbitrary: b rule: summary_chain.induct)
    (auto split: parsed_inner.splits option.splits if_splits)

lemma chain_media: "sm_inner m = PMedia t f \<Longrightarrow> snd (summary_chain m ed ch) = ed"
  by (induction m ed ch rule: summary_chain.induct) (auto split: parsed_inner.splits option.splits)

definition preview_matches :: "summary \<Rightarrow> stored_message \<Rightarrow> ui_message \<Rightarrow> bool" where
  "preview_matches su m b \<longleftrightarrow> su_lastMessageTimestamp su = um_timestamp b
     \<and> su_lastMessageDeleted su = um_deleted b
     \<and> (if um_deleted b then su_lastMessageText su = []
        else case sm_inner m of
            PText _ \<Rightarrow> parseInner (su_lastMessageText su) = PText (um_text b)
          | _ \<Rightarrow> su_lastMessageText su = sm_text m)"

lemma parseInner_edited: "parseInner (stringify (JObj [(''type'', JStr ''text''), (''body'', JStr b)])) = PText b"
  using parseInner_payload [of "TextPayload b"] by simp

lemma summary_bubble:
  assumes "bubble_of msgs u m = Inr b" and "is_original (sm_inner m)"
    and "ch = sort_key sm_id (filter (\<lambda>a. amends (sm_id m) (sm_inner a)) msgs)"
    and "summary_chain m None ch = (deleted, edited)"
  shows "preview_matches (if deleted
     then \<lparr>su_lastMessageText = [], su_lastMessageTimestamp = sm_timestamp m, su_lastMessageDeleted = True\<rparr>
     else \<lparr>su_lastMessageText = (case edited of
              Some b \<Rightarrow> stringify (JObj [(''type'', JStr ''text''), (''body'', JStr b)])
            | None \<Rightarrow> sm_text m),
           su_lastMessageTimestamp = sm_timestamp m, su_lastMessageDeleted = False\<rparr>) m b"
proof -
  obtain base where base: "base_message u m = Inr base" "b = apply_chain (sm_fromUser m) base ch"
    using assms(1,3) by (auto simp: bubble_of_def split: sum.splits)
  have nd: "\<not> um_deleted base" and ts: "um_timestamp b = sm_timestamp m"
    using base(1) bubble_of_head [OF assms(1)]
    by (auto simp: base_message_def Let_def split: parsed_inner.splits option.splits)
  have del: "um_deleted b = deleted"
    using chain_deleted [OF nd, of m None ch] base(2) assms(4) by simp
  show ?thesis
  proof (cases "sm_inner m")
    case (PText t)
    have "\<not> deleted \<Longrightarrow> um_text b = opt_or edited t"
      using chain_edited [OF PText, of base None ch] base PText assms(4)
      by (auto simp: base_message_def Let_def)
    with PText del ts show ?thesis
      by (auto simp: preview_matches_def parseInner_edited sm_inner_def split: option.splits simp del: stringify.simps)
  next
    case (PMedia t f)
    then have "edited = None" using chain_media [OF PMedia, of None ch] assms(4) by simp
    with PMedia del ts show ?thesis by (auto simp: preview_matches_def)
  qed (use assms(2) in \<open>simp_all add: is_original_def\<close>)
qed

text \<open>C4: the chat list and the chat agree. \<open>summarizeConversation\<close> over a conversation's messages
  in any order and \<open>toMessages\<close> over the same messages in timeline order give the same last
  message: the same time, deleted in both or in neither, and otherwise the same text after edits
  (read back through the JSON text of the summary).\<close>

theorem summary_matches_last_bubble:
  assumes "mset stored = mset timeline"
    and "sorted_wrt (\<lambda>a b. order_key a < order_key b) timeline" and "distinct (map sm_id timeline)"
    and "toMessages timeline u = Inr bubbles" and "summarizeConversation stored = Some su"
  shows "bubbles \<noteq> []
    \<and> preview_matches su (last (filter (\<lambda>m. is_original (sm_inner m)) timeline)) (last bubbles)"
proof -
  let ?o = "\<lambda>m. is_original (sm_inner m)"
  define x where "x = last (filter ?o timeline)"
  have eq: "map (bubble_of timeline u) (filter ?o timeline) = map Inr bubbles"
    using assms(4) by (simp add: toMessages_bubbles map_result_Inr)
  have perm: "mset (filter p stored) = mset (filter p timeline)" for p
    using assms(1) by simp
  have ne: "filter ?o stored \<noteq> []" and set_eq: "set stored = set timeline"
    using assms(1,5) by (auto simp: summarizeConversation_def partition_rows case_prod_beta split: if_splits dest: mset_eq_setD)
  then have ne': "filter ?o timeline \<noteq> []" using perm [of ?o] by (metis mset_zero_iff)
  have ids: "distinct (map sm_id stored)" using assms(1,3) by (metis mset_map mset_eq_imp_distinct_iff)
  have x: "x \<in> set (filter ?o timeline)" unfolding x_def using ne' by (rule last_in_set)
  have top: "order_key y \<le> order_key x" if "y \<in> set (filter ?o timeline)" for y
  proof -
    have "sorted_wrt (\<lambda>a b. order_key a < order_key b) (butlast (filter ?o timeline) @ [x])"
      using assms(2) ne' by (simp add: x_def sorted_wrt_filter)
    moreover have "y \<in> set (butlast (filter ?o timeline)) \<or> y = x"
      using that ne' by (metis append_butlast_last_id in_set_conv_decomp insert_iff list.simps(15) set_append Un_iff x_def empty_iff list.set(1))
    ultimately show ?thesis by (auto simp: sorted_wrt_append less_imp_le)
  qed
  have latest: "latest_of (filter ?o stored) = x"
    using ne ids x top set_eq by (intro latest_unique) (auto simp: distinct_map_filter)
  let ?ch = "sort_key sm_id (filter (\<lambda>a. amends (sm_id x) (sm_inner a)) timeline)"
  have chain: "sort_key sm_id (filter (\<lambda>a. amends (sm_id x) (sm_inner a)) stored) = ?ch"
    using perm ids by (intro sort_key_perm) (auto simp: distinct_map_filter)
  have bne: "bubbles \<noteq> []" using eq ne' by auto
  have last: "bubble_of timeline u x = Inr (last bubbles)"
    using arg_cong [OF eq, of last] unfolding last_map [OF ne'] last_map [OF bne] x_def .
  obtain deleted edited where sc: "summary_chain x None ?ch = (deleted, edited)" by force
  have "su = (if deleted
     then \<lparr>su_lastMessageText = [], su_lastMessageTimestamp = sm_timestamp x, su_lastMessageDeleted = True\<rparr>
     else \<lparr>su_lastMessageText = (case edited of
              Some b \<Rightarrow> stringify (JObj [(''type'', JStr ''text''), (''body'', JStr b)])
            | None \<Rightarrow> sm_text x),
           su_lastMessageTimestamp = sm_timestamp x, su_lastMessageDeleted = False\<rparr>)"
    using assms(5) ne
    by (cases deleted)
      (simp_all add: summarizeConversation_def partition_rows case_prod_beta Let_def latest chain sc del: stringify.simps)
  with summary_bubble [OF last _ refl sc] x bne show ?thesis
    by (simp add: x_def)
qed

theorem summary_matches_last_bubble_witness:
  "\<exists>su b. summarizeConversation [stored_of ''U1'' demo_message] = Some su
     \<and> preview_matches su (stored_of ''U1'' demo_message) b \<and> um_text b = ''hi''"
proof -
  obtain su where su: "summarizeConversation [stored_of ''U1'' demo_message] = Some su"
    by (simp add: summarizeConversation_def partition_rows demo_inner is_original_def case_prod_beta Let_def)
  from summary_matches_last_bubble [OF refl _ _ demo_bubble su] su show ?thesis
    by (auto simp: demo_inner is_original_def)
qed

end
