(* ===== verification/Image.thy ===== *)
theory Image
  imports Complex_Main Prelude
begin

text \<open>
  web/src/lib/image.ts: the scaling and re-encoding of photos before they are sent. The image codec
  (\<open>createImageBitmap\<close> and a canvas) is a parameter, and so is the rounding of a double: \<open>im_double\<close>
  takes the exact result of an operation to the number the engine stores. \<open>Math.round\<close> is the floor
  of a number plus one half.
\<close>

record image_codec =
  im_size :: "bytes \<Rightarrow> (nat \<times> nat) option"
  im_jpeg :: "bytes \<Rightarrow> nat \<Rightarrow> nat \<Rightarrow> rat \<Rightarrow> bytes option"
  im_double :: "rat \<Rightarrow> rat"

definition OPTIMIZED_MAX_EDGE :: nat where
  "OPTIMIZED_MAX_EDGE = 2048"

definition OPTIMIZED_QUALITY :: rat where
  "OPTIMIZED_QUALITY = 8 / 10"

definition PREVIEW_MAX_EDGE :: nat where
  "PREVIEW_MAX_EDGE = 512"

definition PREVIEW_TARGET_BYTES :: nat where
  "PREVIEW_TARGET_BYTES = 50 * 1024"

definition PREVIEW_THRESHOLD_BYTES :: nat where
  "PREVIEW_THRESHOLD_BYTES = 100 * 1024"

definition PREVIEW_THRESHOLD_EDGE :: nat where
  "PREVIEW_THRESHOLD_EDGE = 1024"

definition PREVIEW_QUALITY_STEPS :: "rat list" where
  "PREVIEW_QUALITY_STEPS = [7 / 10, 5 / 10, 4 / 10]"

record reencoded =
  re_blob :: bytes
  re_width :: nat
  re_height :: nat

definition isOptimizableImage :: "string \<Rightarrow> bool" where
  "isOptimizableImage type \<longleftrightarrow> type \<in> set [''image/jpeg'', ''image/png'', ''image/webp'']"

section \<open>Scaling\<close>

definition math_round :: "rat \<Rightarrow> int" where
  "math_round x = \<lfloor>x + 1 / 2\<rfloor>"

definition scale_edge :: "image_codec \<Rightarrow> nat \<Rightarrow> nat \<Rightarrow> nat \<Rightarrow> nat" where
  "scale_edge I maxEdge longest x =
     max 1 (nat (math_round (im_double I (of_nat x * im_double I (of_nat maxEdge / of_nat longest)))))"

definition fitWithin :: "image_codec \<Rightarrow> nat \<Rightarrow> nat \<Rightarrow> nat \<Rightarrow> nat \<times> nat" where
  "fitWithin I w h maxEdge =
     (let longest = max w h in
      if longest \<le> maxEdge then (w, h)
      else (scale_edge I maxEdge longest w, scale_edge I maxEdge longest h))"

text \<open>What IEEE 754 promises of an operation on positive numbers in the normal range: a relative error
  of at most \<open>2 ^ -53\<close>.\<close>

definition double_law :: "image_codec \<Rightarrow> bool" where
  "double_law I \<longleftrightarrow> (\<forall>x. 0 \<le> x \<longrightarrow> \<bar>im_double I x - x\<bar> \<le> x / 2 ^ 53)"

lemma double_law_scaled:
  assumes "double_law I" and "0 < longest" and "x \<le> longest" and "maxEdge \<le> 2 ^ 40"
  shows "\<bar>im_double I (of_nat x * im_double I (of_nat maxEdge / of_nat longest)) - of_nat x * (of_nat maxEdge / of_nat longest)\<bar> < 1 / 4"
proof -
  define s :: rat where "s = of_nat maxEdge / of_nat longest"
  define t where "t = im_double I s"
  define u :: rat where "u = 2 ^ 53"
  have u: "0 < u" by (simp add: u_def)
  have s0: "0 \<le> s" by (simp add: s_def)
  have xs: "of_nat x * s \<le> 2 ^ 40"
  proof -
    have "of_nat x * s = of_nat maxEdge * (of_nat x / of_nat longest)" by (simp add: s_def)
    also have "\<dots> \<le> of_nat maxEdge * 1" using assms(2,3) by (intro mult_left_mono) simp_all
    also have "\<dots> \<le> 2 ^ 40" using assms(4) by (metis mult.right_neutral of_nat_le_iff of_nat_numeral of_nat_power)
    finally show ?thesis .
  qed
  have t1: "\<bar>t - s\<bar> \<le> s / u" using assms(1) s0 by (simp add: double_law_def t_def u_def)
  then have "t \<le> s + s / u" "s - s / u \<le> t" by (simp_all add: abs_le_iff)
  moreover have "s / u \<le> s" using s0 u by (simp add: u_def divide_le_eq mult_left_mono)
  ultimately have t0: "0 \<le> t" "t \<le> 2 * s" by linarith+
  have a: "\<bar>im_double I (of_nat x * t) - of_nat x * t\<bar> \<le> of_nat x * t / u"
    using assms(1) t0 by (simp add: double_law_def u_def)
  have b: "\<bar>of_nat x * t - of_nat x * s\<bar> \<le> of_nat x * s / u"
  proof -
    have "\<bar>of_nat x * t - of_nat x * s\<bar> = of_nat x * \<bar>t - s\<bar>" by (simp add: abs_mult right_diff_distrib [symmetric])
    also have "\<dots> \<le> of_nat x * (s / u)" using t1 by (intro mult_left_mono) simp_all
    finally show ?thesis by simp
  qed
  have "of_nat x * t / u \<le> 2 * (of_nat x * s) / u"
    using t0 u by (intro divide_right_mono) (simp_all add: mult.left_commute mult_left_mono)
  then have "\<bar>im_double I (of_nat x * t) - of_nat x * s\<bar> \<le> 3 * (of_nat x * s) / u"
    using a b by (simp add: add_divide_distrib [symmetric])
  also have "\<dots> \<le> 3 * 2 ^ 40 / u" using xs u by (intro divide_right_mono mult_left_mono) simp_all
  also have "\<dots> < 1 / 4" by (simp add: u_def)
  finally show ?thesis by (simp add: s_def t_def)
qed

lemma scale_edge_bounds:
  assumes "double_law I" and "maxEdge < longest" and "1 \<le> x" and "x \<le> longest" and "1 \<le> maxEdge" and "maxEdge \<le> 2 ^ 40"
  shows "1 \<le> scale_edge I maxEdge longest x \<and> scale_edge I maxEdge longest x \<le> maxEdge \<and> scale_edge I maxEdge longest x \<le> x
    \<and> \<bar>of_nat (scale_edge I maxEdge longest x) - of_nat x * of_nat maxEdge / (of_nat longest :: rat)\<bar> \<le> 1"
proof -
  define y where "y = im_double I (of_nat x * im_double I (of_nat maxEdge / of_nat longest))"
  define r :: rat where "r = of_nat x * (of_nat maxEdge / of_nat longest)"
  define n where "n = math_round y"
  have l: "0 < longest" using assms(2) by simp
  have yr: "\<bar>y - r\<bar> < 1 / 4" using double_law_scaled [OF assms(1) l assms(4,6)] by (simp add: y_def r_def)
  have r0: "0 \<le> r" by (simp add: r_def)
  have "of_nat maxEdge * (of_nat x / of_nat longest) \<le> of_nat maxEdge * (1 :: rat)"
    using assms(4) l by (intro mult_left_mono) simp_all
  then have re: "r \<le> of_nat maxEdge" by (simp add: r_def mult.commute)
  have "of_nat x * (of_nat maxEdge / of_nat longest) \<le> of_nat x * (1 :: rat)"
    using assms(2) by (intro mult_left_mono) simp_all
  then have rx: "r \<le> of_nat x" by (simp add: r_def)
  have n: "of_int n \<le> y + 1 / 2" "y + 1 / 2 < of_int n + 1"
    unfolding n_def math_round_def by linarith+
  have "y - r < 1 / 4" "- (y - r) < 1 / 4" using yr unfolding abs_less_iff by blast+
  then have ne: "of_int n < r + 3 / 4" "r - 3 / 4 < of_int n" using n by linarith+
  have "of_int n < (of_int (int maxEdge) + 1 :: rat)" using ne(1) re by simp
  then have n1: "n \<le> int maxEdge" by (metis of_int_1 of_int_add of_int_less_iff zle_add1_eq_le)
  have "of_int n < (of_int (int x) + 1 :: rat)" using ne(1) rx by simp
  then have n2: "n \<le> int x" by (metis of_int_1 of_int_add of_int_less_iff zle_add1_eq_le)
  have k: "scale_edge I maxEdge longest x = max 1 (nat n)" by (simp add: scale_edge_def n_def y_def)
  have "\<bar>of_nat (max 1 (nat n)) - r\<bar> \<le> 1"
  proof (cases "n \<le> 0")
    case True
    then have "of_int n \<le> (0 :: rat)" by simp
    then have "r < 3 / 4" using ne(2) by linarith
    then show ?thesis using True r0 by (simp add: max_def abs_le_iff)
  next
    case False
    then have "max 1 (nat n) = nat n" by simp
    moreover have "of_nat (nat n) = (of_int n :: rat)" using False by simp
    ultimately show ?thesis using ne by (simp add: abs_le_iff)
  qed
  moreover have "max 1 (nat n) \<le> maxEdge" "max 1 (nat n) \<le> x" using n1 n2 assms(3,5) by auto
  ultimately show ?thesis by (simp add: k r_def)
qed

text \<open>An optimized image fits and is never enlarged. For any source size and any engine whose doubles
  keep IEEE's error bound, both edges of \<open>fitWithin\<close> are between 1 and the source's, at most
  \<open>maxEdge\<close>, within one pixel of the exact proportion when the image is scaled, and fitting again
  changes nothing.\<close>

lemma fitWithin_bounds:
  assumes "double_law I" and "1 \<le> w" and "1 \<le> h" and "1 \<le> maxEdge" and "maxEdge \<le> 2 ^ 40"
    and "fitWithin I w h maxEdge = (w', h')"
  shows "1 \<le> w' \<and> w' \<le> w \<and> w' \<le> maxEdge \<and> 1 \<le> h' \<and> h' \<le> h \<and> h' \<le> maxEdge
    \<and> fitWithin I w' h' maxEdge = (w', h')
    \<and> (if max w h \<le> maxEdge then w' = w \<and> h' = h
       else \<bar>of_nat w' - of_nat w * of_nat maxEdge / (of_nat (max w h) :: rat)\<bar> \<le> 1
         \<and> \<bar>of_nat h' - of_nat h * of_nat maxEdge / (of_nat (max w h) :: rat)\<bar> \<le> 1)"
proof (cases "max w h \<le> maxEdge")
  case True
  then show ?thesis using assms by (simp add: fitWithin_def Let_def)
next
  case False
  then have l: "maxEdge < max w h" by (simp only: not_le)
  have e: "w' = scale_edge I maxEdge (max w h) w" "h' = scale_edge I maxEdge (max w h) h"
    using assms(6) False by (auto simp: fitWithin_def Let_def split: if_splits)
  have "w \<le> max w h" "h \<le> max w h" by simp_all
  then have bw: "1 \<le> w' \<and> w' \<le> maxEdge \<and> w' \<le> w \<and> \<bar>of_nat w' - of_nat w * of_nat maxEdge / (of_nat (max w h) :: rat)\<bar> \<le> 1"
    and bh: "1 \<le> h' \<and> h' \<le> maxEdge \<and> h' \<le> h \<and> \<bar>of_nat h' - of_nat h * of_nat maxEdge / (of_nat (max w h) :: rat)\<bar> \<le> 1"
    using scale_edge_bounds [OF assms(1) l assms(2) _ assms(4,5)] scale_edge_bounds [OF assms(1) l assms(3) _ assms(4,5)]
    unfolding e by blast+
  then have "fitWithin I w' h' maxEdge = (w', h')" by (simp add: fitWithin_def Let_def)
  with bw bh False show ?thesis by auto
qed

definition demo_codec :: image_codec where
  "demo_codec = \<lparr>im_size = (\<lambda>_. Some (4000, 3000)), im_jpeg = (\<lambda>src w h q. Some (replicate (w div 8) (CHR ''j''))), im_double = (\<lambda>x. x)\<rparr>"

section \<open>Re-encoding\<close>

definition needsPreview :: "nat \<Rightarrow> nat \<Rightarrow> nat \<Rightarrow> bool" where
  "needsPreview fullBytes width height \<longleftrightarrow> fullBytes > PREVIEW_THRESHOLD_BYTES \<or> max width height > PREVIEW_THRESHOLD_EDGE"

definition reencodeImage :: "image_codec \<Rightarrow> bytes \<Rightarrow> nat \<Rightarrow> rat \<Rightarrow> js_error + reencoded" where
  "reencodeImage I src maxEdge quality =
     (case im_size I src of
        None \<Rightarrow> Inl (JsError ''createImageBitmap'')
      | Some (bw, bh) \<Rightarrow>
          (let (width, height) = fitWithin I bw bh maxEdge in
           case im_jpeg I src width height quality of
             None \<Rightarrow> Inl (JsError ''canvas.toBlob returned null'')
           | Some blob \<Rightarrow> Inr \<lparr>re_blob = blob, re_width = width, re_height = height\<rparr>))"

fun preview_steps :: "image_codec \<Rightarrow> bytes \<Rightarrow> rat list \<Rightarrow> reencoded option \<Rightarrow> js_error + reencoded option" where
  "preview_steps I src [] smallest = Inr smallest"
| "preview_steps I src (quality # qs) smallest =
     (case reencodeImage I src PREVIEW_MAX_EDGE quality of
        Inl e \<Rightarrow> Inl e
      | Inr r \<Rightarrow>
          (if length (re_blob r) \<le> PREVIEW_TARGET_BYTES then Inr (Some r)
           else preview_steps I src qs (case smallest of
                 None \<Rightarrow> Some r
               | Some s \<Rightarrow> if length (re_blob r) < length (re_blob s) then Some r else smallest)))"

text \<open>\<open>None\<close> would be the \<open>null\<close> the code's cast rules out.\<close>

definition makePreview :: "image_codec \<Rightarrow> bytes \<Rightarrow> js_error + reencoded option" where
  "makePreview I src = preview_steps I src PREVIEW_QUALITY_STEPS None"

definition imageSize :: "image_codec \<Rightarrow> bytes \<Rightarrow> js_error + (nat \<times> nat)" where
  "imageSize I src = (case im_size I src of None \<Rightarrow> Inl (JsError ''createImageBitmap'') | Some d \<Rightarrow> Inr d)"

text \<open>\<open>b\<close> is the smallest of the rungs \<open>T\<close>, none of which meets the target.\<close>

definition smallest_of :: "image_codec \<Rightarrow> bytes \<Rightarrow> rat set \<Rightarrow> reencoded \<Rightarrow> bool" where
  "smallest_of I src T b \<longleftrightarrow> (\<exists>q \<in> T. reencodeImage I src PREVIEW_MAX_EDGE q = Inr b)
     \<and> (\<forall>q \<in> T. \<exists>r. reencodeImage I src PREVIEW_MAX_EDGE q = Inr r
          \<and> PREVIEW_TARGET_BYTES < length (re_blob r) \<and> length (re_blob b) \<le> length (re_blob r))"

lemma smallest_of_new:
  assumes "reencodeImage I src PREVIEW_MAX_EDGE q = Inr r" and "PREVIEW_TARGET_BYTES < length (re_blob r)"
    and "T = {} \<or> smallest_of I src T b \<and> length (re_blob r) < length (re_blob b)"
  shows "smallest_of I src (insert q T) r"
proof -
  have "\<exists>r'. reencodeImage I src PREVIEW_MAX_EDGE q' = Inr r' \<and> PREVIEW_TARGET_BYTES < length (re_blob r')
      \<and> length (re_blob r) \<le> length (re_blob r')" if "q' \<in> T" for q'
    using assms(3) that unfolding smallest_of_def by (meson empty_iff less_imp_le order_trans)
  with assms(1,2) show ?thesis by (auto simp: smallest_of_def)
qed

lemma smallest_of_old:
  assumes "reencodeImage I src PREVIEW_MAX_EDGE q = Inr r" and "PREVIEW_TARGET_BYTES < length (re_blob r)"
    and "smallest_of I src T b" and "length (re_blob b) \<le> length (re_blob r)"
  shows "smallest_of I src (insert q T) b"
  using assms by (auto simp: smallest_of_def)

lemma preview_steps_spec:
  assumes "preview_steps I src qs s = Inr p"
    and "case s of None \<Rightarrow> T = {} \<and> qs \<noteq> [] | Some b \<Rightarrow> smallest_of I src T b"
  shows "\<exists>r. p = Some r \<and> ((\<exists>q \<in> T \<union> set qs. reencodeImage I src PREVIEW_MAX_EDGE q = Inr r) \<and> length (re_blob r) \<le> PREVIEW_TARGET_BYTES
    \<or> smallest_of I src (T \<union> set qs) r)"
  using assms
proof (induction qs arbitrary: T s)
  case Nil
  then show ?case by (cases s) auto
next
  case (Cons q qs)
  then obtain r where r: "reencodeImage I src PREVIEW_MAX_EDGE q = Inr r" by (auto split: sum.splits)
  show ?case
  proof (cases "length (re_blob r) \<le> PREVIEW_TARGET_BYTES")
    case True
    then show ?thesis using Cons.prems(1) r by auto
  next
    case False
    then have big: "PREVIEW_TARGET_BYTES < length (re_blob r)" by simp
    define s' where "s' = (case s of None \<Rightarrow> Some r | Some b \<Rightarrow> if length (re_blob r) < length (re_blob b) then Some r else s)"
    have p: "preview_steps I src qs s' = Inr p" using Cons.prems(1) r False by (simp add: s'_def)
    have "case s' of None \<Rightarrow> insert q T = {} \<and> qs \<noteq> [] | Some b \<Rightarrow> smallest_of I src (insert q T) b"
    proof (cases s)
      case None
      then show ?thesis using smallest_of_new [OF r big] Cons.prems(2) by (simp add: s'_def)
    next
      case (Some b)
      then have sb: "smallest_of I src T b" using Cons.prems(2) by simp
      show ?thesis
      proof (cases "length (re_blob r) < length (re_blob b)")
        case True
        then show ?thesis using Some smallest_of_new [OF r big, of T b] sb by (simp add: s'_def)
      next
        case False
        then show ?thesis using Some smallest_of_old [OF r big sb] by (simp add: s'_def)
      qed
    qed
    from Cons.IH [OF p this] show ?thesis by simp
  qed
qed

lemma makePreview_rung:
  assumes "makePreview I src = Inr (Some r)"
  shows "\<exists>q. reencodeImage I src PREVIEW_MAX_EDGE q = Inr r"
  using preview_steps_spec [of I src PREVIEW_QUALITY_STEPS None "Some r" "{}"] assms
  by (auto simp: makePreview_def PREVIEW_QUALITY_STEPS_def smallest_of_def)

text \<open>A preview is the first rung under the target, else the smallest rung. \<open>makePreview\<close> never returns
  nothing; what it returns is one of the re-encodings of its quality ladder, within the 512-pixel
  square, and either meets the 50 KB target or none of the rungs does and none is smaller.\<close>

lemma makePreview_spec:
  assumes "makePreview I src = Inr p"
  shows "\<exists>r. p = Some r \<and> ((\<exists>q \<in> set PREVIEW_QUALITY_STEPS. reencodeImage I src PREVIEW_MAX_EDGE q = Inr r)
        \<and> length (re_blob r) \<le> PREVIEW_TARGET_BYTES
      \<or> smallest_of I src (set PREVIEW_QUALITY_STEPS) r)"
  using preview_steps_spec [of I src PREVIEW_QUALITY_STEPS None p "{}"] assms
  by (simp add: makePreview_def PREVIEW_QUALITY_STEPS_def)

end
