(* ===== verification/Wire.thy ===== *)
theory Wire
  imports Auth KeyChain
begin

text \<open>
  What a flow sends, stated over the platform's state: a property of that state which the local
  operations of the platform (entropy, clock, storage) cannot change, and which a request of a given
  kind does not change either, is kept by every flow that makes no other request. The account flows
  use it to say which requests they make before, or without, which others.
\<close>

definition on_net :: "('n \<Rightarrow> bool) \<Rightarrow> 'n world \<Rightarrow> bool" where
  "on_net Q w \<longleftrightarrow> Q (w_net w)"

definition silent :: "'n platform \<Rightarrow> ('n \<Rightarrow> bool) \<Rightarrow> bool" where
  "silent P Q \<longleftrightarrow> (\<forall>n. Q n \<longrightarrow> Q (snd (pl_idb P n)) \<and> Q (snd (pl_now P n)) \<and> Q (snd (pl_ulid P n))
     \<and> (\<forall>k. Q (snd (pl_random P k n))) \<and> (\<forall>f. pl_uuid P = Some f \<longrightarrow> Q (snd (f n))))"

definition unmoved :: "'n platform \<Rightarrow> ('n \<Rightarrow> bool) \<Rightarrow> http_request \<Rightarrow> bool" where
  "unmoved P Q rq \<longleftrightarrow> (\<forall>n. Q n \<longrightarrow> Q (snd (pl_fetch P rq n)))"

named_theorems net_intros \<open>what a flow does not do to the platform's state\<close>

lemma net_basic [net_intros]:
  "silent P Q \<Longrightarrow> keeps (on_net Q) (db_read P g)" "silent P Q \<Longrightarrow> keeps (on_net Q) (db_write P f)"
  "silent P Q \<Longrightarrow> keeps (on_net Q) (platform_io (pl_random P k))" "silent P Q \<Longrightarrow> keeps (on_net Q) (platform_io (pl_now P))"
  "silent P Q \<Longrightarrow> keeps (on_net Q) (platform_io (pl_ulid P))"
  "keeps (on_net Q) (get_ls x)" "keeps (on_net Q) (set_ls x y)" "keeps (on_net Q) (remove_ls x)"
  "keeps (on_net Q) (emitAuth ev)"
  by (auto simp: keeps_def on_net_def io_simps silent_def emitAuth_def)

lemma net_fetch [net_intros]: "unmoved P Q rq \<Longrightarrow> keeps (on_net Q) (do_fetch P rq)"
  by (auto simp: keeps_def on_net_def io_simps unmoved_def do_fetch_def)

lemma net_throw [net_intros]: "keeps (on_net Q) (throwForErrorResponse res)"
  unfolding throwForErrorResponse_def Let_def by (intro keeps_intros net_intros)

lemma net_finish [net_intros]: "keeps (on_net Q) (finish_request res)"
  unfolding finish_request_def by (auto intro!: keeps_intros net_intros split: option.splits)

lemma net_request [net_intros]: "unmoved P Q rq \<Longrightarrow> keeps (on_net Q) (request P rq)"
  unfolding request_def by (intro keeps_intros net_intros)

lemma net_put_attempts [net_intros]: "unmoved P Q rq \<Longrightarrow> keeps (on_net Q) (put_attempts n e P rq ab)"
proof (induction n arbitrary: e)
  case (Suc n)
  have "keeps (on_net Q) (do_fetch P rq)" using Suc.prems by (rule net_fetch)
  with Suc show ?case by (fastforce simp: keeps_def split: prod.splits sum.splits)
qed (simp add: keeps_intros)

lemma net_storeGet [net_intros]:
  "unmoved P Q (object_request GET t key) \<Longrightarrow> keeps (on_net Q) (storeGet P t key)"
  unfolding storeGet_def by (intro keeps_intros net_intros)

lemma net_resolve [net_intros]:
  "unmoved P Q (api_request GET (''/v1/resolve/'' @ encodeURIComponent h) [] None None) \<Longrightarrow> keeps (on_net Q) (resolve P h)"
  unfolding resolve_def resolve_outcome_def Let_def by (auto intro!: keeps_intros net_intros split: option.splits)

lemma net_secrets [net_intros]:
  "silent P Q \<Longrightarrow> keeps (on_net Q) (generateSalt P)" "keeps (on_net Q) (deriveKeys P secret x)"
  "keeps (on_net Q) (argonStretch P pw salt kdf)" "keeps (on_net Q) (deriveSecretFromPassword P pw so ko)"
  "keeps (on_net Q) (signContinuity P k rk)" "keeps (on_net Q) (signAuthProofV2 P k ap)"
  "silent P Q \<Longrightarrow> keeps (on_net Q) (buildChainLink P f t k1 k2)"
  by (auto intro!: keeps_intros net_intros simp: generateSalt_def deriveKeys_def Let_def argonStretch_def
      deriveSecretFromPassword_def signContinuity_def signAuthProofV2_def canonicalizeForSign_def
      buildChainLink_def split: option.splits)

lemma net_saveSession [net_intros]: "silent P Q \<Longrightarrow> keeps (on_net Q) (saveSession P s)"
  by (auto intro!: keeps_intros net_intros simp: saveSession_def wipeIfAccountChanged_def deleteDatabase_def putKey_def)

lemma net_clear [net_intros]: "keeps (on_net Q) clearToken" "silent P Q \<Longrightarrow> keeps (on_net Q) (clearSession P)"
  by (auto intro!: keeps_intros net_intros simp: clearToken_def clearSession_def deleteDatabase_def)

lemma net_chain [net_intros]:
  assumes "\<And>rq. rq_method rq \<noteq> POST \<Longrightarrow> unmoved P Q rq" and "\<And>key n. unmoved P Q (presign_request t key n)"
  shows "keeps (on_net Q) (fetchChain P t u)" "keeps (on_net Q) (upload_object P t key b)"
    "keeps (on_net Q) (appendChainLink P t u l)"
proof -
  have "rq_method (put_request x b) = PUT" for x b by (simp add: put_request_def)
  then show f: "keeps (on_net Q) (upload_object P t key b)" for key b
    unfolding upload_object_def storePresign_def putWithRetry_def
    by (intro keeps_intros net_intros assms) simp
  have "rq_method (object_request GET x y) = GET" for x y by (simp add: object_request_def api_request_def)
  then show "keeps (on_net Q) (fetchChain P t u)"
    unfolding fetchChain_def by (intro keeps_intros net_intros assms(1)) simp
  then show "keeps (on_net Q) (appendChainLink P t u l)"
    unfolding appendChainLink_def by (intro keeps_intros f)
qed

text \<open>An effect that leaves everything the client stores as it is.\<close>

definition leaves_local :: "('n world, 'a) io \<Rightarrow> bool" where
  "leaves_local m \<longleftrightarrow> (\<forall>Q. keeps (on_local Q) m)"

lemma leaves_localD:
  assumes "leaves_local m" and "m w = (r, w')"
  shows "w_db w' = w_db w \<and> w_ls w' = w_ls w \<and> w_mgr w' = w_mgr w"
proof -
  have k: "keeps (on_local (\<lambda>d l m. d = w_db w \<and> l = w_ls w \<and> m = w_mgr w)) m"
    using assms(1) by (simp add: leaves_local_def)
  from keeps_result [OF k assms(2)] show ?thesis by (simp add: on_local_def)
qed

end
