(* ===== verification/ChatSend.thy ===== *)
theory ChatSend
  imports InboxSync Materializer Image Wire
begin

text \<open>
  web/src/hooks/useChatSend.ts and useChatAmendments.ts: what the compose tray and the message menu
  do. A picked file is its name, its declared type and its bytes; the image codec is the one of theory
  Image. The busy flag, the session manager and the online status are the values of the render the
  handler belongs to. Each handler ends in an outcome: ignored, delivered, or an alert.
\<close>

section \<open>Preparing a file\<close>

datatype photo_quality = Optimized | OriginalQuality

definition PHOTO_QUALITY_KEY :: string where
  "PHOTO_QUALITY_KEY = ''atmin:photo-quality''"

definition getPhotoQuality :: "('n world, photo_quality) io" where
  "getPhotoQuality = await (get_ls PHOTO_QUALITY_KEY) (\<lambda>v.
     ret (if v = Some ''original'' then OriginalQuality else Optimized))"

definition setPhotoQuality :: "photo_quality \<Rightarrow> ('n world, unit) io" where
  "setPhotoQuality quality = set_ls PHOTO_QUALITY_KEY
     (case quality of Optimized \<Rightarrow> ''optimized'' | OriginalQuality \<Rightarrow> ''original'')"

record picked_file =
  pk_name :: string
  pk_type :: string
  pk_bytes :: bytes

record prepared_media =
  pm_blob :: bytes
  pm_extras :: media_extras
  pm_preview :: "reencoded option"

definition pixels :: "nat \<Rightarrow> num" where
  "pixels n = NInt (int n)"

definition dimensions :: "image_codec \<Rightarrow> bytes \<Rightarrow> (nat \<times> nat) option" where
  "dimensions I blob = (case imageSize I blob of Inl _ \<Rightarrow> None | Inr d \<Rightarrow> Some d)"

definition extras_for :: "string \<Rightarrow> bool \<Rightarrow> (nat \<times> nat) option \<Rightarrow> media_extras" where
  "extras_for mime optimized dims = \<lparr>me_mime = Some mime, me_width = map_option (\<lambda>d. pixels (fst d)) dims,
     me_height = map_option (\<lambda>d. pixels (snd d)) dims, me_optimized = Some optimized\<rparr>"

definition maybePreview :: "image_codec \<Rightarrow> string \<Rightarrow> bytes \<Rightarrow> (nat \<times> nat) option \<Rightarrow> reencoded option" where
  "maybePreview I type full dims =
     (case dims of
        None \<Rightarrow> None
      | Some (width, height) \<Rightarrow>
          (if \<not> isOptimizableImage type \<or> \<not> needsPreview (length full) width height then None
           else (case makePreview I full of Inl _ \<Rightarrow> None | Inr r \<Rightarrow> r)))"

definition prepared :: "image_codec \<Rightarrow> string \<Rightarrow> bytes \<Rightarrow> string \<Rightarrow> bool \<Rightarrow> (nat \<times> nat) option \<Rightarrow> prepared_media" where
  "prepared I type blob mime optimized dims =
     \<lparr>pm_blob = blob, pm_extras = extras_for mime optimized dims, pm_preview = maybePreview I type blob dims\<rparr>"

definition prepareMediaForSend :: "image_codec \<Rightarrow> picked_file \<Rightarrow> ('n world, prepared_media) io" where
  "prepareMediaForSend I file =
     (if \<not> starts_with ''image/'' (pk_type file)
      then ret \<lparr>pm_blob = pk_bytes file,
        pm_extras = \<lparr>me_mime = None, me_width = None, me_height = None, me_optimized = None\<rparr>, pm_preview = None\<rparr>
      else await (if isOptimizableImage (pk_type file) then getPhotoQuality else ret OriginalQuality) (\<lambda>quality.
        case quality of
          OriginalQuality \<Rightarrow>
            ret (prepared I (pk_type file) (pk_bytes file) (pk_type file) False (dimensions I (pk_bytes file)))
        | Optimized \<Rightarrow>
            (case reencodeImage I (pk_bytes file) OPTIMIZED_MAX_EDGE OPTIMIZED_QUALITY of
               Inl _ \<Rightarrow> throw ImageOptimizeError
             | Inr r \<Rightarrow> ret (prepared I (pk_type file) (re_blob r) ''image/jpeg'' True (Some (re_width r, re_height r))))))"

section \<open>Uploading\<close>

text \<open>\<open>Promise.all\<close> of two uploads: both are started, and the first rejection is the result. The
  model runs them one after the other.\<close>

definition all_of :: "('w, 'a) io \<Rightarrow> ('w, 'b) io \<Rightarrow> ('w, 'a \<times> 'b) io" where
  "all_of m1 m2 = (\<lambda>w. let (r1, w1) = m1 w; (r2, w2) = m2 w1 in
     (case r1 of Inl e \<Rightarrow> Inl e | Inr x \<Rightarrow> (case r2 of Inl e \<Rightarrow> Inl e | Inr y \<Rightarrow> Inr (x, y)), w2))"

definition encryptAndUpload :: "'n platform \<Rightarrow> session \<Rightarrow> bytes \<Rightarrow> ('n world, string \<times> encrypted_media) io" where
  "encryptAndUpload P s b =
     await (encryptMedia P b) (\<lambda>enc.
     await (uploadMedia P (se_token s) (se_userId s) enc never_aborted) (\<lambda>(url, _). ret (url, enc)))"

definition upload_preview :: "'n platform \<Rightarrow> session \<Rightarrow> reencoded option \<Rightarrow> ('n world, (string \<times> encrypted_media) option) io" where
  "upload_preview P s preview =
     (case preview of None \<Rightarrow> ret None | Some p \<Rightarrow> await (encryptAndUpload P s (re_blob p)) (\<lambda>u. ret (Some u)))"

definition preview_wire :: "(string \<times> encrypted_media) option \<Rightarrow> reencoded option \<Rightarrow> preview_ref option" where
  "preview_wire prev preview =
     (case (prev, preview) of
        (Some (url, enc), Some p) \<Rightarrow> Some \<lparr>pr_url = url, pr_key = base64UrlEncode (em_key enc),
          pr_iv = base64UrlEncode (em_iv enc), pr_width = pixels (re_width p), pr_height = pixels (re_height p)\<rparr>
      | _ \<Rightarrow> None)"

definition media_body :: "string option \<Rightarrow> string \<Rightarrow> string" where
  "media_body caption name =
     (case caption of None \<Rightarrow> name | Some c \<Rightarrow> if trim c = [] then name else trim c)"

text \<open>The payload of a picked file, its objects encrypted and uploaded.\<close>

definition media_payload :: "'n platform \<Rightarrow> image_codec \<Rightarrow> session \<Rightarrow> picked_file \<Rightarrow> string option \<Rightarrow> ('n world, inner_payload) io" where
  "media_payload P I s file caption =
     await (prepareMediaForSend I file) (\<lambda>pm.
     await (all_of (encryptAndUpload P s (pm_blob pm)) (upload_preview P s (pm_preview pm))) (\<lambda>((url, enc), prev).
     ret (MediaPayload (media_body caption (pk_name file))
       \<lparr>pf_url = url, pf_key = base64UrlEncode (em_key enc), pf_iv = base64UrlEncode (em_iv enc),
        pf_name = pk_name file, pf_size = NInt (int (em_plaintextSize enc)), pf_extras = pm_extras pm,
        pf_preview = preview_wire prev (pm_preview pm)\<rparr>)))"

section \<open>The handlers\<close>

record 'n chat_hook =
  ch_handle :: "string option"
  ch_isSaved :: bool
  ch_session :: session
  ch_hasManager :: bool
  ch_self :: "(string \<times> string) option"
  ch_created :: "'n created_callback"
  ch_listeners :: "('n world, unit) io list"
  ch_busy :: bool
  ch_online :: bool

datatype send_outcome = Ignored | Delivered | Alerted string

definition sender_of :: "session \<Rightarrow> sender" where
  "sender_of s = \<lparr>sd_token = se_token s, sd_userId = se_userId s, sd_deviceId = se_deviceId s,
     sd_publicKey = se_sharingPublicKeyBytes s\<rparr>"

definition blocked :: "'n chat_hook \<Rightarrow> bool" where
  "blocked h \<longleftrightarrow> ch_busy h \<or> \<not> ch_hasManager h \<or> \<not> ch_online h"

definition recipient :: "'n platform \<Rightarrow> 'n chat_hook \<Rightarrow> ('n world, string \<times> bytes) io" where
  "recipient P h = resolveRecipient P (ch_session h) (ch_handle h) (ch_isSaved h)"

definition publish_chat :: "'n platform \<Rightarrow> 'n chat_hook \<Rightarrow> ('n world, send_outcome) io" where
  "publish_chat P h = await (syncAndPublish P (ch_session h) (ch_listeners h)) (\<lambda>_. ret Delivered)"

definition sendText :: "'n platform \<Rightarrow> 'n chat_hook \<Rightarrow> string \<Rightarrow> ('n world, send_outcome) io" where
  "sendText P h text =
     (if text = [] \<or> blocked h then ret Ignored
      else catch_err
        (await (recipient P h) (\<lambda>(to, key).
         await (sendTextMessage P (ch_self h) (ch_created h) (sender_of (ch_session h)) to key text) (\<lambda>_.
         publish_chat P h)))
        (\<lambda>_. ret (Alerted ''Failed to send message. Please try again.'')))"

definition optimize_alert :: string where
  "optimize_alert = ''Couldn'' @ [CHR 0x27] @ ''t process this image. To send it unchanged '' @ [CHR 0xE2, CHR 0x80, CHR 0x94]
     @ '' which keeps its metadata (e.g. location) '' @ [CHR 0xE2, CHR 0x80, CHR 0x94]
     @ '' switch to Original quality in Settings.''"

definition media_alert :: "js_error \<Rightarrow> string" where
  "media_alert e = (case e of
     ImageOptimizeError \<Rightarrow> optimize_alert
   | _ \<Rightarrow> ''Failed to send attachment. Please try again.'')"

definition sendMedia :: "'n platform \<Rightarrow> image_codec \<Rightarrow> 'n chat_hook \<Rightarrow> picked_file \<Rightarrow> string option \<Rightarrow> ('n world, send_outcome) io" where
  "sendMedia P I h file caption =
     (if blocked h then ret Ignored
      else catch_err
        (await (if length (pk_bytes file) > MAX_MEDIA_BYTES then throw FileTooLargeError else ret ()) (\<lambda>_.
         await (recipient P h) (\<lambda>(to, key).
         await (media_payload P I (ch_session h) file caption) (\<lambda>payload.
         await (sendInnerPayload P (ch_self h) (ch_created h) (sender_of (ch_session h)) to key payload) (\<lambda>_.
         publish_chat P h)))))
        (\<lambda>e. ret (Alerted (media_alert e))))"

definition drop_media :: "'n platform \<Rightarrow> string \<Rightarrow> string \<Rightarrow> ('n world, unit) io" where
  "drop_media P token url =
     await (detached (storeDelete P token url) (\<lambda>_. ret ())) (\<lambda>_.
     detached (deleteMediaBlob P url) (\<lambda>_. ret ()))"

definition amend :: "'n platform \<Rightarrow> 'n chat_hook \<Rightarrow> string \<Rightarrow> amendment_action \<Rightarrow> string option \<Rightarrow> string list option \<Rightarrow> ('n world, send_outcome) io" where
  "amend P h target action body mediaUrls =
     (if blocked h then ret Ignored
      else catch_err
        (await (recipient P h) (\<lambda>(to, key).
         await (sendAmendment P (ch_self h) (ch_created h) (sender_of (ch_session h)) to key target action body) (\<lambda>_.
         await (case mediaUrls of
             Some urls \<Rightarrow> if action = DeleteA then for_each urls (drop_media P (se_token (ch_session h))) else ret ()
           | None \<Rightarrow> ret ()) (\<lambda>_.
         publish_chat P h))))
        (\<lambda>_. ret (Alerted (''Failed to '' @ action_text action @ '' message. Please try again.''))))"

definition editMessage :: "'n platform \<Rightarrow> 'n chat_hook \<Rightarrow> string \<Rightarrow> string \<Rightarrow> ('n world, send_outcome) io" where
  "editMessage P h msgId newBody = amend P h msgId EditA (Some newBody) None"

definition deleteMessage :: "'n platform \<Rightarrow> 'n chat_hook \<Rightarrow> string \<Rightarrow> string list option \<Rightarrow> ('n world, send_outcome) io" where
  "deleteMessage P h msgId mediaUrls = amend P h msgId DeleteA None mediaUrls"

section \<open>What was sent can be opened\<close>

text \<open>The object store behind the server: \<open>stored n key\<close> is what it holds, and \<open>key_of\<close> names the
  object a presigned URL writes. A presigned URL is for the key that was asked for; an accepted PUT
  stores its body; nothing but a PUT to the object's URL and a DELETE changes an object; and an object
  that is read is the one that is stored.\<close>

definition store_law :: "'n platform \<Rightarrow> ('n \<Rightarrow> string \<Rightarrow> bytes option) \<Rightarrow> (string \<Rightarrow> string option) \<Rightarrow> bool" where
  "store_law P stored key_of \<longleftrightarrow>
     (\<forall>t key n v url v'. storePresign P t key n v = (Inr url, v') \<longrightarrow> key_of url = Some key)
   \<and> (\<forall>url body n res key. fst (pl_fetch P (put_request url body) n) = Some res \<and> res_ok res \<and> key_of url = Some key \<longrightarrow>
        stored (snd (pl_fetch P (put_request url body) n)) key = Some body)
   \<and> (\<forall>key b. silent P (\<lambda>n. stored n key = Some b))
   \<and> (\<forall>rq key b. rq_method rq \<noteq> DELETE \<and> (rq_method rq = PUT \<longrightarrow> key_of (rq_path rq) \<noteq> Some key) \<longrightarrow>
        unmoved P (\<lambda>n. stored n key = Some b) rq)
   \<and> (\<forall>t key n res. fst (pl_fetch P (object_request GET t key) n) = Some res \<and> res_ok res \<longrightarrow>
        stored n key = Some (rs_bytes res))"

lemma put_stored:
  assumes "store_law P stored key_of" and "key_of url = Some key"
    and "put_attempts n e P (put_request url body) ab w = (Inr (), w')"
  shows "stored (w_net w') key = Some body"
  using assms(3)
proof (induction n arbitrary: e w)
  case (Suc n)
  obtain r w1 where r: "do_fetch P (put_request url body) w = (r, w1)" by fastforce
  show ?case
  proof (cases r)
    case (Inl err)
    then show ?thesis using Suc r by (auto split: if_splits)
  next
    case (Inr res)
    show ?thesis
    proof (cases "res_ok res")
      case True
      then have "w' = w1" using Suc.prems r Inr by simp
      moreover have "fst (pl_fetch P (put_request url body) (w_net w)) = Some res"
          "w_net w1 = snd (pl_fetch P (put_request url body) (w_net w))"
        using r Inr by (auto simp: do_fetch_def io_simps split: option.splits)
      ultimately show ?thesis using assms(1,2) True unfolding store_law_def by metis
    next
      case False
      then show ?thesis using Suc r Inr by (auto split: if_splits)
    qed
  qed
qed (simp add: throw_app)

lemma store_post:
  assumes "store_law P stored key_of"
  shows "unmoved P (\<lambda>n. stored n key = Some b) (presign_request t k m)"
  using assms unfolding store_law_def by (simp add: presign_request_def api_request_def)

lemma upload_stored:
  assumes "store_law P stored key_of" and "uploadMedia P t u em ab w = (Inr (key, ul), w')"
  shows "stored (w_net w') key = Some (em_ciphertext em)"
    and "key' \<noteq> key \<Longrightarrow> stored (w_net w) key' = Some b \<Longrightarrow> stored (w_net w') key' = Some b"
proof -
  obtain w1 url w2 where k: "key = path_media u ul"
    and u: "platform_io (pl_ulid P) w = (Inr ul, w1)"
    and p: "storePresign P t key (length (em_ciphertext em)) w1 = (Inr url, w2)"
    and c: "put_attempts 2 (JsError ''undefined'') P (put_request url (em_ciphertext em)) ab w2 = (Inr (), w')"
    using assms(2) by (auto simp: uploadMedia_def await_Inr ret_app Let_def putWithRetry_def)
  have ko: "key_of url = Some key" using assms(1) p unfolding store_law_def by blast
  from put_stored [OF assms(1) ko c] show "stored (w_net w') key = Some (em_ciphertext em)" .
  assume n: "key' \<noteq> key" and s: "stored (w_net w) key' = Some b"
  let ?Q = "\<lambda>n. stored n key' = Some b"
  have si: "silent P ?Q" using assms(1) unfolding store_law_def by blast
  have "keeps (on_net ?Q) (platform_io (pl_ulid P))" by (intro net_intros si)
  from keeps_result [OF this u] s have 1: "?Q (w_net w1)" by (simp add: on_net_def)
  have "keeps (on_net ?Q) (storePresign P t key (length (em_ciphertext em)))"
    unfolding storePresign_def using store_post [OF assms(1)] by (intro keeps_intros net_intros)
  from keeps_result [OF this p] 1 have 2: "?Q (w_net w2)" by (simp add: on_net_def)
  have "unmoved P ?Q (put_request url (em_ciphertext em))"
    using assms(1) ko n unfolding store_law_def by (simp add: put_request_def)
  then have "keeps (on_net ?Q) (put_attempts 2 (JsError ''undefined'') P (put_request url (em_ciphertext em)) ab)"
    by (intro net_intros)
  from keeps_result [OF this c] 2 show "stored (w_net w') key' = Some b" by (simp add: on_net_def)
qed

lemma encrypted_opens:
  assumes "aes_law P" and "encryptMedia P b w = (Inr enc, w1)" and "\<And>n. pl_aes_key_ok P (fst (pl_random P 32 n))"
  shows "decryptMedia P (em_ciphertext enc) (em_key enc) (em_iv enc) v = (Inr b, v)"
    and "em_plaintextSize enc = length b"
  using assms by (auto simp: encryptMedia_def decryptMedia_def io_simps aes_law_def split: if_splits)

lemma fetched_is_stored:
  assumes "store_law P stored key_of" and "fetchMedia P t key v = (Inr c, v')"
  shows "stored (w_net v) key = Some c"
proof -
  obtain res where "fst (pl_fetch P (object_request GET t key) (w_net v)) = Some res" "res_ok res" "c = rs_bytes res"
    using assms(2) by (auto simp: fetchMedia_def io_simps do_fetch_def split: option.splits if_splits js_error.splits)
  with assms(1) show ?thesis unfolding store_law_def by blast
qed

lemma uploaded:
  assumes "store_law P stored key_of" and "aes_law P" and "\<And>n. pl_aes_key_ok P (fst (pl_random P 32 n))"
    and "encryptAndUpload P s b w = (Inr (url, enc), w')"
  shows "stored (w_net w') url = Some (em_ciphertext enc)"
    and "decryptMedia P (em_ciphertext enc) (em_key enc) (em_iv enc) v = (Inr b, v)"
    and "em_plaintextSize enc = length b"
    and "key' \<noteq> url \<Longrightarrow> stored (w_net w) key' = Some c \<Longrightarrow> stored (w_net w') key' = Some c"
proof -
  obtain w1 ul where e: "encryptMedia P b w = (Inr enc, w1)"
    and u: "uploadMedia P (se_token s) (se_userId s) enc never_aborted w1 = (Inr (url, ul), w')"
    using assms(4) by (auto simp: encryptAndUpload_def await_Inr ret_app)
  show "stored (w_net w') url = Some (em_ciphertext enc)" using upload_stored(1) [OF assms(1) u] .
  show "decryptMedia P (em_ciphertext enc) (em_key enc) (em_iv enc) v = (Inr b, v)"
    and "em_plaintextSize enc = length b"
    using encrypted_opens [OF assms(2) e assms(3)] by blast+
  assume n: "key' \<noteq> url" and s: "stored (w_net w) key' = Some c"
  let ?Q = "\<lambda>n. stored n key' = Some c"
  have "silent P ?Q" using assms(1) unfolding store_law_def by blast
  then have "keeps (on_net ?Q) (encryptMedia P b)"
    unfolding encryptMedia_def by (auto intro!: keeps_intros net_intros)
  from keeps_result [OF this e] s have "?Q (w_net w1)" by (simp add: on_net_def)
  with upload_stored(2) [OF assms(1) u n] show "?Q (w_net w')" .
qed

text \<open>Whoever reads the object \<open>url\<close>, while the store holds what it holds in state \<open>n\<close>, and decrypts
  with the key and nonce of the payload, gets \<open>b\<close>.\<close>

definition opens :: "'n platform \<Rightarrow> ('n \<Rightarrow> string \<Rightarrow> bytes option) \<Rightarrow> 'n \<Rightarrow> string \<Rightarrow> bytes \<Rightarrow> bytes \<Rightarrow> bytes \<Rightarrow> bool" where
  "opens P stored n url key iv b \<longleftrightarrow> (\<exists>c. stored n url = Some c)
     \<and> (\<forall>t v c v'. stored (w_net v) url = stored n url \<and> fetchMedia P t url v = (Inr c, v') \<longrightarrow>
          decryptMedia P c key iv v' = (Inr b, v'))"

lemma opensI:
  assumes "store_law P stored key_of" and "stored n url = Some c" and "\<And>v. decryptMedia P c key iv v = (Inr b, v)"
  shows "opens P stored n url key iv b"
  using assms(2,3) fetched_is_stored [OF assms(1)] by (fastforce simp: opens_def)

lemma prepare_result:
  assumes "prepareMediaForSend I file w = (Inr pm, w')"
  shows "w' = w \<and> pred_option num_ok (me_width (pm_extras pm)) \<and> pred_option num_ok (me_height (pm_extras pm))"
  using assms
  by (auto simp: prepareMediaForSend_def io_simps getPhotoQuality_def prepared_def extras_for_def pixels_def
      option.pred_set split: if_splits photo_quality.splits sum.splits option.splits)

text \<open>C8: a sent attachment can be opened by its reader. When \<open>media_payload\<close> returns, the receiver parses
  the payload's JSON to a media message whose references decode; the objects they name are stored, and
  any reader who fetches one and decrypts it with the key and nonce of the message gets the prepared
  bytes, and for the preview the prepared preview. Only two draws of the same object name would lose
  the full: then the preview overwrites it.\<close>

theorem sent_media_opens:
  assumes "store_law P stored key_of" and "aes_law P" and "\<And>n. pl_aes_key_ok P (fst (pl_random P 32 n))"
    and "media_payload P I s file caption w = (Inr payload, w')"
  shows "\<exists>pm pf mf. prepareMediaForSend I file w = (Inr pm, w)
    \<and> parseInner (stringify (payload_json payload)) = PMedia (media_body caption (pk_name file)) pf
    \<and> decode_media pf = Some mf \<and> mf_name mf = pk_name file
    \<and> mf_size mf = NInt (int (length (pm_blob pm))) \<and> mf_extras mf = pm_extras pm
    \<and> ((\<forall>p. mf_preview mf = Some p \<longrightarrow> dp_url p \<noteq> mf_url mf) \<longrightarrow>
         opens P stored (w_net w') (mf_url mf) (mf_key mf) (mf_iv mf) (pm_blob pm))
    \<and> (case pm_preview pm of
         None \<Rightarrow> mf_preview mf = None
       | Some r \<Rightarrow> \<exists>p. mf_preview mf = Some p
           \<and> opens P stored (w_net w') (dp_url p) (dp_key p) (dp_iv p) (re_blob r))"
proof -
  obtain pm w0 url enc prev where p: "prepareMediaForSend I file w = (Inr pm, w0)"
    and a: "all_of (encryptAndUpload P s (pm_blob pm)) (upload_preview P s (pm_preview pm)) w0 = (Inr ((url, enc), prev), w')"
    and pl: "payload = MediaPayload (media_body caption (pk_name file))
       \<lparr>pf_url = url, pf_key = base64UrlEncode (em_key enc), pf_iv = base64UrlEncode (em_iv enc),
        pf_name = pk_name file, pf_size = NInt (int (em_plaintextSize enc)), pf_extras = pm_extras pm,
        pf_preview = preview_wire prev (pm_preview pm)\<rparr>" (is "_ = MediaPayload _ ?pf")
    using assms(4) by (auto simp: media_payload_def await_Inr ret_app)
  from prepare_result [OF p] have w0: "w0 = w" and nums: "pred_option num_ok (me_width (pm_extras pm))"
      "pred_option num_ok (me_height (pm_extras pm))" by blast+
  obtain w1 where f: "encryptAndUpload P s (pm_blob pm) w0 = (Inr (url, enc), w1)"
    and g: "upload_preview P s (pm_preview pm) w1 = (Inr prev, w')"
    using a by (auto simp: all_of_def Let_def split: prod.splits sum.splits)
  note full = uploaded [OF assms(1-3) f]
  have ok: "payload_ok payload"
    using nums by (auto simp: pl media_file_ok_def preview_wire_def pixels_def option.pred_set split: option.splits)
  have parsed: "parseInner (stringify (payload_json payload)) = PMedia (media_body caption (pk_name file)) ?pf"
    using parseInner_payload [OF ok] by (simp add: pl)
  show ?thesis
  proof (cases "pm_preview pm")
    case None
    then have n: "w' = w1" "prev = None" using g by (simp_all add: upload_preview_def ret_app)
    have mf: "decode_media ?pf = Some \<lparr>mf_url = url, mf_key = em_key enc, mf_iv = em_iv enc, mf_name = pk_name file,
        mf_size = NInt (int (em_plaintextSize enc)), mf_extras = pm_extras pm, mf_preview = None\<rparr>"
      by (simp add: n decode_media_def base64UrlDecode_Encode None preview_wire_def)
    have "opens P stored (w_net w1) url (em_key enc) (em_iv enc) (pm_blob pm)"
      using opensI [OF assms(1) full(1,2)] .
    with p w0 parsed None full(3) n mf show ?thesis by auto
  next
    case (Some r)
    then obtain url2 enc2 where h: "encryptAndUpload P s (re_blob r) w1 = (Inr (url2, enc2), w')" and pr: "prev = Some (url2, enc2)"
      using g by (auto simp: upload_preview_def await_Inr ret_app)
    note small = uploaded [OF assms(1-3) h]
    have mf: "decode_media ?pf = Some \<lparr>mf_url = url, mf_key = em_key enc, mf_iv = em_iv enc, mf_name = pk_name file,
        mf_size = NInt (int (em_plaintextSize enc)), mf_extras = pm_extras pm,
        mf_preview = Some \<lparr>dp_url = url2, dp_key = em_key enc2, dp_iv = em_iv enc2,
          dp_width = pixels (re_width r), dp_height = pixels (re_height r)\<rparr>\<rparr>"
      by (simp add: decode_media_def decode_preview_def base64UrlDecode_Encode Some pr preview_wire_def)
    have o2: "opens P stored (w_net w') url2 (em_key enc2) (em_iv enc2) (re_blob r)"
      using opensI [OF assms(1) small(1,2)] .
    have o1: "opens P stored (w_net w') url (em_key enc) (em_iv enc) (pm_blob pm)" if "url2 \<noteq> url"
      using opensI [OF assms(1) small(4) [OF that [symmetric] full(1)] full(2)] .
    from p w0 parsed Some full(3) mf o1 o2 show ?thesis by auto
  qed
qed

section \<open>The optimized default\<close>

lemma prepare_optimized:
  assumes "isOptimizableImage (pk_type file)" and "map_of (w_ls w) PHOTO_QUALITY_KEY \<noteq> Some ''original''"
  shows "prepareMediaForSend I file w =
    (case reencodeImage I (pk_bytes file) OPTIMIZED_MAX_EDGE OPTIMIZED_QUALITY of
       Inl _ \<Rightarrow> Inl ImageOptimizeError
     | Inr r \<Rightarrow> Inr (prepared I (pk_type file) (re_blob r) ''image/jpeg'' True (Some (re_width r, re_height r))), w)"
proof -
  have "starts_with ''image/'' (pk_type file)"
    using assms(1) by (auto simp: isOptimizableImage_def starts_with_def)
  then show ?thesis
    using assms by (simp add: prepareMediaForSend_def getPhotoQuality_def io_simps split: sum.splits)
qed

lemma recipient_keeps:
  "keeps (on_local R) (recipient P h)"
  "(\<And>x. unmoved P Q (api_request GET (''/v1/resolve/'' @ encodeURIComponent x) [] None None)) \<Longrightarrow> keeps (on_net Q) (recipient P h)"
  by (auto intro!: keeps_intros net_intros simp: recipient_def resolveRecipient_def split: resolve_result.splits)

lemma preview_reencoded:
  assumes "maybePreview I type full dims = Some p"
  shows "\<exists>q. reencodeImage I full PREVIEW_MAX_EDGE q = Inr p"
proof -
  have "makePreview I full = Inr (Some p)"
    using assms by (auto simp: maybePreview_def split: option.splits sum.splits if_splits)
  then show ?thesis using makePreview_rung by blast
qed

lemma prepare_swapped:
  assumes "isOptimizableImage (pk_type file)" and "map_of (w_ls w) PHOTO_QUALITY_KEY \<noteq> Some ''original''"
    and "reencodeImage I other OPTIMIZED_MAX_EDGE OPTIMIZED_QUALITY = reencodeImage I (pk_bytes file) OPTIMIZED_MAX_EDGE OPTIMIZED_QUALITY"
  shows "media_payload P I s (file\<lparr>pk_bytes := other\<rparr>) caption w = media_payload P I s file caption w"
proof -
  have "prepareMediaForSend I (file\<lparr>pk_bytes := other\<rparr>) w = prepareMediaForSend I file w"
    using prepare_optimized [of "file\<lparr>pk_bytes := other\<rparr>" w I] prepare_optimized [OF assms(1,2), of I] assms by (simp split: sum.split)
  then show ?thesis by (simp add: media_payload_def await_def)
qed

text \<open>A send uses the picked bytes for their length and for the preparation, and nothing else.\<close>

lemma sendMedia_swapped:
  assumes "\<And>x w1. recipient P h w = (Inr x, w1) \<Longrightarrow>
      media_payload P I (ch_session h) (file\<lparr>pk_bytes := other\<rparr>) caption w1 = media_payload P I (ch_session h) file caption w1"
    and "MAX_MEDIA_BYTES < length other \<longleftrightarrow> MAX_MEDIA_BYTES < length (pk_bytes file)"
  shows "sendMedia P I h (file\<lparr>pk_bytes := other\<rparr>) caption w = sendMedia P I h file caption w"
  using assms by (auto simp: sendMedia_def catch_err_def await_def ret_def throw_def split: prod.split sum.split)

lemma sendMedia_delivered:
  assumes "sendMedia P I h file caption w = (Inr Delivered, w')"
  obtains to key w1 payload w2 w3 where "recipient P h w = (Inr (to, key), w1)"
    and "media_payload P I (ch_session h) file caption w1 = (Inr payload, w2)"
    and "sendInnerPayload P (ch_self h) (ch_created h) (sender_of (ch_session h)) to key payload w2 = (Inr (), w3)"
  using assms
  by (auto simp: sendMedia_def catch_err_app await_app ret_app throw_app split: if_splits prod.splits sum.splits)

text \<open>The payload of an image that is optimized: what it refers to is the encryption of the re-encoding.\<close>

definition optimized_payload ::
  "picked_file \<Rightarrow> string option \<Rightarrow> reencoded \<Rightarrow> string \<Rightarrow> encrypted_media \<Rightarrow> (string \<times> encrypted_media) option \<Rightarrow> reencoded option \<Rightarrow> inner_payload" where
  "optimized_payload file caption r url enc prev preview =
     MediaPayload (media_body caption (pk_name file))
       \<lparr>pf_url = url, pf_key = base64UrlEncode (em_key enc), pf_iv = base64UrlEncode (em_iv enc), pf_name = pk_name file,
        pf_size = NInt (int (em_plaintextSize enc)), pf_extras = extras_for ''image/jpeg'' True (Some (re_width r, re_height r)),
        pf_preview = preview_wire prev preview\<rparr>"

lemma media_payload_optimized:
  assumes "isOptimizableImage (pk_type file)" and "map_of (w_ls w) PHOTO_QUALITY_KEY \<noteq> Some ''original''"
    and "reencodeImage I (pk_bytes file) OPTIMIZED_MAX_EDGE OPTIMIZED_QUALITY = Inr r"
    and "media_payload P I s file caption w = (Inr payload, w')"
  shows "\<exists>url enc w1 prev preview. encryptAndUpload P s (re_blob r) w = (Inr (url, enc), w1)
    \<and> upload_preview P s preview w1 = (Inr prev, w')
    \<and> (\<forall>p. preview = Some p \<longrightarrow> (\<exists>q. reencodeImage I (re_blob r) PREVIEW_MAX_EDGE q = Inr p))
    \<and> payload = optimized_payload file caption r url enc prev preview"
proof -
  let ?preview = "maybePreview I (pk_type file) (re_blob r) (Some (re_width r, re_height r))"
  have "prepareMediaForSend I file w = (Inr (prepared I (pk_type file) (re_blob r) ''image/jpeg'' True (Some (re_width r, re_height r))), w)"
    using prepare_optimized [OF assms(1,2), of I] assms(3) by simp
  with assms(4) obtain url enc prev where
      a: "all_of (encryptAndUpload P s (re_blob r)) (upload_preview P s ?preview) w = (Inr ((url, enc), prev), w')"
    and p: "payload = optimized_payload file caption r url enc prev ?preview"
    by (auto simp: media_payload_def await_Inr ret_app prepared_def optimized_payload_def)
  obtain w1 where "encryptAndUpload P s (re_blob r) w = (Inr (url, enc), w1)" "upload_preview P s ?preview w1 = (Inr prev, w')"
    using a by (auto simp: all_of_def Let_def split: prod.splits sum.splits)
  with p preview_reencoded [of I "pk_type file" "re_blob r" "Some (re_width r, re_height r)"] show ?thesis by blast
qed

text \<open>C28: the default never ships the original bytes of a JPEG, PNG or WebP. Let the user not have chosen
  original quality, and a file of one of these types be sent. When the canvas re-encodes it, the whole
  run (its outcome, every request, all that is stored) is the same for any other bytes with the same
  re-encoding, but for the size limit: nothing of the original leaves the device; and a delivered
  message carries the key of an upload of the re-encoding, with its type and size, and at most a
  preview made from it. When the re-encoding fails the send fails closed: nothing was requested but
  the recipient's record, nothing stored, and the user is alerted, with the opt-out when the recipient
  resolved. Other types, HEIC among them, are sent as they are.\<close>

theorem optimized_never_ships_original:
  assumes "isOptimizableImage (pk_type file)" and "map_of (w_ls w) PHOTO_QUALITY_KEY \<noteq> Some ''original''"
    and "\<And>x. unmoved P Q (api_request GET (''/v1/resolve/'' @ encodeURIComponent x) [] None None)" and "Q (w_net w)"
    and "sendMedia P I h file caption w = (Inr out, w')"
  shows "case reencodeImage I (pk_bytes file) OPTIMIZED_MAX_EDGE OPTIMIZED_QUALITY of
      Inr r \<Rightarrow> (\<forall>other. reencodeImage I other OPTIMIZED_MAX_EDGE OPTIMIZED_QUALITY = Inr r
          \<and> (MAX_MEDIA_BYTES < length other \<longleftrightarrow> MAX_MEDIA_BYTES < length (pk_bytes file)) \<longrightarrow>
            sendMedia P I h (file\<lparr>pk_bytes := other\<rparr>) caption w = (Inr out, w'))
        \<and> (out = Delivered \<longrightarrow> (\<exists>to key w1 url enc w2 prev preview w3 w4. recipient P h w = (Inr (to, key), w1)
            \<and> encryptAndUpload P (ch_session h) (re_blob r) w1 = (Inr (url, enc), w2)
            \<and> upload_preview P (ch_session h) preview w2 = (Inr prev, w3)
            \<and> (\<forall>p. preview = Some p \<longrightarrow> (\<exists>q. reencodeImage I (re_blob r) PREVIEW_MAX_EDGE q = Inr p))
            \<and> sendInnerPayload P (ch_self h) (ch_created h) (sender_of (ch_session h)) to key
                (optimized_payload file caption r url enc prev preview) w3 = (Inr (), w4)))
    | Inl _ \<Rightarrow> out \<noteq> Delivered \<and> Q (w_net w') \<and> w_db w' = w_db w \<and> w_ls w' = w_ls w \<and> w_mgr w' = w_mgr w
        \<and> (\<not> blocked h \<and> length (pk_bytes file) \<le> MAX_MEDIA_BYTES \<and> (\<exists>x. fst (recipient P h w) = Inr x)
             \<longrightarrow> out = Alerted optimize_alert)"
proof -
  have k: "leaves_local (recipient P h)" by (simp add: leaves_local_def recipient_keeps(1))
  have q: "map_of (w_ls w1) PHOTO_QUALITY_KEY \<noteq> Some ''original''" if "recipient P h w = (x, w1)" for x w1
    using leaves_localD [OF k that] assms(2) by simp
  show ?thesis
  proof (cases "reencodeImage I (pk_bytes file) OPTIMIZED_MAX_EDGE OPTIMIZED_QUALITY")
    case (Inr r)
    have "sendMedia P I h (file\<lparr>pk_bytes := other\<rparr>) caption w = (Inr out, w')"
      if "reencodeImage I other OPTIMIZED_MAX_EDGE OPTIMIZED_QUALITY = Inr r"
        "MAX_MEDIA_BYTES < length other \<longleftrightarrow> MAX_MEDIA_BYTES < length (pk_bytes file)" for other
      using sendMedia_swapped [OF prepare_swapped [OF assms(1) q] that(2)] that(1) Inr assms(5) by simp
    moreover have "\<exists>to key w1 url enc w2 prev preview w3 w4. recipient P h w = (Inr (to, key), w1)
        \<and> encryptAndUpload P (ch_session h) (re_blob r) w1 = (Inr (url, enc), w2)
        \<and> upload_preview P (ch_session h) preview w2 = (Inr prev, w3)
        \<and> (\<forall>p. preview = Some p \<longrightarrow> (\<exists>q. reencodeImage I (re_blob r) PREVIEW_MAX_EDGE q = Inr p))
        \<and> sendInnerPayload P (ch_self h) (ch_created h) (sender_of (ch_session h)) to key
            (optimized_payload file caption r url enc prev preview) w3 = (Inr (), w4)"
      if o: "out = Delivered"
    proof -
      from assms(5) [unfolded o] obtain to key w1 payload w3 w4 where s: "recipient P h w = (Inr (to, key), w1)"
          "media_payload P I (ch_session h) file caption w1 = (Inr payload, w3)"
          "sendInnerPayload P (ch_self h) (ch_created h) (sender_of (ch_session h)) to key payload w3 = (Inr (), w4)"
        by (rule sendMedia_delivered)
      from media_payload_optimized [OF assms(1) q [OF s(1)] Inr s(2)] s(1,3) show ?thesis by blast
    qed
    ultimately show ?thesis using Inr by simp
  next
    case (Inl e)
    obtain r w1 where r: "recipient P h w = (r, w1)" by fastforce
    have "keeps (on_net Q) (recipient P h)" using assms(3) by (rule recipient_keeps(2))
    from keeps_result [OF this r] assms(4) have n: "Q (w_net w1)" by (simp add: on_net_def)
    from leaves_localD [OF k r] have l: "w_db w1 = w_db w" "w_ls w1 = w_ls w" "w_mgr w1 = w_mgr w" by blast+
    then have p: "prepareMediaForSend I file w1 = (Inl ImageOptimizeError, w1)"
      using prepare_optimized [OF assms(1), of w1 I] assms(2) Inl by simp
    show ?thesis
    proof (cases "blocked h \<or> MAX_MEDIA_BYTES < length (pk_bytes file)")
      case True
      then show ?thesis using assms(4,5) Inl by (auto simp: sendMedia_def io_simps split: if_splits)
    next
      case False
      show ?thesis
      proof (cases r)
        case (Inl e')
        then show ?thesis
          using assms(5) False n l r \<open>reencodeImage _ _ _ _ = Inl e\<close> by (auto simp: sendMedia_def io_simps)
      next
        case (Inr x)
        then show ?thesis
          using assms(5) False n l r p \<open>reencodeImage _ _ _ _ = Inl e\<close>
          by (cases x) (auto simp: sendMedia_def io_simps media_payload_def media_alert_def)
      qed
    qed
  qed
qed

section \<open>Deleting a sent attachment\<close>

lemma publish_returns: "fst (syncAndPublish P s listeners w) = Inr ()"
  using publish_total [of P s listeners]
  by (auto simp: syncAndPublish_def never_throws_def split: prod.splits sum.splits)

lemma drop_media_effect:
  assumes "\<And>n. fst (pl_idb P n)"
  shows "\<exists>w'. drop_media P t url w = (Inr (), w') \<and> (\<forall>u. st_get u (db_media (w_db w')) = (if u = url then None else st_get u (db_media (w_db w))))
    \<and> db_messages (w_db w') = db_messages (w_db w)"
proof -
  obtain r w1 where s: "storeDelete P t url w = (r, w1)" by fastforce
  have "leaves_local (storeDelete P t url)" by (simp add: leaves_local_def api_keep_local)
  from leaves_localD [OF this s] have "w_db w1 = w_db w" by blast
  with s show ?thesis
    by (cases r) (simp_all add: drop_media_def io_simps deleteMediaBlob_def assms st_get_delete)
qed

lemma drop_all_media:
  assumes "\<And>n. fst (pl_idb P n)"
  shows "\<exists>w'. for_each urls (drop_media P t) w = (Inr (), w')
    \<and> (\<forall>u. st_get u (db_media (w_db w')) = (if u \<in> set urls then None else st_get u (db_media (w_db w))))
    \<and> db_messages (w_db w') = db_messages (w_db w)"
proof (induction urls arbitrary: w)
  case (Cons url urls)
  obtain w1 where 1: "drop_media P t url w = (Inr (), w1)"
      "\<forall>u. st_get u (db_media (w_db w1)) = (if u = url then None else st_get u (db_media (w_db w)))"
      "db_messages (w_db w1) = db_messages (w_db w)"
    using drop_media_effect [OF assms, of t url w] by blast
  with Cons [of w1] show ?case by (auto simp: await_app)
qed (simp add: ret_app)

text \<open>Deleting a message removes its attachment only after the amendment went out. When the
  amendment cannot be sent, nothing else happens. When it is sent, every object of the message is gone
  from the local cache, whatever the server answers to the deletions, no other cached object is, and the
  sync that follows starts from there; the user is never told of a failure after the amendment.\<close>

lemma deleteMessage_after_amendment:
  assumes "\<And>n. fst (pl_idb P n)" and "\<not> blocked h" and "recipient P h w = (Inr (to, key), w1)"
    and "sendAmendment P (ch_self h) (ch_created h) (sender_of (ch_session h)) to key msgId DeleteA None w1 = (r, w2)"
  shows "case r of
      Inl _ \<Rightarrow> deleteMessage P h msgId urls w = (Inr (Alerted ''Failed to delete message. Please try again.''), w2)
    | Inr _ \<Rightarrow> \<exists>w3. deleteMessage P h msgId urls w = (Inr Delivered, snd (syncAndPublish P (ch_session h) (ch_listeners h) w3))
        \<and> (\<forall>u. st_get u (db_media (w_db w3)) = (if u \<in> set (opt_or urls []) then None else st_get u (db_media (w_db w2))))
        \<and> db_messages (w_db w3) = db_messages (w_db w2)"
proof (cases r)
  case (Inl e)
  then show ?thesis using assms(2-4) by (simp add: deleteMessage_def amend_def io_simps)
next
  case (Inr x)
  let ?us = "opt_or urls []"
  obtain w3 where d: "for_each ?us (drop_media P (se_token (ch_session h))) w2 = (Inr (), w3)"
      "\<forall>u. st_get u (db_media (w_db w3)) = (if u \<in> set ?us then None else st_get u (db_media (w_db w2)))"
      "db_messages (w_db w3) = db_messages (w_db w2)"
    using drop_all_media [OF assms(1), of ?us "se_token (ch_session h)" w2] by blast
  have "deleteMessage P h msgId urls w = (Inr Delivered, snd (syncAndPublish P (ch_session h) (ch_listeners h) w3))"
  proof -
    have c: "(case urls of Some us \<Rightarrow> if DeleteA = DeleteA then for_each us (drop_media P (se_token (ch_session h))) else ret ()
        | None \<Rightarrow> ret ()) w2 = (Inr (), w3)"
      using d(1) by (cases urls) (simp_all add: opt_or_def)
    obtain w4 where y: "syncAndPublish P (ch_session h) (ch_listeners h) w3 = (Inr (), w4)"
      using publish_returns [of P "ch_session h" "ch_listeners h" w3] by (metis prod.collapse)
    then have "publish_chat P h w3 = (Inr Delivered, w4)" by (simp add: publish_chat_def io_simps)
    then show ?thesis
      unfolding deleteMessage_def amend_def using assms(2-4) Inr c y by (simp only: catch_err_app await_app if_False prod.case sum.case snd_conv)
  qed
  with d(2,3) Inr show ?thesis by auto
qed

section \<open>Concrete runs\<close>

text \<open>A server that keeps what is put: the state is a counter for the object names and the objects; a
  presigned URL is the key itself.\<close>

type_synonym store_state = "nat \<times> (string \<times> bytes) list"

definition reply :: "nat \<Rightarrow> json option \<Rightarrow> bytes \<Rightarrow> http_response" where
  "reply status j b = \<lparr>rs_status = status, rs_status_text = [], rs_json_type = (j \<noteq> None), rs_json = j, rs_bytes = b\<rparr>"

definition serve :: "http_request \<Rightarrow> store_state \<Rightarrow> http_response option \<times> store_state" where
  "serve rq n =
     (case rq_method rq of
        POST \<Rightarrow> (Some (reply 200 (Some (JObj [(''presigned_url'',
            case rq_body rq of JsonBody j \<Rightarrow> JStr (opt_or (str_field ''key'' j) []) | _ \<Rightarrow> JNull)])) []), n)
      | PUT \<Rightarrow> (case rq_body rq of
            BytesBody b \<Rightarrow> (Some (reply 200 None []), fst n, AList.update (rq_path rq) b (snd n))
          | _ \<Rightarrow> (Some (reply 400 None []), n))
      | GET \<Rightarrow> (case rq_query rq of
            [(_, key)] \<Rightarrow> (case map_of (snd n) key of Some b \<Rightarrow> (Some (reply 200 None b), n) | None \<Rightarrow> (Some (reply 404 None []), n))
          | _ \<Rightarrow> (Some (reply 404 None []), n))
      | DELETE \<Rightarrow> (Some (reply 204 None []), fst n, AList.delete (rq_path rq) (snd n)))"

definition store_platform :: "store_state platform" where
  "store_platform = quiet_platform\<lparr>pl_fetch := serve, pl_ulid := (\<lambda>n. (show_nat (fst n), (fst n + 1, snd n)))\<rparr>"

definition demo_chat_session :: session where
  "demo_chat_session = \<lparr>se_token = ''t'', se_userId = ''U1'', se_deviceId = ''D1'', se_handle = ''ann'',
     se_sharingPrivateKey = \<lparr>ck_raw = ''k'', ck_extractable = False\<rparr>, se_sharingPublicKeyBytes = ''k'',
     se_backupKey = \<lparr>ck_raw = ''b'', ck_extractable = False\<rparr>, se_keyVersion = 1\<rparr>"

definition empty_world :: "'n \<Rightarrow> 'n world" where
  "empty_world n = \<lparr>w_db = empty_idb, w_ls = [], w_mgr = empty_mgr, w_events = [], w_net = n\<rparr>"

definition demo_photo :: picked_file where
  "demo_photo = \<lparr>pk_name = ''a.png'', pk_type = ''image/png'', pk_bytes = ''original''\<rparr>"

lemma store_platform_law: "store_law store_platform (\<lambda>n. map_of (snd n)) Some"
proof -
  let ?S = "\<lambda>n :: store_state. map_of (snd n)"
  have 1: "\<forall>t key m v url v'. storePresign store_platform t key m v = (Inr url, v') \<longrightarrow> Some url = Some key"
    by (auto simp: storePresign_def request_def io_simps do_fetch_def store_platform_def serve_def presign_request_def
        api_request_def finish_request_def reply_def read_body_def res_ok_def)
  have 2: "\<forall>url body n res key. fst (pl_fetch store_platform (put_request url body) n) = Some res \<and> res_ok res \<and> Some url = Some key \<longrightarrow>
      ?S (snd (pl_fetch store_platform (put_request url body) n)) key = Some body"
    by (simp add: store_platform_def serve_def put_request_def update_conv')
  have 3: "\<forall>key b. silent store_platform (\<lambda>n. ?S n key = Some b)"
    by (simp add: silent_def store_platform_def quiet_platform_def)
  have 4: "\<forall>rq key b. rq_method rq \<noteq> DELETE \<and> (rq_method rq = PUT \<longrightarrow> Some (rq_path rq) \<noteq> Some key) \<longrightarrow>
      unmoved store_platform (\<lambda>n. ?S n key = Some b) rq"
    by (auto simp: unmoved_def store_platform_def serve_def update_conv'
        split: http_method.splits http_body.splits list.splits option.splits)
  have 5: "\<forall>t key n res. fst (pl_fetch store_platform (object_request GET t key) n) = Some res \<and> res_ok res \<longrightarrow>
      ?S n key = Some (rs_bytes res)"
    by (auto simp: store_platform_def serve_def object_request_def api_request_def reply_def res_ok_def split: option.splits)
  from 1 2 3 4 5 show ?thesis unfolding store_law_def by simp
qed

lemma demo_reencode:
  "reencodeImage demo_codec src OPTIMIZED_MAX_EDGE q = Inr \<lparr>re_blob = replicate 256 (CHR ''j''), re_width = 2048, re_height = 1536\<rparr>"
  "reencodeImage demo_codec src PREVIEW_MAX_EDGE q = Inr \<lparr>re_blob = replicate 64 (CHR ''j''), re_width = 512, re_height = 384\<rparr>"
proof -
  have "\<lfloor>4097 / 2 :: rat\<rfloor> = 2048" "\<lfloor>3073 / 2 :: rat\<rfloor> = 1536" "\<lfloor>1025 / 2 :: rat\<rfloor> = 512" "\<lfloor>769 / 2 :: rat\<rfloor> = 384"
    by (simp_all add: floor_eq_iff)
  then show "reencodeImage demo_codec src OPTIMIZED_MAX_EDGE q = Inr \<lparr>re_blob = replicate 256 (CHR ''j''), re_width = 2048, re_height = 1536\<rparr>"
    "reencodeImage demo_codec src PREVIEW_MAX_EDGE q = Inr \<lparr>re_blob = replicate 64 (CHR ''j''), re_width = 512, re_height = 384\<rparr>"
    by (simp_all add: reencodeImage_def demo_codec_def fitWithin_def Let_def scale_edge_def math_round_def
        PREVIEW_MAX_EDGE_def OPTIMIZED_MAX_EDGE_def)
qed

lemma demo_prepare:
  "prepareMediaForSend demo_codec demo_photo (empty_world n) =
     (Inr \<lparr>pm_blob = replicate 256 (CHR ''j''), pm_extras = extras_for ''image/jpeg'' True (Some (2048, 1536)),
        pm_preview = Some \<lparr>re_blob = replicate 64 (CHR ''j''), re_width = 512, re_height = 384\<rparr>\<rparr>, empty_world n)"
proof -
  have "makePreview demo_codec b = Inr (Some \<lparr>re_blob = replicate 64 (CHR ''j''), re_width = 512, re_height = 384\<rparr>)" for b
    by (simp add: makePreview_def PREVIEW_QUALITY_STEPS_def demo_reencode PREVIEW_TARGET_BYTES_def)
  moreover have "isOptimizableImage (pk_type demo_photo)" by (simp add: isOptimizableImage_def demo_photo_def)
  ultimately show ?thesis
    by (subst prepare_optimized)
      (simp_all add: empty_world_def demo_reencode prepared_def maybePreview_def needsPreview_def PREVIEW_THRESHOLD_EDGE_def)
qed

lemma demo_upload:
  assumes "length b \<le> MAX_MEDIA_BYTES"
  shows "\<exists>url enc w'. encryptAndUpload store_platform demo_chat_session b (w :: store_state world) = (Inr (url, enc), w')"
  using assms
  by (auto simp: encryptAndUpload_def encryptMedia_def uploadMedia_def storePresign_def request_def finish_request_def
      read_body_def presign_request_def api_request_def io_simps do_fetch_def store_platform_def quiet_platform_def serve_def
      reply_def res_ok_def Let_def putWithRetry_def put_request_def eval_nat_numeral split: prod.splits)

theorem sent_media_opens_witness:
  "\<exists>payload w' (mf :: media_file) p. media_payload store_platform demo_codec demo_chat_session demo_photo None (empty_world (0, [])) = (Inr payload, w')
     \<and> mf_preview mf = Some p
     \<and> opens store_platform (\<lambda>n. map_of (snd n)) (w_net w') (dp_url p) (dp_key p) (dp_iv p) (replicate 64 (CHR ''j''))"
proof -
  obtain url enc w1 where 1: "encryptAndUpload store_platform demo_chat_session (replicate 256 (CHR ''j'')) (empty_world (0, []))
      = (Inr (url, enc), w1)"
    using demo_upload [of "replicate 256 (CHR ''j'')" "empty_world (0, [])"] by (auto simp: MAX_MEDIA_BYTES_def)
  obtain url2 enc2 w2 where 2: "encryptAndUpload store_platform demo_chat_session (replicate 64 (CHR ''j'')) w1 = (Inr (url2, enc2), w2)"
    using demo_upload [of "replicate 64 (CHR ''j'')" w1] by (auto simp: MAX_MEDIA_BYTES_def)
  obtain payload where p: "media_payload store_platform demo_codec demo_chat_session demo_photo None (empty_world (0, [])) = (Inr payload, w2)"
    by (simp add: media_payload_def io_simps demo_prepare all_of_def upload_preview_def 1 2)
  have a: "aes_law store_platform" "pl_aes_key_ok store_platform k" for k
    by (simp_all add: aes_law_def store_platform_def quiet_platform_def)
  obtain pm :: prepared_media and mf :: media_file where m: "prepareMediaForSend demo_codec demo_photo (empty_world (0, []) :: store_state world) = (Inr pm, empty_world (0, []))"
      "case pm_preview pm of None \<Rightarrow> mf_preview mf = None
       | Some r \<Rightarrow> \<exists>p. mf_preview mf = Some p
           \<and> opens store_platform (\<lambda>n. map_of (snd n)) (w_net w2) (dp_url p) (dp_key p) (dp_iv p) (re_blob r)"
    using sent_media_opens [OF store_platform_law a p] by blast
  from m(1) have "pm_preview pm = Some \<lparr>re_blob = replicate 64 (CHR ''j''), re_width = 512, re_height = 384\<rparr>"
    by (auto simp: demo_prepare)
  with m(2) p show ?thesis by auto
qed

definition demo_hook :: "'n chat_hook" where
  "demo_hook = \<lparr>ch_handle = None, ch_isSaved = True, ch_session = demo_chat_session, ch_hasManager = True, ch_self = None,
     ch_created = (\<lambda>_ _. ret ()), ch_listeners = [], ch_busy = False, ch_online = True\<rparr>"

lemma catch_settles: "\<exists>x w'. catch_err m (\<lambda>e. ret (f e)) w = (Inr x, w')"
  by (simp add: catch_err_app ret_app split: prod.split sum.split)

lemma sendMedia_settles: "\<exists>out w'. sendMedia P I h file caption w = (Inr out, w')"
  unfolding sendMedia_def by (cases "blocked h") (simp only: if_True ret_app, blast, simp only: if_False catch_settles)

theorem optimized_never_ships_original_witness:
  "\<exists>w'. sendMedia store_platform (demo_codec\<lparr>im_size := \<lambda>_. None\<rparr>) demo_hook demo_photo None (empty_world (0, []))
     = (Inr (Alerted optimize_alert), w') \<and> snd (w_net w') = []"
proof -
  let ?I = "demo_codec\<lparr>im_size := \<lambda>_. None\<rparr>" and ?w = "empty_world (0, []) :: store_state world"
  have r: "recipient store_platform demo_hook ?w = (Inr (''U1'', ''k''), ?w)"
    by (simp add: recipient_def resolveRecipient_def demo_hook_def demo_chat_session_def ret_app)
  have q: "map_of (w_ls ?w) PHOTO_QUALITY_KEY \<noteq> Some ''original''" by (simp add: empty_world_def)
  have i: "isOptimizableImage (pk_type demo_photo)" by (simp add: isOptimizableImage_def demo_photo_def)
  have f: "reencodeImage ?I b e k = Inl (JsError ''createImageBitmap'')" for b e k by (simp add: reencodeImage_def)
  have u: "unmoved store_platform (\<lambda>n. snd n = []) (api_request GET (''/v1/resolve/'' @ encodeURIComponent x) [] None None)" for x
    by (simp add: unmoved_def store_platform_def serve_def api_request_def)
  have z: "snd (w_net ?w) = []" by (simp add: empty_world_def)
  obtain out w' where s: "sendMedia store_platform ?I demo_hook demo_photo None ?w = (Inr out, w')"
    using sendMedia_settles by blast
  from optimized_never_ships_original [OF i q u z s] r show ?thesis
    using s by (auto simp: f blocked_def demo_hook_def demo_photo_def MAX_MEDIA_BYTES_def)
qed

definition ok_platform :: "unit platform" where
  "ok_platform = quiet_platform\<lparr>pl_fetch := (\<lambda>rq n. (Some (reply (if rq_method rq = DELETE then 500 else 200) None []), n))\<rparr>"

definition cached_world :: "unit world" where
  "cached_world = (empty_world ())\<lparr>w_db := empty_idb\<lparr>db_media := [(''m'', \<lparr>mb_bytes = ''x'', mb_mime = [], mb_cachedAt = 0\<rparr>)]\<rparr>\<rparr>"

lemma demo_amendment:
  "\<exists>w2. sendAmendment ok_platform None (\<lambda>_ _. ret ()) (sender_of demo_chat_session) ''U1'' ''k'' ''01A'' DeleteA None cached_world = (Inr (), w2)"
  by (simp add: sendAmendment_def sendInnerPayload_def send_def SEND_ATTEMPTS_def send_request_def api_request_def request_def do_fetch_def
      finish_request_def res_ok_def reply_def recordShare_def recordKeyShare_def
      prepare_send_def current_outbound_def getOutbound_def install_outbound_def loadOutboundSession_def
      persistOutbound_def saveOutboundSession_def add_self_def needsRotation_def eval_nat_numeral
      ROTATION_THRESHOLD_def share_envelopes_def seal_session_key_def importSharingPublicKey_def eciesEncrypt_def
      key_share_envelope_def encryptOutbound_def message_envelopes_def message_envelope_def Let_def io_simps
      demo_chat_session_def sender_of_def ok_platform_def quiet_platform_def cached_world_def empty_world_def empty_mgr_def empty_idb_def
      del: stringify.simps)

end
