(* ===== verification/ChatOpen.thy ===== *)
theory ChatOpen
  imports ChatSend
begin

text \<open>
  web/src/hooks/useChat.ts: opening a conversation and keeping it current. The hook resolves the
  handle to a conversation, reads its messages, freezes the \<open>New\<close> divider and marks it read. Promises
  settle as events, between which other parts of the client may change the world; a refresh whose effect
  was cleaned up is cancelled, a resolution has no such flag.
\<close>

section \<open>State\<close>

datatype refresh_phase = FreezeBoundary | LoadRows | MarkRead int

record refresh_run =
  rf_id :: nat
  rf_effect :: nat
  rf_conv :: string
  rf_initial :: bool
  rf_phase :: refresh_phase

record chat_view =
  cv_handle :: "string option"
  cv_convId :: "string option"
  cv_messages :: "ui_message list"
  cv_loading :: bool
  cv_boundary :: "int option"
  cv_boundaryConv :: "string option"
  cv_title :: string
  cv_resolving :: "(nat \<times> string) list"
  cv_effect :: "nat option"
  cv_runs :: "refresh_run list"
  cv_next :: nat
  cv_notified :: nat

definition new_view :: chat_view where
  "new_view = \<lparr>cv_handle = None, cv_convId = None, cv_messages = [], cv_loading = True, cv_boundary = None, cv_boundaryConv = None,
     cv_title = [], cv_resolving = [], cv_effect = None, cv_runs = [], cv_next = 0, cv_notified = 0\<rparr>"

section \<open>The effects\<close>

definition start_refresh :: "bool \<Rightarrow> string \<Rightarrow> nat \<Rightarrow> chat_view \<Rightarrow> chat_view" where
  "start_refresh initial c e v =
     (let freeze = (initial \<and> cv_boundaryConv v \<noteq> Some c) in
      v\<lparr>cv_boundaryConv := (if freeze then Some c else cv_boundaryConv v),
        cv_runs := cv_runs v @ [\<lparr>rf_id = cv_next v, rf_effect = e, rf_conv = c, rf_initial = initial,
          rf_phase = (if freeze then FreezeBoundary else LoadRows)\<rparr>],
        cv_next := cv_next v + 1\<rparr>)"

definition load_effect :: "chat_view \<Rightarrow> chat_view" where
  "load_effect v =
     (case cv_convId v of
        None \<Rightarrow> v\<lparr>cv_effect := None\<rparr>
      | Some c \<Rightarrow> start_refresh True c (cv_next v) (v\<lparr>cv_effect := Some (cv_next v), cv_next := cv_next v + 1\<rparr>))"

definition setConvId :: "string \<Rightarrow> chat_view \<Rightarrow> chat_view" where
  "setConvId c v = (if cv_convId v = Some c then v else load_effect (v\<lparr>cv_convId := Some c\<rparr>))"

definition resolve_effect :: "session \<Rightarrow> chat_view \<Rightarrow> chat_view" where
  "resolve_effect s v =
     (if cv_handle v = Some ''saved'' then setConvId (conversationId (se_userId s) (se_userId s)) v
      else if \<not> truthy (cv_handle v) then v
      else v\<lparr>cv_resolving := cv_resolving v @ [(cv_next v, the (cv_handle v))], cv_next := cv_next v + 1\<rparr>)"

definition navigate :: "session \<Rightarrow> string option \<Rightarrow> chat_view \<Rightarrow> chat_view" where
  "navigate s h v = (if cv_handle v = h then v else resolve_effect s (v\<lparr>cv_handle := h\<rparr>))"

definition inbox_updated :: "chat_view \<Rightarrow> chat_view" where
  "inbox_updated v =
     (case (cv_convId v, cv_effect v) of
        (Some c, Some e) \<Rightarrow> start_refresh False c e v
      | _ \<Rightarrow> v)"

section \<open>Resolving the handle\<close>

definition offline_contact :: "'n platform \<Rightarrow> session \<Rightarrow> string \<Rightarrow> js_error \<Rightarrow> chat_view \<times> 'n world \<Rightarrow> chat_view \<times> 'n world" where
  "offline_contact P s handle e st =
     (case e of
        TypeErr _ \<Rightarrow>
          (case loadAllContacts P (snd st) of
             (Inr contacts, w1) \<Rightarrow>
               (case find (\<lambda>(u, h). h = handle) contacts of
                  Some (u, _) \<Rightarrow> (setConvId (conversationId (se_userId s) u) (fst st), w1)
                | None \<Rightarrow> (fst st, w1))
           | (Inl _, w1) \<Rightarrow> (fst st, w1))
      | _ \<Rightarrow> st)"

definition drop_resolve :: "nat \<Rightarrow> chat_view \<Rightarrow> chat_view" where
  "drop_resolve i v = v\<lparr>cv_resolving := filter (\<lambda>x. fst x \<noteq> i) (cv_resolving v)\<rparr>"

definition show_title :: "resolve_live \<Rightarrow> chat_view \<Rightarrow> chat_view" where
  "show_title live v = (if truthy (rl_display_name live) then v\<lparr>cv_title := the (rl_display_name live)\<rparr> else v)"

definition settle_resolve :: "'n platform \<Rightarrow> session \<Rightarrow> nat \<Rightarrow> chat_view \<times> 'n world \<Rightarrow> chat_view \<times> 'n world" where
  "settle_resolve P s i st =
     (case map_of (cv_resolving (fst st)) i of
        None \<Rightarrow> st
      | Some handle \<Rightarrow>
          (let v = drop_resolve i (fst st) in
           case resolve P handle (snd st) of
             (Inr (Live live), w1) \<Rightarrow>
               (case saveContact P (rl_user_id live) handle w1 of
                  (Inl e, w2) \<Rightarrow> offline_contact P s handle e (show_title live v, w2)
                | (Inr _, w2) \<Rightarrow>
                    (setConvId (conversationId (se_userId s) (rl_user_id live)) (show_title live v),
                     snd (detached (uploadContacts P (se_token s) (se_userId s) (se_backupKey s) (se_keyVersion s)) (\<lambda>_. ret ()) w2)))
           | (Inr _, w1) \<Rightarrow> (v, w1)
           | (Inl e, w1) \<Rightarrow> offline_contact P s handle e (v, w1)))"

section \<open>Refreshing\<close>

definition rows_of :: "string \<Rightarrow> stored_message list \<Rightarrow> stored_message list" where
  "rows_of c = filter (\<lambda>m. sm_conversationId m = c)"

definition latest_of_rows :: "stored_message list \<Rightarrow> int" where
  "latest_of_rows rows = fold (\<lambda>m latest. max latest (sm_timestamp m)) rows 0"

definition drop_refresh :: "nat \<Rightarrow> chat_view \<Rightarrow> chat_view" where
  "drop_refresh i v = v\<lparr>cv_runs := filter (\<lambda>r. rf_id r \<noteq> i) (cv_runs v)\<rparr>"

definition wait_refresh :: "refresh_run \<Rightarrow> refresh_phase \<Rightarrow> chat_view \<Rightarrow> chat_view" where
  "wait_refresh r ph v = v\<lparr>cv_runs := cv_runs v @ [r\<lparr>rf_phase := ph\<rparr>]\<rparr>"

definition refresh_failed :: "refresh_run \<Rightarrow> chat_view \<Rightarrow> chat_view" where
  "refresh_failed r v = (if rf_initial r \<and> cv_effect v = Some (rf_effect r) then v\<lparr>cv_loading := False\<rparr> else v)"

definition apply_rows :: "refresh_run \<Rightarrow> ui_message list \<Rightarrow> chat_view \<Rightarrow> chat_view" where
  "apply_rows r msgs v = v\<lparr>cv_messages := msgs, cv_loading := (if rf_initial r then False else cv_loading v)\<rparr>"

definition settle_refresh :: "'n platform \<Rightarrow> session \<Rightarrow> nat \<Rightarrow> chat_view \<times> 'n world \<Rightarrow> chat_view \<times> 'n world" where
  "settle_refresh P s i st =
     (case find (\<lambda>r. rf_id r = i) (cv_runs (fst st)) of
        None \<Rightarrow> st
      | Some r \<Rightarrow>
          (let v = drop_refresh i (fst st); w = snd st; cancelled = (cv_effect v \<noteq> Some (rf_effect r)) in
           case rf_phase r of
             FreezeBoundary \<Rightarrow>
               (case getConversationLastRead P (rf_conv r) w of
                  (Inl _, w1) \<Rightarrow> (refresh_failed r v, w1)
                | (Inr lr, w1) \<Rightarrow> (wait_refresh r LoadRows (if cancelled then v else v\<lparr>cv_boundary := Some lr\<rparr>), w1))
           | LoadRows \<Rightarrow>
               (case loadMessages P (se_userId s) w of
                  (Inl _, w1) \<Rightarrow> (refresh_failed r v, w1)
                | (Inr rows, w1) \<Rightarrow>
                    (case toMessages (rows_of (rf_conv r) rows) (se_userId s) of
                       Inl _ \<Rightarrow> (refresh_failed r v, w1)
                     | Inr msgs \<Rightarrow>
                         (if cancelled then v
                          else wait_refresh r (MarkRead (latest_of_rows (rows_of (rf_conv r) rows))) (apply_rows r msgs v), w1)))
           | MarkRead latest \<Rightarrow>
               (if latest \<le> 0 then (v, w)
                else (case markConversationRead P (rf_conv r) latest w of
                  (Inl _, w1) \<Rightarrow> (refresh_failed r v, w1)
                | (Inr marked, w1) \<Rightarrow> (if marked then v\<lparr>cv_notified := cv_notified v + 1\<rparr> else v, w1)))))"

section \<open>Events\<close>

datatype 'n view_event =
    NavigateEv "string option"
  | SessionEv
  | InboxEv
  | ResolveEv nat
  | RefreshEv nat
  | ElsewhereEv "'n world \<Rightarrow> 'n world"

fun view_step :: "'n platform \<Rightarrow> session \<Rightarrow> 'n view_event \<Rightarrow> chat_view \<times> 'n world \<Rightarrow> chat_view \<times> 'n world" where
  "view_step P s (NavigateEv h) (v, w) = (navigate s h v, w)"
| "view_step P s SessionEv (v, w) = (load_effect (resolve_effect s v), w)"
| "view_step P s InboxEv (v, w) = (inbox_updated v, w)"
| "view_step P s (ResolveEv i) st = settle_resolve P s i st"
| "view_step P s (RefreshEv i) st = settle_refresh P s i st"
| "view_step P s (ElsewhereEv f) (v, w) = (v, f w)"

section \<open>A refresh shows the open conversation\<close>

definition view_ok :: "chat_view \<Rightarrow> bool" where
  "view_ok v \<longleftrightarrow> (\<forall>e. cv_effect v = Some e \<longrightarrow> e < cv_next v
        \<and> (\<exists>c. cv_convId v = Some c \<and> (\<forall>r \<in> set (cv_runs v). rf_effect r = e \<longrightarrow> rf_conv r = c)))
     \<and> (\<forall>r \<in> set (cv_runs v). rf_effect r < cv_next v \<and> rf_id r < cv_next v)"

lemma view_ok_fields [simp]:
  "view_ok (v\<lparr>cv_handle := h\<rparr>) = view_ok v" "view_ok (v\<lparr>cv_messages := ms\<rparr>) = view_ok v"
  "view_ok (v\<lparr>cv_loading := l\<rparr>) = view_ok v" "view_ok (v\<lparr>cv_boundary := b\<rparr>) = view_ok v" "view_ok (v\<lparr>cv_title := t\<rparr>) = view_ok v"
  "view_ok (v\<lparr>cv_notified := n\<rparr>) = view_ok v" "view_ok (v\<lparr>cv_resolving := rs\<rparr>) = view_ok v"
  by (simp_all add: view_ok_def)

lemma new_view_ok: "view_ok new_view"
  by (simp add: view_ok_def new_view_def)

lemma load_effect_ok:
  assumes "\<forall>r \<in> set (cv_runs v). rf_effect r < cv_next v \<and> rf_id r < cv_next v"
  shows "view_ok (load_effect v)"
proof (cases "cv_convId v")
  case (Some c)
  have "\<forall>r \<in> set (cv_runs v). rf_effect r \<noteq> cv_next v" using assms by auto
  then show ?thesis using Some assms by (auto simp: load_effect_def start_refresh_def view_ok_def Let_def less_Suc_eq)
qed (use assms in \<open>simp add: load_effect_def view_ok_def\<close>)

lemma setConvId_ok: "view_ok v \<Longrightarrow> view_ok (setConvId c v)"
  unfolding setConvId_def by (auto intro!: load_effect_ok) (simp_all add: view_ok_def)

lemma resolve_effect_ok: "view_ok v \<Longrightarrow> view_ok (resolve_effect s v)"
  by (auto simp: resolve_effect_def setConvId_ok) (auto simp: view_ok_def)

lemma inbox_updated_ok: "view_ok v \<Longrightarrow> view_ok (inbox_updated v)"
  by (auto simp: inbox_updated_def start_refresh_def Let_def view_ok_def split: option.splits)

lemma offline_contact_ok: "view_ok (fst st) \<Longrightarrow> view_ok (fst (offline_contact P s h e st))"
  by (auto simp: offline_contact_def setConvId_ok split: js_error.split prod.split sum.split option.split)

lemma show_title_ok: "view_ok v \<Longrightarrow> view_ok (show_title l v)"
  by (simp add: show_title_def)

lemma settle_resolve_ok: "view_ok (fst st) \<Longrightarrow> view_ok (fst (settle_resolve P s i st))"
  by (auto simp: settle_resolve_def Let_def drop_resolve_def setConvId_ok offline_contact_ok show_title_ok
      split: option.split prod.split sum.split resolve_result.split)

lemma drop_refresh_ok: "view_ok v \<Longrightarrow> view_ok (drop_refresh i v)"
  by (fastforce simp: view_ok_def drop_refresh_def)

lemma wait_refresh_ok:
  assumes "view_ok v" and "rf_effect r < cv_next v \<and> rf_id r < cv_next v" and "\<And>c. cv_effect v = Some (rf_effect r) \<Longrightarrow> cv_convId v = Some c \<Longrightarrow> rf_conv r = c"
  shows "view_ok (wait_refresh r ph v)"
  using assms by (auto simp: view_ok_def wait_refresh_def)

lemma settle_refresh_ok:
  assumes "view_ok (fst st)"
  shows "view_ok (fst (settle_refresh P s i st))"
proof (cases "find (\<lambda>r. rf_id r = i) (cv_runs (fst st))")
  case (Some r)
  then have r: "r \<in> set (cv_runs (fst st))" by (auto simp: find_Some_iff)
  let ?v = "drop_refresh i (fst st)"
  have d: "view_ok ?v" using assms by (rule drop_refresh_ok)
  have e: "rf_effect r < cv_next ?v \<and> rf_id r < cv_next ?v" "\<And>c. cv_effect ?v = Some (rf_effect r) \<Longrightarrow> cv_convId ?v = Some c \<Longrightarrow> rf_conv r = c"
    using assms r by (auto simp: view_ok_def drop_refresh_def)
  have w: "view_ok (wait_refresh r ph ?v)" "view_ok (wait_refresh r ph (?v\<lparr>cv_boundary := b\<rparr>))"
    "view_ok (wait_refresh r ph (apply_rows r ms ?v))" for ph b ms
    using d e by (auto intro!: wait_refresh_ok simp: apply_rows_def)
  show ?thesis
    using Some d w
    by (auto simp: settle_refresh_def Let_def refresh_failed_def split: refresh_phase.split prod.split sum.split)
qed (use assms in \<open>simp add: settle_refresh_def\<close>)

lemma session_effects_ok: "view_ok v \<Longrightarrow> view_ok (load_effect (resolve_effect s v))"
  using resolve_effect_ok [of v s] by (intro load_effect_ok) (simp add: view_ok_def)

lemma view_step_ok: "view_ok (fst st) \<Longrightarrow> view_ok (fst (view_step P s ev st))"
  by (cases st; cases ev)
    (auto simp: navigate_def resolve_effect_ok inbox_updated_ok session_effects_ok
      intro: settle_resolve_ok [of "(a, b)" for a b, simplified] settle_refresh_ok [of "(a, b)" for a b, simplified])

lemma view_steps_ok: "view_ok (fst st) \<Longrightarrow> view_ok (fst (fold (view_step P s) evs st))"
  by (induction evs arbitrary: st) (simp_all add: view_step_ok)

text \<open>C18: a chat only ever shows the conversation it has open. Whatever was navigated, resolved,
  synchronised or cancelled before, a refresh that changes the messages shows exactly the materialised
  rows of the conversation that is open when it settles, as the database holds them then.\<close>

theorem refresh_shows_open_conversation:
  assumes "fold (view_step P s) evs (new_view, w0) = (v, w)" and "view_step P s (RefreshEv i) (v, w) = (v', w')"
    and "cv_messages v' \<noteq> cv_messages v"
  shows "\<exists>c. cv_convId v = Some c \<and> cv_convId v' = Some c
    \<and> toMessages (rows_of c (by_timestamp (se_userId s) (w_db w))) (se_userId s) = Inr (cv_messages v')"
proof -
  have ok: "view_ok v" using view_steps_ok [of "(new_view, w0)" P s evs] assms(1) by (simp add: new_view_ok)
  obtain r where r: "find (\<lambda>r. rf_id r = i) (cv_runs v) = Some r"
    using assms(2,3) by (cases "find (\<lambda>r. rf_id r = i) (cv_runs v)") (auto simp: settle_refresh_def)
  then have m: "r \<in> set (cv_runs v)" by (auto simp: find_Some_iff)
  have f: "cv_messages (drop_refresh i v) = cv_messages v" "cv_effect (drop_refresh i v) = cv_effect v"
      "cv_convId (drop_refresh i v) = cv_convId v"
    by (simp_all add: drop_refresh_def)
  have ph: "rf_phase r = LoadRows"
    using assms(2,3) r f
    by (auto simp: settle_refresh_def Let_def refresh_failed_def wait_refresh_def
        split: refresh_phase.splits prod.splits sum.splits if_splits)
  obtain x w1 where l: "loadMessages P (se_userId s) w = (x, w1)" by fastforce
  from assms(2,3) r f ph l obtain msgs where c: "cv_effect v = Some (rf_effect r)" and x: "x = Inr (by_timestamp (se_userId s) (w_db w))"
      and t: "toMessages (rows_of (rf_conv r) (by_timestamp (se_userId s) (w_db w))) (se_userId s) = Inr msgs"
      and v': "cv_messages v' = msgs" "cv_convId v' = cv_convId v"
    by (auto simp: settle_refresh_def Let_def refresh_failed_def wait_refresh_def apply_rows_def loadMessages_def io_simps
        split: sum.splits if_splits)
  from ok c m obtain d where "cv_convId v = Some d" "rf_conv r = d" unfolding view_ok_def by blast
  with t v' show ?thesis by auto
qed

section \<open>Opening a chat reads it\<close>

lemma latest_ge: "fold (\<lambda>m l. max l (sm_timestamp m)) rows a \<ge> a \<and> (\<forall>m \<in> set rows. sm_timestamp m \<le> fold (\<lambda>m l. max l (sm_timestamp m)) rows a)"
proof (induction rows arbitrary: a)
  case (Cons m rows)
  from Cons [of "max a (sm_timestamp m)"] show ?case by auto
qed simp

lemma find_last: "\<forall>x \<in> set xs. \<not> p x \<Longrightarrow> p y \<Longrightarrow> find p (xs @ [y]) = Some y"
  by (induction xs) simp_all

lemma opened_steps:
  assumes "cv_convId v \<noteq> Some c" and "cv_boundaryConv v \<noteq> Some c" and "view_ok v"
    and "\<And>n. fst (pl_idb P n)" and "toMessages (rows_of c (by_timestamp (se_userId s) (w_db w))) (se_userId s) = Inr msgs"
    and "0 < latest_of_rows (rows_of c (by_timestamp (se_userId s) (w_db w)))"
  shows "\<exists>v3 w2 x w3. fold (view_step P s) (replicate 3 (RefreshEv (Suc (cv_next v)))) (setConvId c v, w) = (v3, w3)
    \<and> cv_messages v3 = msgs \<and> cv_loading v3 = False \<and> cv_boundary v3 = Some (last_read (st_get c (db_conversations (w_db w))))
    \<and> cv_convId v3 = Some c \<and> w_db w2 = w_db w
    \<and> markConversationRead P c (latest_of_rows (rows_of c (by_timestamp (se_userId s) (w_db w)))) w2 = (x, w3)"
proof -
  let ?rows = "rows_of c (by_timestamp (se_userId s) (w_db w))"
  define e where "e = cv_next v"
  define i where "i = Suc (cv_next v)"
  have fresh: "\<forall>r \<in> set (cv_runs v). rf_id r < i" using assms(3) by (fastforce simp: view_ok_def i_def)
  define r where "r = \<lparr>rf_id = i, rf_effect = e, rf_conv = c, rf_initial = True, rf_phase = FreezeBoundary\<rparr>"
  define v1 where "v1 = v\<lparr>cv_convId := Some c, cv_effect := Some e, cv_boundaryConv := Some c, cv_runs := cv_runs v @ [r], cv_next := Suc i\<rparr>"
  have 1: "setConvId c v = v1"
    using assms(1,2) by (simp add: setConvId_def load_effect_def start_refresh_def Let_def v1_def r_def e_def i_def)
  have n: "filter (\<lambda>q. rf_id q \<noteq> i) (cv_runs v) = cv_runs v" "find (\<lambda>q. rf_id q = i) (cv_runs v) = None"
    using fresh by (auto simp: filter_id_conv find_None_iff)
  have fd: "find (\<lambda>q. rf_id q = i) (cv_runs v @ [r\<lparr>rf_phase := ph\<rparr>]) = Some (r\<lparr>rf_phase := ph\<rparr>)" for ph
    using fresh by (auto simp: r_def intro!: find_last)
  have dr: "drop_refresh i (u\<lparr>cv_runs := cv_runs v @ [r\<lparr>rf_phase := ph\<rparr>]\<rparr>) = u\<lparr>cv_runs := cv_runs v\<rparr>" for u ph
    using n by (simp add: drop_refresh_def r_def)
  obtain w1 where b: "getConversationLastRead P c w = (Inr (last_read (st_get c (db_conversations (w_db w)))), w1)" "w_db w1 = w_db w"
    using assms(4) by (simp add: getConversationLastRead_def io_simps)
  obtain w2 where l: "loadMessages P (se_userId s) w1 = (Inr (by_timestamp (se_userId s) (w_db w)), w2)" "w_db w2 = w_db w"
    using assms(4) b(2) by (simp add: loadMessages_def io_simps)
  obtain x w3 where m: "markConversationRead P c (latest_of_rows ?rows) w2 = (x, w3)" by fastforce
  have v1: "v1 = v1\<lparr>cv_runs := cv_runs v @ [r\<lparr>rf_phase := FreezeBoundary\<rparr>]\<rparr>" by (simp add: v1_def r_def)
  define v2 where "v2 = v1\<lparr>cv_boundary := Some (last_read (st_get c (db_conversations (w_db w))))\<rparr>"
  define v3 where "v3 = v2\<lparr>cv_messages := msgs, cv_loading := False\<rparr>"
  have s1: "settle_refresh P s i (v1, w) = (v2\<lparr>cv_runs := cv_runs v @ [r\<lparr>rf_phase := LoadRows\<rparr>]\<rparr>, w1)"
    by (subst v1) (simp add: settle_refresh_def fd dr Let_def, simp add: r_def b wait_refresh_def v1_def v2_def)
  have s2: "settle_refresh P s i (v2\<lparr>cv_runs := cv_runs v @ [r\<lparr>rf_phase := LoadRows\<rparr>]\<rparr>, w1)
      = (v3\<lparr>cv_runs := cv_runs v @ [r\<lparr>rf_phase := MarkRead (latest_of_rows ?rows)\<rparr>]\<rparr>, w2)"
    by (simp add: settle_refresh_def fd dr Let_def) (simp add: r_def l assms(5) wait_refresh_def apply_rows_def v1_def v2_def v3_def)
  have s3: "\<exists>v4. settle_refresh P s i (v3\<lparr>cv_runs := cv_runs v @ [r\<lparr>rf_phase := MarkRead (latest_of_rows ?rows)\<rparr>]\<rparr>, w2) = (v4, w3)
      \<and> cv_messages v4 = msgs \<and> cv_loading v4 = False \<and> cv_boundary v4 = Some (last_read (st_get c (db_conversations (w_db w))))
      \<and> cv_convId v4 = Some c"
    using assms(6) m
    by (simp add: settle_refresh_def fd dr Let_def) (auto simp: r_def refresh_failed_def v1_def v2_def v3_def split: sum.splits)
  from s1 s2 s3 m l(2) show ?thesis by (auto simp: 1 i_def [symmetric] numeral_3_eq_3)
qed

lemma marked_read:
  assumes "markConversationRead P c t w = (x, w')" and "\<And>n. fst (pl_idb P n)" and "idb_ok (w_db w)"
    and "st_get c (db_conversations (w_db w)) \<noteq> None"
  shows "last_read (st_get c (db_conversations (w_db w'))) = max t (last_read (st_get c (db_conversations (w_db w))))
    \<and> db_messages (w_db w') = db_messages (w_db w) \<and> idb_ok (w_db w')"
proof -
  obtain row where r: "st_get c (db_conversations (w_db w)) = Some row" using assms(4) by blast
  then have "(c, row) \<in> set (db_conversations (w_db w))" using assms(3) by (simp add: st_get_in idb_ok_def)
  then have "sc_conversationId row = c" using assms(3) by (auto simp: idb_ok_def)
  note row = r this
  have "idb_ok (w_db w')"
    using keeps_result [OF markConversationRead_keep_ok assms(1)] assms(3) by (simp add: on_db_def)
  then show ?thesis
    using assms(1,2,3) row
    by (auto simp: markConversationRead_def io_simps put_conversations_def st_put_list_def st_get_put idb_okD last_read_def max_def
        split: if_splits)
qed

text \<open>Opening a chat reads it. When the first refresh of a newly opened conversation has settled, the
  messages are the materialised rows, the divider stands at the watermark the conversation had when it
  was opened, and the conversation is read: its watermark covers its newest row and it counts nothing
  unread, with no message row changed.\<close>

lemma opening_reads_chat:
  assumes "fold (view_step P s) evs (new_view, w0) = (v, w)" and "cv_convId v \<noteq> Some c" and "cv_boundaryConv v \<noteq> Some c"
    and "\<And>n. fst (pl_idb P n)" and "idb_ok (w_db w)" and "st_get c (db_conversations (w_db w)) \<noteq> None"
    and "\<forall>m \<in> set (user_messages (se_userId s) (w_db w)). sm_conversationId m = c \<longrightarrow> in_range m"
    and "0 < latest_of_rows (rows_of c (by_timestamp (se_userId s) (w_db w)))"
    and "toMessages (rows_of c (by_timestamp (se_userId s) (w_db w))) (se_userId s) = Inr msgs"
  shows "\<exists>v' w'. fold (view_step P s) (replicate 3 (RefreshEv (Suc (cv_next v)))) (setConvId c v, w) = (v', w')
    \<and> cv_convId v' = Some c \<and> cv_messages v' = msgs \<and> \<not> cv_loading v'
    \<and> cv_boundary v' = Some (last_read (st_get c (db_conversations (w_db w))))
    \<and> (\<forall>m \<in> set (rows_of c (by_timestamp (se_userId s) (w_db w))). sm_timestamp m \<le> last_read (st_get c (db_conversations (w_db w'))))
    \<and> map_of (unread_of (se_userId s) (w_db w')) c = None \<and> db_messages (w_db w') = db_messages (w_db w)"
proof -
  let ?rows = "rows_of c (by_timestamp (se_userId s) (w_db w))"
  have ok: "view_ok v" using view_steps_ok [of "(new_view, w0)" P s evs] assms(1) by (simp add: new_view_ok)
  obtain v' w2 x w' where o: "fold (view_step P s) (replicate 3 (RefreshEv (Suc (cv_next v)))) (setConvId c v, w) = (v', w')"
      "cv_messages v' = msgs" "cv_loading v' = False" "cv_boundary v' = Some (last_read (st_get c (db_conversations (w_db w))))"
      "cv_convId v' = Some c" "w_db w2 = w_db w" "markConversationRead P c (latest_of_rows ?rows) w2 = (x, w')"
    using opened_steps [OF assms(2,3) ok assms(4,9,8)] by blast
  from marked_read [OF o(7) assms(4)] assms(5,6) o(6)
  have m: "last_read (st_get c (db_conversations (w_db w'))) = max (latest_of_rows ?rows) (last_read (st_get c (db_conversations (w_db w))))"
      "db_messages (w_db w') = db_messages (w_db w)" "idb_ok (w_db w')"
    by simp_all
  have top: "sm_timestamp q \<le> last_read (st_get c (db_conversations (w_db w')))" if "q \<in> set ?rows" for q
  proof -
    have "sm_timestamp q \<le> latest_of_rows ?rows" using latest_ge [of 0 ?rows] that by (simp add: latest_of_rows_def)
    then show ?thesis using m(1) by simp
  qed
  have "\<not> counts_as_unread (se_userId s) c (last_read (st_get c (db_conversations (w_db w')))) q"
    if "q \<in> set (user_messages (se_userId s) (w_db w'))" for q
  proof -
    have "q \<in> set (user_messages (se_userId s) (w_db w))" using that m(2) by (simp add: user_messages_def)
    then have "sm_conversationId q = c \<longrightarrow> q \<in> set ?rows" using assms(7) by (simp add: rows_of_def by_timestamp_def)
    then show ?thesis using top [of q] by (auto simp: counts_as_unread_def)
  qed
  then have "map_of (unread_of (se_userId s) (w_db w')) c = None"
    by (simp add: unread_of_spec [OF m(3)] Let_def filter_empty_conv)
  with o m(2) top show ?thesis by blast
qed

section \<open>A late resolution shows another chat\<close>

lemma setConvId_fields [simp]:
  "cv_convId (setConvId c v) = Some c" "cv_handle (setConvId c v) = cv_handle v" "cv_resolving (setConvId c v) = cv_resolving v"
  by (simp_all add: setConvId_def load_effect_def start_refresh_def Let_def)

definition two_users :: "unit platform" where
  "two_users = quiet_platform\<lparr>pl_fetch := (\<lambda>rq n. (Some (reply 200 (Some (JObj
     [(''user_id'', JStr (if rq_path rq = ''/v1/resolve/ann'' then ''UA'' else ''UB'')), (''sharing_public_key'', JStr [])])) []), n))\<rparr>"

lemma two_users_resolve:
  "resolve two_users ''ann'' w = (Inr (Live \<lparr>rl_user_id = ''UA'', rl_sharing_public_key = [], rl_display_name = None, rl_avatar_url = None,
     rl_salt = None, rl_kdf = None, rl_key_version = None\<rparr>), w)"
  "resolve two_users ''bob'' w = (Inr (Live \<lparr>rl_user_id = ''UB'', rl_sharing_public_key = [], rl_display_name = None, rl_avatar_url = None,
     rl_salt = None, rl_kdf = None, rl_key_version = None\<rparr>), w)"
proof -
  have "encodeURIComponent ''ann'' = ''ann''" "encodeURIComponent ''bob'' = ''bob''" by code_simp+
  then show "resolve two_users ''ann'' w = (Inr (Live \<lparr>rl_user_id = ''UA'', rl_sharing_public_key = [], rl_display_name = None, rl_avatar_url = None,
     rl_salt = None, rl_kdf = None, rl_key_version = None\<rparr>), w)"
    "resolve two_users ''bob'' w = (Inr (Live \<lparr>rl_user_id = ''UB'', rl_sharing_public_key = [], rl_display_name = None, rl_avatar_url = None,
     rl_salt = None, rl_kdf = None, rl_key_version = None\<rparr>), w)"
    by (simp_all add: resolve_def do_fetch_def io_simps two_users_def api_request_def resolve_outcome_def reply_def res_ok_def read_body_def
        resolve_live_of_def int_field_def)
qed

text \<open>Resolutions are never cancelled: one stays pending until its own answer comes.\<close>

definition resolving_ok :: "chat_view \<Rightarrow> bool" where
  "resolving_ok v \<longleftrightarrow> (\<forall>j \<in> fst ` set (cv_resolving v). j < cv_next v)"

lemma view_fields [simp]:
  "cv_resolving (load_effect v) = cv_resolving v" "cv_resolving (inbox_updated v) = cv_resolving v"
  "cv_resolving (show_title l v) = cv_resolving v" "cv_handle (show_title l v) = cv_handle v"
  "cv_resolving (drop_refresh i v) = cv_resolving v" "cv_resolving (wait_refresh r ph v) = cv_resolving v"
  "cv_resolving (refresh_failed r v) = cv_resolving v" "cv_resolving (apply_rows r ms v) = cv_resolving v"
  "cv_next (drop_refresh i v) = cv_next v" "cv_next (wait_refresh r ph v) = cv_next v"
  "cv_next (refresh_failed r v) = cv_next v" "cv_next (apply_rows r ms v) = cv_next v" "cv_next (show_title l v) = cv_next v"
  "cv_next (drop_resolve i v) = cv_next v" "cv_handle (drop_resolve i v) = cv_handle v"
  by (simp_all add: setConvId_def load_effect_def inbox_updated_def start_refresh_def show_title_def drop_refresh_def
      wait_refresh_def refresh_failed_def apply_rows_def drop_resolve_def Let_def split: option.split)

lemma next_grows: "cv_next v \<le> cv_next (setConvId c v)" "cv_next v \<le> cv_next (load_effect v)" "cv_next v \<le> cv_next (inbox_updated v)"
  by (simp_all add: setConvId_def load_effect_def inbox_updated_def start_refresh_def Let_def split: option.split)

lemma offline_resolving:
  "cv_resolving (fst (offline_contact P s h e st)) = cv_resolving (fst st)" "cv_next (fst st) \<le> cv_next (fst (offline_contact P s h e st))"
  by (auto simp: offline_contact_def next_grows split: js_error.split prod.split sum.split option.split)

lemma settle_resolve_resolving:
  "cv_resolving (fst (settle_resolve P s i st)) = filter (\<lambda>x. fst x \<noteq> i) (cv_resolving (fst st))
   \<and> cv_next (fst st) \<le> cv_next (fst (settle_resolve P s i st))"
proof (cases "map_of (cv_resolving (fst st)) i")
  case None
  then have "filter (\<lambda>x. fst x \<noteq> i) (cv_resolving (fst st)) = cv_resolving (fst st)"
    by (auto simp: map_of_eq_None_iff filter_id_conv)
  with None show ?thesis by (simp add: settle_resolve_def)
next
  case (Some h)
  have d: "cv_resolving (drop_resolve i v) = filter (\<lambda>x. fst x \<noteq> i) (cv_resolving v)" for v by (simp add: drop_resolve_def)
  have g: "cv_next (fst st) \<le> cv_next (setConvId c (show_title l (drop_resolve i (fst st))))" for c l
    using next_grows(1) [of "show_title l (drop_resolve i (fst st))" c] by simp
  have o: "cv_next (fst st) \<le> cv_next (fst (offline_contact P s h e (show_title l (drop_resolve i (fst st)), w)))"
    "cv_next (fst st) \<le> cv_next (fst (offline_contact P s h e (drop_resolve i (fst st), w)))" for e l w
    using offline_resolving(2) [of "(show_title l (drop_resolve i (fst st)), w)" P s h e]
      offline_resolving(2) [of "(drop_resolve i (fst st), w)" P s h e] by simp_all
  from Some show ?thesis
    by (auto simp: settle_resolve_def Let_def d g o offline_resolving(1) split: prod.split sum.split resolve_result.split)
qed

lemma settle_refresh_resolving:
  "cv_resolving (fst (settle_refresh P s i st)) = cv_resolving (fst st)" "cv_next (fst (settle_refresh P s i st)) = cv_next (fst st)"
  by (simp_all add: settle_refresh_def Let_def split: option.split prod.split sum.split refresh_phase.split)

lemma resolve_effect_pending:
  "(\<exists>l. cv_resolving (resolve_effect s v) = cv_resolving v @ l \<and> (\<forall>j \<in> fst ` set l. j < cv_next (resolve_effect s v)))
   \<and> cv_next v \<le> cv_next (resolve_effect s v)"
  using next_grows by (auto simp: resolve_effect_def)

lemma view_step_pending:
  assumes "resolving_ok v" and "view_step P s ev (v, w) = (v', w')"
  shows "resolving_ok v' \<and> (map_of (cv_resolving v) i = Some h \<and> (\<forall>j. ev = ResolveEv j \<longrightarrow> j \<noteq> i) \<longrightarrow> map_of (cv_resolving v') i = Some h)"
proof -
  have mono: "resolving_ok u'" if "resolving_ok u" "set (cv_resolving u') \<subseteq> set (cv_resolving u)" "cv_next u \<le> cv_next u'" for u u'
    using that unfolding resolving_ok_def by fastforce
  have eff: "resolving_ok (resolve_effect s u) \<and> (map_of (cv_resolving u) i = Some h \<longrightarrow> map_of (cv_resolving (resolve_effect s u)) i = Some h)"
    if "resolving_ok u" for u
    using resolve_effect_pending [of s u] that by (fastforce simp: resolving_ok_def map_of_append)
  have drop: "map_of (filter (\<lambda>x. fst x \<noteq> j) xs) i = (if i = j then None else map_of xs i)" for j and xs :: "(nat \<times> string) list"
    by (induction xs) auto
  show ?thesis
  proof (cases ev)
    case (NavigateEv h')
    have "resolving_ok (v\<lparr>cv_handle := h'\<rparr>)" using assms(1) by (simp add: resolving_ok_def)
    from eff [OF this] show ?thesis using assms NavigateEv by (auto simp: navigate_def split: if_splits)
  next
    case SessionEv
    have "resolving_ok (load_effect (resolve_effect s v))"
      by (rule mono [of "resolve_effect s v"]) (use eff [OF assms(1)] next_grows in auto)
    with eff [OF assms(1)] show ?thesis using assms(2) SessionEv by auto
  next
    case InboxEv
    then show ?thesis using assms mono [OF assms(1), of "inbox_updated v"] next_grows(3) by auto
  next
    case (ResolveEv j)
    from settle_resolve_resolving [of P s j "(v, w)"] have r: "cv_resolving v' = filter (\<lambda>x. fst x \<noteq> j) (cv_resolving v)" "cv_next v \<le> cv_next v'"
      using assms(2) ResolveEv by simp_all
    with mono [OF assms(1), of v'] show ?thesis by (auto simp: drop ResolveEv)
  next
    case (RefreshEv j)
    from settle_refresh_resolving [of P s j "(v, w)"] have r: "cv_resolving v' = cv_resolving v" "cv_next v' = cv_next v"
      using assms(2) RefreshEv by simp_all
    with mono [OF assms(1), of v'] show ?thesis by simp
  qed (use assms in auto)
qed

lemma view_run_pending:
  assumes "resolving_ok v" and "fold (view_step P s) evs (v, w) = (v', w')"
  shows "resolving_ok v' \<and> (map_of (cv_resolving v) i = Some h \<and> ResolveEv i \<notin> set evs \<longrightarrow> map_of (cv_resolving v') i = Some h)"
  using assms
proof (induction evs arbitrary: v w)
  case (Cons ev evs)
  obtain v1 w1 where 1: "view_step P s ev (v, w) = (v1, w1)" by fastforce
  note p = view_step_pending [OF Cons.prems(1) 1, of i h]
  from Cons.IH [of v1 w1] p Cons.prems(2) 1 show ?case by auto
qed simp

text \<open>C38: a late resolution shows another chat. The effect that resolves the handle is never cancelled:
  in any run, when the user opens the chat of \<open>h1\<close> and, before its answer, whatever else happens, the
  chat of \<open>h2\<close>, then the answer for \<open>h1\<close>, if it comes, makes the view of \<open>h2\<close> show the conversation
  with \<open>h1\<close>'s user, while what is sent there still goes to the user that \<open>h2\<close> resolves to.\<close>

theorem late_resolution_shows_other_chat:
  assumes "fold (view_step P s) before (new_view, w) = (v0, w0)" and "cv_handle v0 \<noteq> Some h1" and "h1 \<noteq> []" and "h1 \<noteq> ''saved''"
    and "fold (view_step P s) (NavigateEv (Some h1) # between) (v0, w0) = (v, w1)" and "ResolveEv (cv_next v0) \<notin> set between"
    and "cv_handle v = Some h2"
    and "resolve P h1 w1 = (Inr (Live live), w2)" and "saveContact P (rl_user_id live) h1 w2 = (Inr (), w3)"
  shows "\<exists>v' w'. view_step P s (ResolveEv (cv_next v0)) (v, w1) = (v', w') \<and> cv_handle v' = Some h2
    \<and> cv_convId v' = Some (conversationId (se_userId s) (rl_user_id live))
    \<and> (\<forall>u to key. fst (resolveRecipient P s (cv_handle v') False u) = Inr (to, key) \<longrightarrow>
         (\<exists>live2. fst (resolve P h2 u) = Inr (Live live2) \<and> to = rl_user_id live2))"
proof -
  have "resolving_ok new_view" by (simp add: resolving_ok_def new_view_def)
  then have ok: "resolving_ok v0" using view_run_pending [OF _ assms(1)] by blast
  have "map_of (cv_resolving v0) (cv_next v0) = None"
    using ok by (auto simp: resolving_ok_def map_of_eq_None_iff)
  then have p: "map_of (cv_resolving (navigate s (Some h1) v0)) (cv_next v0) = Some h1"
    using assms(2-4) by (simp add: navigate_def resolve_effect_def truthy_def map_add_def)
  have ok1: "resolving_ok (navigate s (Some h1) v0)"
    using view_step_pending [OF ok, of P s "NavigateEv (Some h1)" w0] by simp
  have "fold (view_step P s) between (navigate s (Some h1) v0, w0) = (v, w1)" using assms(5) by simp
  from view_run_pending [OF ok1 this] p assms(6) have m: "map_of (cv_resolving v) (cv_next v0) = Some h1" by blast
  have r: "\<exists>live2. fst (resolve P h2 u) = Inr (Live live2) \<and> to = rl_user_id live2"
    if "fst (resolveRecipient P s (Some h2) False u) = Inr (to, key)" for u to key
    using that by (auto simp: resolveRecipient_def await_app ret_app throw_app or_throw_app truthy_def
        split: if_splits prod.splits sum.splits resolve_result.splits option.splits)
  show ?thesis
    using m assms(7-9) r by (auto simp: settle_resolve_def Let_def)
qed

theorem late_resolution_shows_other_chat_witness:
  "\<exists>v w. fold (view_step two_users demo_chat_session)
       [NavigateEv (Some ''ann''), NavigateEv (Some ''bob''), ResolveEv 1, ResolveEv 0] (new_view, quiet_world) = (v, w)
     \<and> cv_handle v = Some ''bob'' \<and> cv_convId v = Some (conversationId ''U1'' ''UA'')"
proof -
  let ?run = "fold (view_step two_users demo_chat_session)"
  let ?between = "[NavigateEv (Some ''bob''), ResolveEv 1]"
  obtain v w1 where 1: "?run (NavigateEv (Some ''ann'') # ?between) (new_view, quiet_world) = (v, w1)" by fastforce
  have c: "fst (pl_idb two_users n)" for n by (simp add: two_users_def)
  with 1 have h: "cv_handle v = Some ''bob''"
    by (auto simp: navigate_def resolve_effect_def truthy_def new_view_def settle_resolve_def drop_resolve_def two_users_resolve
        saveContact_def io_simps show_title_def Let_def split: prod.splits sum.splits if_splits)
  let ?ua = "\<lparr>rl_user_id = ''UA'', rl_sharing_public_key = [], rl_display_name = None, rl_avatar_url = None,
     rl_salt = None, rl_kdf = None, rl_key_version = None\<rparr>"
  obtain w3 where sv: "saveContact two_users (rl_user_id ?ua) ''ann'' w1 = (Inr (), w3)"
    by (simp add: saveContact_def io_simps c)
  have "?run [] (new_view, quiet_world) = (new_view, quiet_world)" "cv_handle new_view \<noteq> Some ''ann''" "cv_next new_view = 0"
    by (simp_all add: new_view_def)
  from late_resolution_shows_other_chat [OF this(1,2) _ _ 1 _ h two_users_resolve(1) sv] this(3)
  obtain v' w' where 2: "view_step two_users demo_chat_session (ResolveEv 0) (v, w1) = (v', w')" "cv_handle v' = Some ''bob''"
      "cv_convId v' = Some (conversationId ''U1'' ''UA'')"
    by (auto simp: demo_chat_session_def)
  have "?run [NavigateEv (Some ''ann''), NavigateEv (Some ''bob''), ResolveEv 1, ResolveEv 0] (new_view, quiet_world) = (v', w')"
    using 1 2(1) by simp
  with 2 show ?thesis by blast
qed

section \<open>A concrete run\<close>

definition stored_world :: "unit world" where
  "stored_world = quiet_world\<lparr>w_db := empty_idb\<lparr>db_messages := [(''01A'', stored_of ''U1'' demo_message)],
     db_conversations := [(''dm:U1:U2'', \<lparr>sc_conversationId = ''dm:U1:U2'', sc_lastMessageText = ''hi'', sc_lastMessageTimestamp = 5,
       sc_messageCount = 1, sc_lastMessageDeleted = None, sc_lastReadTimestamp = None\<rparr>)]\<rparr>\<rparr>"

lemma stored_rows:
  "user_messages ''U1'' (w_db stored_world) = [stored_of ''U1'' demo_message]"
  "rows_of ''dm:U1:U2'' (by_timestamp ''U1'' (w_db stored_world)) = [stored_of ''U1'' demo_message]"
  "latest_of_rows [stored_of ''U1'' demo_message] = 5" "in_range (stored_of ''U1'' demo_message)"
  "idb_ok (w_db stored_world)" "st_get ''dm:U1:U2'' (db_conversations (w_db stored_world)) \<noteq> None"
  by (simp_all add: stored_world_def user_messages_def st_all_def stored_of_def demo_message_def rows_of_def by_timestamp_def
      in_range_def max_safe_integer_def latest_of_rows_def idb_ok_def empty_idb_def st_ok_def st_get_def)

definition offline_world :: "unit world" where
  "offline_world = stored_world\<lparr>w_db := (w_db stored_world)\<lparr>db_contacts := [(''U2'', ''bob'')]\<rparr>\<rparr>"

lemma offline_steps:
  "resolve quiet_platform ''bob'' offline_world = (Inl (TypeErr ''Failed to fetch''), offline_world)"
  "loadAllContacts quiet_platform offline_world = (Inr [(''U2'', ''bob'')], offline_world)"
  "getConversationLastRead quiet_platform ''dm:U1:U2'' offline_world = (Inr 0, offline_world)"
  "loadMessages quiet_platform ''U1'' offline_world = (Inr (by_timestamp ''U1'' (w_db stored_world)), offline_world)"
  "conversationId ''U1'' ''U2'' = ''dm:U1:U2''"
  by (simp_all add: resolve_def do_fetch_def io_simps quiet_platform_def loadAllContacts_def getConversationLastRead_def loadMessages_def
      offline_world_def stored_world_def empty_idb_def st_get_def last_read_def by_timestamp_def user_messages_def quiet_world_def) code_simp

theorem refresh_shows_open_conversation_witness:
  "\<exists>v w v' w'. fold (view_step quiet_platform demo_chat_session)
        [ElsewhereEv (\<lambda>_. offline_world), NavigateEv (Some ''bob''), ResolveEv 0, RefreshEv 2] (new_view, quiet_world) = (v, w)
     \<and> view_step quiet_platform demo_chat_session (RefreshEv 2) (v, w) = (v', w') \<and> cv_messages v = []
     \<and> (\<exists>c. cv_convId v' = Some c \<and> toMessages (rows_of c (by_timestamp ''U1'' (w_db w))) ''U1'' = Inr (cv_messages v'))"
proof -
  let ?r = "\<lparr>rf_id = 2, rf_effect = 1, rf_conv = ''dm:U1:U2'', rf_initial = True, rf_phase = LoadRows\<rparr>"
  define v where "v = \<lparr>cv_handle = Some ''bob'', cv_convId = Some ''dm:U1:U2'', cv_messages = [], cv_loading = True,
      cv_boundary = Some 0, cv_boundaryConv = Some ''dm:U1:U2'', cv_title = [], cv_resolving = [], cv_effect = Some 1,
      cv_runs = [?r], cv_next = 3, cv_notified = 0\<rparr>"
  have u: "se_userId demo_chat_session = ''U1''" by (simp add: demo_chat_session_def)
  have 1: "fold (view_step quiet_platform demo_chat_session)
        [ElsewhereEv (\<lambda>_. offline_world), NavigateEv (Some ''bob''), ResolveEv 0, RefreshEv 2] (new_view, quiet_world) = (v, offline_world)"
    by (simp add: navigate_def resolve_effect_def truthy_def new_view_def settle_resolve_def offline_steps drop_resolve_def offline_contact_def u
        setConvId_def load_effect_def start_refresh_def Let_def settle_refresh_def drop_refresh_def wait_refresh_def v_def)
  obtain v' w' where 2: "view_step quiet_platform demo_chat_session (RefreshEv 2) (v, offline_world) = (v', w')" by fastforce
  then have "length (cv_messages v') = 1"
    by (auto simp: settle_refresh_def v_def Let_def drop_refresh_def offline_steps u stored_rows demo_bubble apply_rows_def wait_refresh_def)
  then have "cv_messages v' \<noteq> cv_messages v" by (auto simp: v_def)
  from refresh_shows_open_conversation [OF 1 2 this] 1 2 show ?thesis by (auto simp: u v_def)
qed

end
