(* ===== verification/MediaLoader.thy ===== *)
theory MediaLoader
  imports Crypto Idb Image
begin

text \<open>
  web/src/hooks/useMedia.ts: the lazy loader of attachments. The refs of the hook and its state are one
  record; an \<open>AbortController\<close>, an object URL and a DOM element are numbers, and the browser's table of
  object URLs is part of the record, so that a leak is visible. A load is a run with the promise it
  waits for; runs, renders, observer callbacks and taps interleave freely as events. The cache write
  that follows a load runs to its end where it is started.
\<close>

section \<open>The unit of fetching\<close>

datatype media_status = Idle | Loading | Ready | Corrupt | Unavailable | NetworkFailed

record media_state =
  ms_status :: media_status
  ms_blobUrl :: "nat option"
  ms_mime :: "inline_mime option"

definition IDLE :: media_state where
  "IDLE = \<lparr>ms_status = Idle, ms_blobUrl = None, ms_mime = None\<rparr>"

definition LOADING :: media_state where
  "LOADING = \<lparr>ms_status = Loading, ms_blobUrl = None, ms_mime = None\<rparr>"

datatype cache_policy = CachePreview | CacheDerive | CacheNone

record loadable =
  ld_url :: string
  ld_key :: bytes
  ld_iv :: bytes
  ld_cache :: cache_policy

fun loadables :: "media_file list \<Rightarrow> loadable list" where
  "loadables [] = []"
| "loadables (f # fs) =
     (case mf_preview f of
        None \<Rightarrow> [\<lparr>ld_url = mf_url f, ld_key = mf_key f, ld_iv = mf_iv f, ld_cache = CacheDerive\<rparr>]
      | Some p \<Rightarrow> [\<lparr>ld_url = mf_url f, ld_key = mf_key f, ld_iv = mf_iv f, ld_cache = CacheNone\<rparr>,
           \<lparr>ld_url = dp_url p, ld_key = dp_key p, ld_iv = dp_iv p, ld_cache = CachePreview\<rparr>]) @ loadables fs"

definition displayUrl :: "media_file \<Rightarrow> string" where
  "displayUrl f = (case mf_preview f of Some p \<Rightarrow> dp_url p | None \<Rightarrow> mf_url f)"

text \<open>\<open>new Map(loadables(files).map((l) => [l.url, l]))\<close>: the last of two with the same url stays.\<close>

definition files_map :: "media_file list \<Rightarrow> (string \<times> loadable) list" where
  "files_map files = fold (\<lambda>l m. AList.update (ld_url l) l m) (loadables files) []"

section \<open>The offline cache\<close>

definition toEntry :: "'n platform \<Rightarrow> bytes \<Rightarrow> string option \<Rightarrow> ('n world, stored_media_blob) io" where
  "toEntry P bytes mime = await (platform_io (pl_now P)) (\<lambda>now.
     ret \<lparr>mb_bytes = bytes, mb_mime = opt_or mime ''application/octet-stream'', mb_cachedAt = now\<rparr>)"

definition put_entry :: "'n platform \<Rightarrow> string \<Rightarrow> bytes \<Rightarrow> string option \<Rightarrow> ('n world, unit) io" where
  "put_entry P url bytes mime = await (toEntry P bytes mime) (\<lambda>entry. putMediaBlob P url entry)"

definition lift_result :: "js_error + 'a \<Rightarrow> ('w, 'a) io" where
  "lift_result r = (case r of Inl e \<Rightarrow> throw e | Inr x \<Rightarrow> ret x)"

definition cacheAfterLoad :: "'n platform \<Rightarrow> image_codec \<Rightarrow> loadable \<Rightarrow> bytes \<Rightarrow> ('n world, unit) io" where
  "cacheAfterLoad P I file plaintext = catch_err
     (case ld_cache file of
        CacheNone \<Rightarrow> ret ()
      | CachePreview \<Rightarrow> put_entry P (ld_url file) plaintext (map_option mime_text (sniffInlineImageMime plaintext))
      | CacheDerive \<Rightarrow>
          (case sniffInlineImageMime plaintext of
             None \<Rightarrow> ret ()
           | Some mime \<Rightarrow>
               await (lift_result (imageSize I plaintext)) (\<lambda>(width, height).
               if \<not> needsPreview (length plaintext) width height
               then put_entry P (ld_url file) plaintext (Some (mime_text mime))
               else await (lift_result (makePreview I plaintext)) (\<lambda>r.
                 case r of
                   None \<Rightarrow> throw (TypeErr ''thumb is null'')
                 | Some thumb \<Rightarrow> put_entry P (ld_url file) (re_blob thumb) (Some ''image/jpeg'')))))
     (\<lambda>_. ret ())"

section \<open>The state of the hook\<close>

datatype load_phase = AwaitCache | AwaitFetch | AwaitDecrypt bytes

record load_run =
  ru_ctl :: nat
  ru_file :: loadable
  ru_token :: string
  ru_phase :: load_phase

record media_loader =
  ml_states :: "(string \<times> media_state) list"
  ml_controllers :: "(string \<times> nat) list"
  ml_aborted :: "nat list"
  ml_nextCtl :: nat
  ml_blobs :: "(string \<times> nat) list"
  ml_urls :: "(nat \<times> bytes) list"
  ml_nextUrl :: nat
  ml_files :: "(string \<times> loadable) list"
  ml_token :: "string option"
  ml_watching :: "nat list"
  ml_observed :: "(nat \<times> string) list"
  ml_elByUrl :: "(string \<times> nat) list"
  ml_triggered :: "string list"
  ml_tracked :: "string list"
  ml_runs :: "load_run list"

definition empty_loader :: media_loader where
  "empty_loader = \<lparr>ml_states = [], ml_controllers = [], ml_aborted = [], ml_nextCtl = 0, ml_blobs = [], ml_urls = [],
     ml_nextUrl = 0, ml_files = [], ml_token = None, ml_watching = [], ml_observed = [], ml_elByUrl = [],
     ml_triggered = [], ml_tracked = [], ml_runs = []\<rparr>"

definition abort_url :: "string \<Rightarrow> media_loader \<Rightarrow> media_loader" where
  "abort_url url m = (case map_of (ml_controllers m) url of
     None \<Rightarrow> m | Some c \<Rightarrow> m\<lparr>ml_aborted := c # ml_aborted m\<rparr>)"

definition revoke_url :: "string \<Rightarrow> media_loader \<Rightarrow> media_loader" where
  "revoke_url url m = (case map_of (ml_blobs m) url of
     None \<Rightarrow> m | Some i \<Rightarrow> m\<lparr>ml_urls := AList.delete i (ml_urls m)\<rparr>)"

definition set_state :: "string \<Rightarrow> media_state \<Rightarrow> media_loader \<Rightarrow> media_loader" where
  "set_state url s m = m\<lparr>ml_states := AList.update url s (ml_states m)\<rparr>"

definition track :: "string \<Rightarrow> media_loader \<Rightarrow> media_loader" where
  "track url m = m\<lparr>ml_tracked := List.insert url (ml_tracked m)\<rparr>"

text \<open>The synchronous part of \<open>load\<close>, up to its first await.\<close>

definition load :: "loadable \<Rightarrow> string \<Rightarrow> media_loader \<Rightarrow> media_loader" where
  "load file tok m0 =
     (let m = abort_url (ld_url file) (track (ld_url file) m0); ctl = ml_nextCtl m
      in set_state (ld_url file) LOADING
           (m\<lparr>ml_controllers := AList.update (ld_url file) ctl (ml_controllers m), ml_nextCtl := ctl + 1,
              ml_runs := ml_runs m @ [\<lparr>ru_ctl = ctl, ru_file = file, ru_token = tok, ru_phase = AwaitCache\<rparr>]\<rparr>))"

definition present :: "string \<Rightarrow> bytes \<Rightarrow> media_loader \<Rightarrow> media_loader" where
  "present key plaintext m0 =
     (let url = ml_nextUrl m0; m = revoke_url key (m0\<lparr>ml_urls := (url, plaintext) # ml_urls m0, ml_nextUrl := url + 1\<rparr>)
      in set_state key \<lparr>ms_status = Ready, ms_blobUrl = Some url, ms_mime = sniffInlineImageMime plaintext\<rparr>
           (m\<lparr>ml_blobs := AList.update key url (ml_blobs m)\<rparr>))"

definition failed_status :: "js_error \<Rightarrow> media_status" where
  "failed_status e = (case e of MediaCorruptError \<Rightarrow> Corrupt | NotFoundError \<Rightarrow> Unavailable | _ \<Rightarrow> NetworkFailed)"

definition load_failed :: "'n platform \<Rightarrow> string \<Rightarrow> js_error \<Rightarrow> media_loader \<times> 'n world \<Rightarrow> media_loader \<times> 'n world" where
  "load_failed P url e s =
     (set_state url \<lparr>ms_status = failed_status e, ms_blobUrl = None, ms_mime = None\<rparr> (fst s),
      if e = NotFoundError then snd (detached (deleteMediaBlob P url) (\<lambda>_. ret ()) (snd s)) else snd s)"

definition drop_run :: "nat \<Rightarrow> media_loader \<Rightarrow> media_loader" where
  "drop_run ctl m = m\<lparr>ml_runs := filter (\<lambda>r. ru_ctl r \<noteq> ctl) (ml_runs m)\<rparr>"

definition wait :: "load_run \<Rightarrow> load_phase \<Rightarrow> media_loader \<Rightarrow> media_loader" where
  "wait r ph m = m\<lparr>ml_runs := ml_runs m @ [r\<lparr>ru_phase := ph\<rparr>]\<rparr>"

text \<open>The promise a run waits for settles: the run goes on to its next await. A run whose controller
  was aborted ends at every one of them.\<close>

definition advance :: "'n platform \<Rightarrow> image_codec \<Rightarrow> nat \<Rightarrow> media_loader \<times> 'n world \<Rightarrow> media_loader \<times> 'n world" where
  "advance P I ctl s =
     (case find (\<lambda>r. ru_ctl r = ctl) (ml_runs (fst s)) of
        None \<Rightarrow> s
      | Some r \<Rightarrow>
          (let m = drop_run ctl (fst s); w = snd s; f = ru_file r; url = ld_url f in
           if ctl \<in> set (ml_aborted m) then (m, w)
           else (case ru_phase r of
             AwaitCache \<Rightarrow>
               (case getMediaBlob P url w of
                  (Inr (Some cached), w1) \<Rightarrow> (present url (mb_bytes cached) m, w1)
                | (_, w1) \<Rightarrow> (wait r AwaitFetch m, w1))
           | AwaitFetch \<Rightarrow>
               (case fetchMedia P (ru_token r) url w of
                  (Inl e, w1) \<Rightarrow> load_failed P url e (m, w1)
                | (Inr ciphertext, w1) \<Rightarrow> (wait r (AwaitDecrypt ciphertext) m, w1))
           | AwaitDecrypt ciphertext \<Rightarrow>
               (case decryptMedia P ciphertext (ld_key f) (ld_iv f) w of
                  (Inl e, w1) \<Rightarrow> load_failed P url e (m, w1)
                | (Inr plaintext, w1) \<Rightarrow>
                    (present url plaintext m, snd (detached (cacheAfterLoad P I f plaintext) (\<lambda>_. ret ()) w1))))))"

section \<open>Observing\<close>

definition unobserve :: "nat \<Rightarrow> media_loader \<Rightarrow> media_loader" where
  "unobserve el m = m\<lparr>ml_watching := removeAll el (ml_watching m), ml_observed := AList.delete el (ml_observed m)\<rparr>"

definition observe :: "string \<Rightarrow> nat option \<Rightarrow> media_loader \<Rightarrow> media_loader" where
  "observe url elm m =
     (case elm of
        None \<Rightarrow> m
      | Some el \<Rightarrow>
          (if url \<in> set (ml_triggered m) \<or> map_of (ml_elByUrl m) url = Some el then m
           else (let m1 = (case map_of (ml_elByUrl m) url of Some prevEl \<Rightarrow> unobserve prevEl m | None \<Rightarrow> m)
                 in m1\<lparr>ml_elByUrl := AList.update url el (ml_elByUrl m1), ml_observed := AList.update el url (ml_observed m1),
                       ml_watching := List.insert el (ml_watching m1)\<rparr>)))"

definition truthy_token :: "string option \<Rightarrow> string option" where
  "truthy_token t = (case t of Some [] \<Rightarrow> None | _ \<Rightarrow> t)"

text \<open>One intersecting entry of the observer's callback.\<close>

definition intersect :: "nat \<Rightarrow> media_loader \<Rightarrow> media_loader" where
  "intersect el m =
     (case map_of (ml_observed m) el of
        None \<Rightarrow> m
      | Some u \<Rightarrow>
          (let m1 = (unobserve el m)\<lparr>ml_elByUrl := AList.delete u (ml_elByUrl m)\<rparr> in
           if u \<in> set (ml_triggered m1) then m1
           else (case (map_of (ml_files m1) u, truthy_token (ml_token m1)) of
             (Some f, Some tok) \<Rightarrow> load f tok (m1\<lparr>ml_triggered := List.insert u (ml_triggered m1)\<rparr>)
           | _ \<Rightarrow> m1)))"

definition request_media :: "string \<Rightarrow> media_loader \<Rightarrow> media_loader" where
  "request_media url m =
     (case (map_of (ml_files m) url, truthy_token (ml_token m)) of
        (Some f, Some tok) \<Rightarrow> load f tok m
      | _ \<Rightarrow> m)"

section \<open>Rendering\<close>

definition seed :: "bool \<Rightarrow> string \<Rightarrow> media_file \<Rightarrow> media_loader \<Rightarrow> media_loader" where
  "seed fallback tok f m =
     (if \<not> isLikelyImage (mf_name f) then m
      else (let url = displayUrl f in
        case map_of (ml_files m) url of
          None \<Rightarrow> m
        | Some l \<Rightarrow>
            (if fallback then (if map_of (ml_controllers m) url = None then load l tok m else m)
             else (let m1 = track url m in
               if map_of (ml_states m1) url = None then set_state url IDLE m1 else m1))))"

definition release :: "string \<Rightarrow> media_loader \<Rightarrow> media_loader" where
  "release url m0 =
     (let m1 = abort_url url m0; m = revoke_url url (m1\<lparr>ml_controllers := AList.delete url (ml_controllers m1)\<rparr>);
          m2 = m\<lparr>ml_blobs := AList.delete url (ml_blobs m), ml_triggered := removeAll url (ml_triggered m),
                 ml_tracked := removeAll url (ml_tracked m), ml_states := AList.delete url (ml_states m)\<rparr>
      in case map_of (ml_elByUrl m2) url of
           None \<Rightarrow> m2
         | Some el \<Rightarrow> (unobserve el m2)\<lparr>ml_elByUrl := AList.delete url (ml_elByUrl m2)\<rparr>)"

definition render :: "bool \<Rightarrow> media_file list \<Rightarrow> string option \<Rightarrow> media_loader \<Rightarrow> media_loader" where
  "render fallback files token m0 =
     (let m = m0\<lparr>ml_files := files_map files, ml_token := token\<rparr> in
      case truthy_token token of
        None \<Rightarrow> m
      | Some tok \<Rightarrow>
          (let m1 = fold (seed fallback tok) files m
           in fold release (filter (\<lambda>u. map_of (ml_files m) u = None) (ml_tracked m1)) m1))"

text \<open>The cleanup of the mount effect; React drops the state of an unmounted component.\<close>

definition unmount :: "media_loader \<Rightarrow> media_loader" where
  "unmount m = m\<lparr>ml_states := [], ml_watching := [], ml_aborted := map snd (ml_controllers m) @ ml_aborted m,
     ml_urls := fold AList.delete (map snd (ml_blobs m)) (ml_urls m),
     ml_controllers := [], ml_blobs := [], ml_observed := [], ml_elByUrl := [], ml_triggered := [], ml_tracked := []\<rparr>"

section \<open>Events\<close>

datatype media_event =
    RenderEv "media_file list" "string option"
  | ObserveEv string "nat option"
  | IntersectEv "nat list"
  | RequestEv string
  | AdvanceEv nat
  | UnmountEv

fun media_step :: "bool \<Rightarrow> 'n platform \<Rightarrow> image_codec \<Rightarrow> media_event \<Rightarrow> media_loader \<times> 'n world \<Rightarrow> media_loader \<times> 'n world" where
  "media_step fb P I (RenderEv files token) (m, w) = (render fb files token m, w)"
| "media_step fb P I (ObserveEv url el) (m, w) = ((if fb then m else observe url el m), w)"
| "media_step fb P I (IntersectEv els) (m, w) = (fold intersect els m, w)"
| "media_step fb P I (RequestEv url) (m, w) = (request_media url m, w)"
| "media_step fb P I (AdvanceEv ctl) s = advance P I ctl s"
| "media_step fb P I UnmountEv (m, w) = (unmount m, w)"

section \<open>No object URL leaks, no aborted load shows\<close>

text \<open>The parts of the invariant, over the maps the refs hold. The live object URLs are those of
  \<open>blobsRef\<close>, each for one url; a ready state shows its url's object, any other shows none; everything
  that must be released is tracked; and a run that was not aborted is the one its url's controller
  belongs to.\<close>

definition urls_ok :: "(nat \<Rightarrow> bytes option) \<Rightarrow> (string \<Rightarrow> nat option) \<Rightarrow> nat \<Rightarrow> bool" where
  "urls_ok U B n \<longleftrightarrow> (\<forall>i. U i \<noteq> None \<longleftrightarrow> (\<exists>u. B u = Some i)) \<and> (\<forall>u v i. B u = Some i \<and> B v = Some i \<longrightarrow> u = v)
     \<and> (\<forall>u i. B u = Some i \<longrightarrow> i < n)"

definition shows_ok :: "media_state \<Rightarrow> nat option \<Rightarrow> bool" where
  "shows_ok s b \<longleftrightarrow> (if ms_status s = Ready then ms_blobUrl s \<noteq> None \<and> b = ms_blobUrl s else ms_blobUrl s = None)"

definition run_ok :: "nat list \<Rightarrow> (string \<Rightarrow> nat option) \<Rightarrow> load_run \<Rightarrow> bool" where
  "run_ok A C r \<longleftrightarrow> ru_ctl r \<in> set A \<or> C (ld_url (ru_file r)) = Some (ru_ctl r)"

definition loader_ok :: "media_loader \<Rightarrow> bool" where
  "loader_ok m \<longleftrightarrow>
     urls_ok (map_of (ml_urls m)) (map_of (ml_blobs m)) (ml_nextUrl m)
   \<and> (\<forall>u s. map_of (ml_states m) u = Some s \<longrightarrow> shows_ok s (map_of (ml_blobs m) u))
   \<and> (\<forall>u. map_of (ml_states m) u \<noteq> None \<or> map_of (ml_controllers m) u \<noteq> None \<or> map_of (ml_blobs m) u \<noteq> None \<longrightarrow>
        u \<in> set (ml_tracked m))
   \<and> (\<forall>r \<in> set (ml_runs m). run_ok (ml_aborted m) (map_of (ml_controllers m)) r)
   \<and> (\<forall>u f. map_of (ml_files m) u = Some f \<longrightarrow> ld_url f = u)"

lemma loader_okI:
  assumes "urls_ok (map_of (ml_urls m)) (map_of (ml_blobs m)) (ml_nextUrl m)"
    and "\<And>u s. map_of (ml_states m) u = Some s \<Longrightarrow> shows_ok s (map_of (ml_blobs m) u)"
    and "\<And>u. map_of (ml_states m) u \<noteq> None \<or> map_of (ml_controllers m) u \<noteq> None \<or> map_of (ml_blobs m) u \<noteq> None \<Longrightarrow> u \<in> set (ml_tracked m)"
    and "\<And>r. r \<in> set (ml_runs m) \<Longrightarrow> run_ok (ml_aborted m) (map_of (ml_controllers m)) r"
    and "\<And>u f. map_of (ml_files m) u = Some f \<Longrightarrow> ld_url f = u"
  shows "loader_ok m"
  using assms unfolding loader_ok_def by blast

lemma loader_okD:
  assumes "loader_ok m"
  shows "urls_ok (map_of (ml_urls m)) (map_of (ml_blobs m)) (ml_nextUrl m)"
    and "map_of (ml_states m) u = Some s \<Longrightarrow> shows_ok s (map_of (ml_blobs m) u)"
    and "map_of (ml_states m) u \<noteq> None \<or> map_of (ml_controllers m) u \<noteq> None \<or> map_of (ml_blobs m) u \<noteq> None \<Longrightarrow> u \<in> set (ml_tracked m)"
    and "r \<in> set (ml_runs m) \<Longrightarrow> run_ok (ml_aborted m) (map_of (ml_controllers m)) r"
    and "map_of (ml_files m) u = Some f \<Longrightarrow> ld_url f = u"
  using assms unfolding loader_ok_def by blast+

lemma urls_ok_present:
  assumes "urls_ok U B n"
  shows "urls_ok (case B u of None \<Rightarrow> U(n \<mapsto> b) | Some i \<Rightarrow> (U(n \<mapsto> b))(i := None)) (B(u \<mapsto> n)) (Suc n)"
proof -
  have "U n = None" using assms unfolding urls_ok_def by (metis less_irrefl not_None_eq)
  with assms show ?thesis
    unfolding urls_ok_def by (cases "B u") (auto simp: less_Suc_eq, (metis option.distinct(1) option.inject)+)
qed

lemma urls_ok_revoke:
  assumes "urls_ok U B n"
  shows "urls_ok (case B u of None \<Rightarrow> U | Some i \<Rightarrow> U(i := None)) (B(u := None)) n"
  using assms unfolding urls_ok_def by (cases "B u") (auto, (metis option.distinct(1) option.inject)+)

lemmas loader_maps = update_conv' delete_conv' abort_url_def revoke_url_def set_state_def track_def

lemma load_fields:
  "ml_urls (load f tok m) = ml_urls m" "ml_blobs (load f tok m) = ml_blobs m" "ml_nextUrl (load f tok m) = ml_nextUrl m"
  "ml_files (load f tok m) = ml_files m" "ml_token (load f tok m) = ml_token m"
  "map_of (ml_states (load f tok m)) = (map_of (ml_states m))(ld_url f \<mapsto> LOADING)"
  "map_of (ml_controllers (load f tok m)) = (map_of (ml_controllers m))(ld_url f \<mapsto> ml_nextCtl m)"
  "set (ml_tracked (load f tok m)) = insert (ld_url f) (set (ml_tracked m))"
  "ml_aborted (load f tok m) = (case map_of (ml_controllers m) (ld_url f) of None \<Rightarrow> [] | Some c \<Rightarrow> [c]) @ ml_aborted m"
  "ml_runs (load f tok m) = ml_runs m @ [\<lparr>ru_ctl = ml_nextCtl m, ru_file = f, ru_token = tok, ru_phase = AwaitCache\<rparr>]"
  by (simp_all add: load_def Let_def loader_maps split: option.split)

lemma present_fields:
  "map_of (ml_urls (present u b m)) =
     (case map_of (ml_blobs m) u of None \<Rightarrow> (map_of (ml_urls m))(ml_nextUrl m \<mapsto> b)
      | Some i \<Rightarrow> ((map_of (ml_urls m))(ml_nextUrl m \<mapsto> b))(i := None))"
  "map_of (ml_blobs (present u b m)) = (map_of (ml_blobs m))(u \<mapsto> ml_nextUrl m)" "ml_nextUrl (present u b m) = Suc (ml_nextUrl m)"
  "map_of (ml_states (present u b m)) = (map_of (ml_states m))
     (u \<mapsto> \<lparr>ms_status = Ready, ms_blobUrl = Some (ml_nextUrl m), ms_mime = sniffInlineImageMime b\<rparr>)"
  "ml_controllers (present u b m) = ml_controllers m" "ml_tracked (present u b m) = ml_tracked m" "ml_aborted (present u b m) = ml_aborted m"
  "ml_runs (present u b m) = ml_runs m" "ml_files (present u b m) = ml_files m" "ml_token (present u b m) = ml_token m"
  by (auto simp: present_def Let_def loader_maps fun_eq_iff split: option.split)

lemma release_fields:
  "map_of (ml_urls (release u m)) = (case map_of (ml_blobs m) u of None \<Rightarrow> map_of (ml_urls m) | Some i \<Rightarrow> (map_of (ml_urls m))(i := None))"
  "map_of (ml_blobs (release u m)) = (map_of (ml_blobs m))(u := None)" "ml_nextUrl (release u m) = ml_nextUrl m"
  "map_of (ml_states (release u m)) = (map_of (ml_states m))(u := None)"
  "map_of (ml_controllers (release u m)) = (map_of (ml_controllers m))(u := None)"
  "set (ml_tracked (release u m)) = set (ml_tracked m) - {u}" "ml_files (release u m) = ml_files m" "ml_token (release u m) = ml_token m"
  "ml_aborted (release u m) = (case map_of (ml_controllers m) u of None \<Rightarrow> [] | Some c \<Rightarrow> [c]) @ ml_aborted m"
  "ml_runs (release u m) = ml_runs m"
  by (auto simp: release_def Let_def loader_maps unobserve_def split: option.split)

lemma empty_loader_ok: "loader_ok empty_loader"
  by (simp add: loader_ok_def empty_loader_def urls_ok_def)

lemma load_ok: "loader_ok m \<Longrightarrow> loader_ok (load f tok m)"
proof (rule loader_okI, goal_cases)
  case 1
  then show ?case using loader_okD(1) by (simp add: load_fields)
next
  case (2 u s)
  then show ?case using loader_okD(2) [of m u s] by (auto simp: load_fields shows_ok_def LOADING_def split: if_splits)
next
  case (3 u)
  then show ?case using loader_okD(3) [of m u] by (auto simp: load_fields split: if_splits)
next
  case (4 r)
  then show ?case using loader_okD(4) [of m r] by (auto simp: load_fields run_ok_def)
next
  case (5 u g)
  then show ?case using loader_okD(5) [of m u g] by (simp add: load_fields)
qed

lemma present_ok:
  assumes "loader_ok m" and "u \<in> set (ml_tracked m)"
  shows "loader_ok (present u b m)"
proof (rule loader_okI, goal_cases)
  case 1
  show ?case using urls_ok_present [OF loader_okD(1) [OF assms(1)]] by (simp only: present_fields)
next
  case (2 v s)
  then show ?case using loader_okD(2) [OF assms(1), of v s] by (auto simp: present_fields shows_ok_def split: if_splits)
next
  case (3 v)
  then show ?case using loader_okD(3) [OF assms(1), of v] assms(2) by (auto simp: present_fields split: if_splits)
next
  case (4 r)
  then show ?case using loader_okD(4) [OF assms(1), of r] by (simp add: present_fields)
next
  case (5 v f)
  then show ?case using loader_okD(5) [OF assms(1), of v f] by (simp add: present_fields)
qed

lemma release_ok:
  assumes "loader_ok m"
  shows "loader_ok (release u m)"
proof (rule loader_okI, goal_cases)
  case 1
  show ?case using urls_ok_revoke [OF loader_okD(1) [OF assms]] by (simp only: release_fields)
next
  case (2 v s)
  then show ?case using loader_okD(2) [OF assms, of v s] by (auto simp: release_fields split: if_splits)
next
  case (3 v)
  then show ?case using loader_okD(3) [OF assms, of v] by (auto simp: release_fields split: if_splits)
next
  case (4 r)
  then show ?case using loader_okD(4) [OF assms, of r] by (auto simp: release_fields run_ok_def)
next
  case (5 v f)
  then show ?case using loader_okD(5) [OF assms, of v f] by (simp add: release_fields)
qed

lemma observing_ok [simp]:
  "loader_ok (unobserve el m) = loader_ok m" "loader_ok (m\<lparr>ml_elByUrl := e\<rparr>) = loader_ok m"
  "loader_ok (m\<lparr>ml_triggered := tr\<rparr>) = loader_ok m" "loader_ok (m\<lparr>ml_token := tk\<rparr>) = loader_ok m"
  "loader_ok (m\<lparr>ml_elByUrl := e, ml_observed := ob, ml_watching := wa\<rparr>) = loader_ok m"
  by (simp_all add: loader_ok_def unobserve_def)

lemma observe_ok: "loader_ok m \<Longrightarrow> loader_ok (observe url el m)"
  by (simp add: observe_def Let_def split: option.split)

lemma intersect_ok: "loader_ok m \<Longrightarrow> loader_ok (intersect el m)"
  by (simp add: intersect_def Let_def load_ok split: option.split)

lemma request_ok: "loader_ok m \<Longrightarrow> loader_ok (request_media url m)"
  by (simp add: request_media_def load_ok split: option.split)

lemma files_map_keyed: "map_of (files_map fs) u = Some f \<Longrightarrow> ld_url f = u"
proof -
  have k: "(\<And>v g. map_of acc v = Some g \<Longrightarrow> ld_url g = v) \<Longrightarrow>
      map_of (fold (\<lambda>l m. AList.update (ld_url l) l m) ls acc) u = Some f \<Longrightarrow> ld_url f = u"
    for ls and acc :: "(string \<times> loadable) list"
  proof (induction ls arbitrary: acc)
    case (Cons l ls)
    show ?case
    proof (rule Cons.IH)
      show "map_of (fold (\<lambda>l m. AList.update (ld_url l) l m) ls (AList.update (ld_url l) l acc)) u = Some f"
        using Cons.prems(2) by (simp only: fold.simps comp_apply)
      show "ld_url g = v" if "map_of (AList.update (ld_url l) l acc) v = Some g" for v g
        using that Cons.prems(1) [of v g] by (simp only: update_conv' fun_upd_apply option.inject split: if_splits)
    qed
  qed (simp only: fold.simps id_apply)
  assume "map_of (files_map fs) u = Some f"
  then show ?thesis by (intro k [of "[]" "loadables fs"]) (simp_all only: files_map_def map_of.simps option.distinct)
qed

lemma set_state_ok:
  assumes "loader_ok m" and "u \<in> set (ml_tracked m)" and "ms_status s \<noteq> Ready" and "ms_blobUrl s = None"
  shows "loader_ok (set_state u s m)"
proof (rule loader_okI, goal_cases)
  case (2 v t)
  then show ?case using loader_okD(2) [OF assms(1), of v t] assms(3,4) by (auto simp: set_state_def update_conv' shows_ok_def split: if_splits)
next
  case (3 v)
  then show ?case using loader_okD(3) [OF assms(1), of v] assms(2) by (auto simp: set_state_def update_conv' split: if_splits)
next
  case (4 r)
  then show ?case using loader_okD(4) [OF assms(1), of r] by (simp add: set_state_def)
next
  case (5 v f)
  then show ?case using loader_okD(5) [OF assms(1), of v f] by (simp add: set_state_def)
qed (use loader_okD(1) [OF assms(1)] in \<open>simp add: set_state_def\<close>)

lemma track_ok: "loader_ok m \<Longrightarrow> loader_ok (track u m)"
  by (auto simp: loader_ok_def track_def)

lemma seed_ok: "loader_ok m \<Longrightarrow> loader_ok (seed fb tok f m)"
proof (cases "map_of (ml_files m) (displayUrl f)")
  case (Some l)
  assume m: "loader_ok m"
  have "loader_ok (set_state u IDLE (track u m))" for u
    using track_ok [OF m] by (rule set_state_ok) (simp_all add: track_def IDLE_def)
  then show ?thesis using m Some by (simp add: seed_def Let_def load_ok track_ok)
qed (simp add: seed_def)

lemma fold_ok: "(\<And>x m. loader_ok m \<Longrightarrow> loader_ok (g x m)) \<Longrightarrow> loader_ok m \<Longrightarrow> loader_ok (fold g xs m)"
  by (induction xs arbitrary: m) simp_all

lemma render_ok: "loader_ok m \<Longrightarrow> loader_ok (render fb files token m)"
proof -
  assume m: "loader_ok m"
  have "loader_ok (m\<lparr>ml_files := files_map files, ml_token := token\<rparr>)"
    by (rule loader_okI) (use loader_okD [OF m] in \<open>auto simp: files_map_keyed\<close>)
  then show ?thesis by (auto simp: render_def Let_def intro!: fold_ok seed_ok release_ok split: option.split)
qed

lemma unmount_urls:
  assumes "loader_ok m"
  shows "map_of (ml_urls (unmount m)) i = None"
proof (cases "map_of (ml_urls m) i")
  case (Some b)
  then obtain u where "map_of (ml_blobs m) u = Some i"
    using loader_okD(1) [OF assms] unfolding urls_ok_def by blast
  then have "i \<in> set (map snd (ml_blobs m))" by (force dest: map_of_SomeD)
  then show ?thesis by (simp add: unmount_def map_of_delete_all)
qed (simp add: unmount_def map_of_delete_all)

lemma unmount_aborts:
  assumes "loader_ok m" and "r \<in> set (ml_runs m)"
  shows "ru_ctl r \<in> set (ml_aborted (unmount m))"
proof -
  from loader_okD(4) [OF assms] consider "ru_ctl r \<in> set (ml_aborted m)"
    | "(ld_url (ru_file r), ru_ctl r) \<in> set (ml_controllers m)"
    unfolding run_ok_def by (blast dest: map_of_SomeD)
  then show ?thesis by cases (force simp: unmount_def)+
qed

lemma unmount_ok:
  assumes "loader_ok m"
  shows "loader_ok (unmount m)"
proof (rule loader_okI, goal_cases)
  case 1
  have "map_of (ml_blobs (unmount m)) = (\<lambda>_. None)" by (simp add: unmount_def)
  then show ?case using unmount_urls [OF assms] by (simp add: urls_ok_def)
next
  case (4 r)
  then show ?case using unmount_aborts [OF assms, of r] by (simp add: run_ok_def unmount_def)
qed (use loader_okD(5) [OF assms] in \<open>auto simp: unmount_def\<close>)

lemma drop_run_ok: "loader_ok m \<Longrightarrow> loader_ok (drop_run ctl m)"
  by (auto simp: loader_ok_def drop_run_def)

lemma wait_ok: "loader_ok m \<Longrightarrow> run_ok (ml_aborted m) (map_of (ml_controllers m)) r \<Longrightarrow> loader_ok (wait r ph m)"
  by (auto simp: loader_ok_def wait_def run_ok_def)

lemma run_fields [simp]:
  "ml_aborted (drop_run ctl m) = ml_aborted m" "ml_tracked (drop_run ctl m) = ml_tracked m"
  "ml_controllers (drop_run ctl m) = ml_controllers m"
  by (simp_all add: drop_run_def)

lemma failed_ok:
  assumes "loader_ok m" and "u \<in> set (ml_tracked m)"
  shows "loader_ok (fst (load_failed P u e (m, w)))"
proof -
  have "failed_status e \<noteq> Ready" by (cases e) (simp_all add: failed_status_def)
  then show ?thesis by (simp add: load_failed_def set_state_ok assms)
qed

lemma advance_ok:
  assumes "loader_ok m"
  shows "loader_ok (fst (advance P I ctl (m, w)))"
proof (cases "find (\<lambda>r. ru_ctl r = ctl) (ml_runs m)")
  case (Some r)
  then have r: "r \<in> set (ml_runs m)" "ru_ctl r = ctl" by (auto simp: find_Some_iff)
  let ?u = "ld_url (ru_file r)" and ?m = "drop_run ctl m"
  have d: "loader_ok ?m" using assms by (rule drop_run_ok)
  show ?thesis
  proof (cases "ctl \<in> set (ml_aborted m)")
    case True
    then show ?thesis using Some d by (simp add: advance_def Let_def)
  next
    case False
    then have "run_ok (ml_aborted m) (map_of (ml_controllers m)) r" "map_of (ml_controllers m) ?u = Some ctl"
      using loader_okD(4) [OF assms r(1)] r(2) by (auto simp: run_ok_def)
    then have w: "loader_ok (wait r ph ?m)" and t: "?u \<in> set (ml_tracked ?m)" for ph
      using d loader_okD(3) [OF assms, of ?u] by (auto intro!: wait_ok simp: drop_run_def)
    show ?thesis
      using Some False w present_ok [OF d t] failed_ok [OF d t]
      by (auto simp: advance_def Let_def split: load_phase.split sum.split prod.split option.split)
  qed
qed (use assms in \<open>simp add: advance_def\<close>)

lemma step_ok: "loader_ok (fst s) \<Longrightarrow> loader_ok (fst (media_step fb P I ev s))"
  by (cases s; cases ev) (auto intro: render_ok observe_ok request_ok unmount_ok advance_ok fold_ok intersect_ok)

lemma steps_ok: "loader_ok (fst s) \<Longrightarrow> loader_ok (fst (fold (media_step fb P I) evs s))"
  by (induction evs arbitrary: s) (simp_all add: step_ok)

lemma reached_ok: "fold (media_step fb P I) evs (empty_loader, w) = (m, w') \<Longrightarrow> loader_ok m"
  using steps_ok [of "(empty_loader, w)" fb P I evs] by (simp add: empty_loader_ok)

text \<open>C10: no decrypted object leaks. After any sequence of renders, observer callbacks, taps and settled
  promises, the live object URLs are exactly those of \<open>blobsRef\<close>, one per attachment; a ready attachment
  shows a live one; of the loads in flight for an attachment at most one is not aborted; and an unmount
  revokes every object URL and aborts every load.\<close>

theorem media_urls_never_leak:
  assumes "fold (media_step fb P I) evs (empty_loader, w) = (m, w')"
  shows "(\<forall>i. map_of (ml_urls m) i \<noteq> None \<longleftrightarrow> (\<exists>!u. map_of (ml_blobs m) u = Some i))
    \<and> (\<forall>u s. map_of (ml_states m) u = Some s \<and> ms_status s = Ready \<longrightarrow>
         (\<exists>i b. ms_blobUrl s = Some i \<and> map_of (ml_urls m) i = Some b))
    \<and> (\<forall>r \<in> set (ml_runs m). \<forall>r' \<in> set (ml_runs m). ld_url (ru_file r) = ld_url (ru_file r')
         \<and> ru_ctl r \<notin> set (ml_aborted m) \<and> ru_ctl r' \<notin> set (ml_aborted m) \<longrightarrow> ru_ctl r = ru_ctl r')
    \<and> (\<forall>i. map_of (ml_urls (unmount m)) i = None)
    \<and> (\<forall>r \<in> set (ml_runs m). ru_ctl r \<in> set (ml_aborted (unmount m)))"
proof -
  have m: "loader_ok m" using assms by (rule reached_ok)
  have u: "urls_ok (map_of (ml_urls m)) (map_of (ml_blobs m)) (ml_nextUrl m)" using loader_okD(1) [OF m] .
  have 1: "map_of (ml_urls m) i \<noteq> None \<longleftrightarrow> (\<exists>!u. map_of (ml_blobs m) u = Some i)" for i
    using u unfolding urls_ok_def by blast
  have 2: "\<exists>i b. ms_blobUrl s = Some i \<and> map_of (ml_urls m) i = Some b"
    if "map_of (ml_states m) v = Some s" "ms_status s = Ready" for v s
  proof -
    obtain i where i: "ms_blobUrl s = Some i" "map_of (ml_blobs m) v = Some i"
      using loader_okD(2) [OF m \<open>map_of (ml_states m) v = Some s\<close>] \<open>ms_status s = Ready\<close> by (auto simp: shows_ok_def)
    then have "map_of (ml_urls m) i \<noteq> None" using u unfolding urls_ok_def by blast
    with i(1) show ?thesis by blast
  qed
  have 3: "ru_ctl r = ru_ctl r'" if "r \<in> set (ml_runs m)" "r' \<in> set (ml_runs m)" "ld_url (ru_file r) = ld_url (ru_file r')"
      "ru_ctl r \<notin> set (ml_aborted m)" "ru_ctl r' \<notin> set (ml_aborted m)" for r r'
    using loader_okD(4) [OF m that(1)] loader_okD(4) [OF m that(2)] that(3-5) by (simp add: run_ok_def)
  show ?thesis using 1 2 3 unmount_urls [OF m] unmount_aborts [OF m] by blast
qed

section \<open>A deleted attachment is released\<close>

definition gone :: "string \<Rightarrow> media_loader \<Rightarrow> bool" where
  "gone u m \<longleftrightarrow> loader_ok m \<and> map_of (ml_states m) u = None \<and> map_of (ml_blobs m) u = None
     \<and> map_of (ml_controllers m) u = None \<and> map_of (ml_files m) u = None"

lemma gone_load: "gone u m \<Longrightarrow> ld_url f \<noteq> u \<Longrightarrow> gone u (load f tok m)"
  by (simp add: gone_def load_ok load_fields)

lemma gone_file: "gone u m \<Longrightarrow> map_of (ml_files m) v = Some f \<Longrightarrow> ld_url f \<noteq> u"
  using loader_okD(5) [of m v f] by (auto simp: gone_def)

lemma gone_observing [simp]:
  "gone u (unobserve el m) = gone u m" "gone u (m\<lparr>ml_elByUrl := e\<rparr>) = gone u m" "gone u (m\<lparr>ml_triggered := tr\<rparr>) = gone u m"
  "gone u (m\<lparr>ml_elByUrl := e, ml_observed := ob, ml_watching := wa\<rparr>) = gone u m"
  by (simp_all add: gone_def) (simp_all add: unobserve_def)

lemma gone_observe: "gone u m \<Longrightarrow> gone u (observe url el m)"
  by (simp add: observe_def Let_def split: option.split)

lemma gone_intersect:
  assumes "gone u m"
  shows "gone u (intersect el m)"
proof (cases "map_of (ml_observed m) el")
  case (Some v)
  have "gone u (load f tok (unobserve el m\<lparr>ml_elByUrl := e, ml_triggered := tr\<rparr>))" if "map_of (ml_files m) v = Some f" for f tok e tr
    using gone_file [OF assms that] assms by (intro gone_load) simp_all
  moreover have "ml_files (unobserve el m) = ml_files m" by (simp add: unobserve_def)
  ultimately show ?thesis using assms Some by (auto simp: intersect_def Let_def split: option.split)
qed (use assms in \<open>simp add: intersect_def\<close>)

lemma gone_request: "gone u m \<Longrightarrow> gone u (request_media url m)"
  using gone_file [of u m url] by (auto simp: request_media_def gone_load split: option.split)

lemma gone_seed:
  assumes "gone u m"
  shows "gone u (seed fb tok f m)"
proof (cases "map_of (ml_files m) (displayUrl f)")
  case (Some l)
  then have n: "displayUrl f \<noteq> u" using assms by (auto simp: gone_def)
  have "loader_ok (seed fb tok f m)" using assms by (simp add: gone_def seed_ok)
  then show ?thesis
    using gone_load [OF assms gone_file [OF assms Some]] assms n Some
    by (auto simp: gone_def seed_def Let_def track_def set_state_def update_conv')
qed (use assms in \<open>simp add: seed_def\<close>)

lemma gone_release: "gone u m \<Longrightarrow> gone u (release v m)"
  by (simp add: gone_def release_ok release_fields)

lemma gone_fold: "(\<And>x m. gone u m \<Longrightarrow> gone u (g x m)) \<Longrightarrow> gone u m \<Longrightarrow> gone u (fold g xs m)"
  by (induction xs arbitrary: m) simp_all

lemma gone_render:
  assumes "gone u m" and "map_of (files_map files) u = None"
  shows "gone u (render fb files token m)"
proof -
  have "gone u (m\<lparr>ml_files := files_map files, ml_token := token\<rparr>)"
    unfolding gone_def
    by (intro conjI loader_okI) (use assms loader_okD [of m] in \<open>auto simp: gone_def intro: files_map_keyed\<close>)
  then show ?thesis by (auto simp: render_def Let_def intro!: gone_fold gone_seed gone_release split: option.split)
qed

lemma gone_advance:
  assumes "gone u m"
  shows "gone u (fst (advance P I ctl (m, w)))"
proof (cases "find (\<lambda>r. ru_ctl r = ctl) (ml_runs m)")
  case (Some r)
  then have r: "r \<in> set (ml_runs m)" "ru_ctl r = ctl" by (auto simp: find_Some_iff)
  have m: "loader_ok m" using assms by (simp add: gone_def)
  have ok: "loader_ok (fst (advance P I ctl (m, w)))" by (rule advance_ok [OF m])
  show ?thesis
  proof (cases "ctl \<in> set (ml_aborted m)")
    case True
    then show ?thesis using Some ok assms by (simp add: advance_def Let_def gone_def drop_run_def)
  next
    case False
    then have "ld_url (ru_file r) \<noteq> u"
      using loader_okD(4) [OF m r(1)] r(2) assms by (auto simp: run_ok_def gone_def)
    then show ?thesis
      using Some ok assms False
      by (auto simp: advance_def Let_def gone_def drop_run_def wait_def present_fields load_failed_def set_state_def update_conv'
          split: load_phase.splits sum.splits prod.splits option.splits)
  qed
qed (use assms in \<open>simp add: advance_def\<close>)

lemma gone_unmount: "gone u m \<Longrightarrow> gone u (unmount m)"
  using unmount_ok [of m] by (simp add: gone_def) (simp add: unmount_def)

lemma gone_step:
  assumes "gone u (fst s)" and "\<And>files token. ev = RenderEv files token \<Longrightarrow> map_of (files_map files) u = None"
  shows "gone u (fst (media_step fb P I ev s))"
  using assms
  by (cases s; cases ev)
    (auto intro: gone_render gone_observe gone_request gone_unmount gone_advance gone_fold gone_intersect)

lemma gone_steps:
  assumes "gone u (fst s)" and "\<forall>files token. RenderEv files token \<in> set evs \<longrightarrow> map_of (files_map files) u = None"
  shows "gone u (fst (fold (media_step fb P I) evs s))"
  using assms
proof (induction evs arbitrary: s)
  case (Cons ev evs)
  have "gone u (fst (media_step fb P I ev s))" using Cons.prems by (intro gone_step) auto
  moreover have "\<forall>files token. RenderEv files token \<in> set evs \<longrightarrow> map_of (files_map files) u = None" using Cons.prems(2) by simp
  ultimately have "gone u (fst (fold (media_step fb P I) evs (media_step fb P I ev s)))" by (rule Cons.IH)
  then show ?case by simp
qed simp

lemma fold_release_fields:
  "map_of (ml_states (fold release us m)) u = (if u \<in> set us then None else map_of (ml_states m) u)"
  "map_of (ml_blobs (fold release us m)) u = (if u \<in> set us then None else map_of (ml_blobs m) u)"
  "map_of (ml_controllers (fold release us m)) u = (if u \<in> set us then None else map_of (ml_controllers m) u)"
  "ml_files (fold release us m) = ml_files m"
  by (induction us arbitrary: m) (auto simp: release_fields)

lemma seed_files: "ml_files (fold (seed fb tok) fs m) = ml_files m"
proof (induction fs arbitrary: m)
  case (Cons f fs)
  have "ml_files (seed fb tok f m) = ml_files m"
    by (simp add: seed_def Let_def load_fields track_def set_state_def split: option.split)
  then show ?case using Cons by simp
qed simp

lemma render_releases:
  assumes "loader_ok m" and "truthy_token token = Some tok" and "map_of (files_map files) u = None"
  shows "gone u (render fb files token m)"
proof -
  let ?m = "m\<lparr>ml_files := files_map files, ml_token := token\<rparr>"
  let ?m1 = "fold (seed fb tok) files ?m"
  let ?out = "filter (\<lambda>u. map_of (files_map files) u = None) (ml_tracked ?m1)"
  have r: "render fb files token m = fold release ?out ?m1" using assms(2) by (simp add: render_def Let_def)
  have ok: "loader_ok ?m" by (rule loader_okI) (use loader_okD [OF assms(1)] in \<open>auto intro: files_map_keyed\<close>)
  have ok1: "loader_ok ?m1" by (intro fold_ok seed_ok ok)
  have "u \<in> set ?out \<or> map_of (ml_states ?m1) u = None \<and> map_of (ml_blobs ?m1) u = None \<and> map_of (ml_controllers ?m1) u = None"
    using loader_okD(3) [OF ok1, of u] assms(3) by (cases "u \<in> set (ml_tracked ?m1)") (simp, blast)
  then show ?thesis
    using render_ok [OF assms(1), of fb files token] assms(3)
    by (auto simp: gone_def r fold_release_fields seed_files)
qed

text \<open>A deleted attachment is released for good. When a render no longer lists an attachment, its
  state and its object URL are gone, and nothing that is still in flight, observed or tapped brings them
  back before a render lists it again.\<close>

lemma deleted_media_stays_gone:
  assumes "fold (media_step fb P I) evs (empty_loader, w) = (m, w')"
    and "truthy_token token = Some tok" and "map_of (files_map files) u = None"
    and "\<forall>fs tk. RenderEv fs tk \<in> set evs' \<longrightarrow> map_of (files_map fs) u = None"
    and "fold (media_step fb P I) (RenderEv files token # evs') (m, w') = (m2, w2)"
  shows "map_of (ml_states m2) u = None \<and> map_of (ml_blobs m2) u = None
    \<and> (\<forall>r \<in> set (ml_runs m2). ld_url (ru_file r) = u \<longrightarrow> ru_ctl r \<in> set (ml_aborted m2))"
proof -
  have "gone u (render fb files token m)"
    using render_releases [OF reached_ok [OF assms(1)] assms(2,3)] .
  then have "gone u (fst (fold (media_step fb P I) evs' (media_step fb P I (RenderEv files token) (m, w'))))"
    using assms(4) by (intro gone_steps) simp_all
  then have g: "gone u m2" using assms(5) by simp
  then have "ru_ctl r \<in> set (ml_aborted m2)" if "r \<in> set (ml_runs m2)" "ld_url (ru_file r) = u" for r
    using loader_okD(4) [of m2 r] that by (auto simp: gone_def run_ok_def)
  with g show ?thesis by (auto simp: gone_def)
qed

section \<open>What the offline cache keeps\<close>

text \<open>\<open>e\<close> is what the policy lets \<open>cacheAfterLoad\<close> keep of a decrypted object.\<close>

definition cacheable :: "image_codec \<Rightarrow> loadable \<Rightarrow> bytes \<Rightarrow> bytes \<Rightarrow> bool" where
  "cacheable I f plaintext e \<longleftrightarrow>
     (case ld_cache f of
        CacheNone \<Rightarrow> False
      | CachePreview \<Rightarrow> e = plaintext
      | CacheDerive \<Rightarrow> sniffInlineImageMime plaintext \<noteq> None
          \<and> (\<exists>width height. im_size I plaintext = Some (width, height)
             \<and> (if needsPreview (length plaintext) width height
                then \<exists>q r. reencodeImage I plaintext PREVIEW_MAX_EDGE q = Inr r \<and> e = re_blob r
                else e = plaintext)))"

lemma put_entry_result:
  assumes "put_entry P u b mime w = (r, w')"
  shows "w_ls w' = w_ls w \<and> w_mgr w' = w_mgr w \<and> w_events w' = w_events w
    \<and> (w_db w' = w_db w \<or> (\<exists>e. w_db w' = (w_db w)\<lparr>db_media := st_put u e (db_media (w_db w))\<rparr> \<and> mb_bytes e = b))"
  using assms by (auto simp: put_entry_def toEntry_def putMediaBlob_def io_simps split: if_splits)

lemma cacheAfterLoad_result:
  assumes "cacheAfterLoad P I f plaintext w = (r, w')"
  shows "r = Inr () \<and> w_ls w' = w_ls w \<and> w_mgr w' = w_mgr w \<and> w_events w' = w_events w
    \<and> (w_db w' = w_db w
       \<or> (\<exists>e. w_db w' = (w_db w)\<lparr>db_media := st_put (ld_url f) e (db_media (w_db w))\<rparr> \<and> cacheable I f plaintext (mb_bytes e)))"
proof -
  have put: "r = Inr () \<and> w_ls w' = w_ls w \<and> w_mgr w' = w_mgr w \<and> w_events w' = w_events w
      \<and> (w_db w' = w_db w
         \<or> (\<exists>e. w_db w' = (w_db w)\<lparr>db_media := st_put (ld_url f) e (db_media (w_db w))\<rparr> \<and> mb_bytes e = b))"
    if "catch_err (put_entry P (ld_url f) b mime) (\<lambda>_. ret ()) w = (r, w')" for b mime
  proof (cases "put_entry P (ld_url f) b mime w")
    case (Pair x v)
    then show ?thesis using that put_entry_result [OF Pair] by (cases x) (auto simp: io_simps)
  qed
  show ?thesis
  proof (cases "ld_cache f")
    case CacheNone
    then show ?thesis using assms by (simp add: cacheAfterLoad_def io_simps)
  next
    case CachePreview
    then show ?thesis using assms put by (auto simp: cacheAfterLoad_def cacheable_def)
  next
    case CacheDerive
    show ?thesis
    proof (cases "sniffInlineImageMime plaintext = None \<or> im_size I plaintext = None")
      case True
      then show ?thesis using assms CacheDerive by (auto simp: cacheAfterLoad_def io_simps imageSize_def lift_result_def split: option.splits)
    next
      case False
      then obtain mime width height where i: "sniffInlineImageMime plaintext = Some mime" "im_size I plaintext = Some (width, height)"
        by auto
      show ?thesis
      proof (cases "needsPreview (length plaintext) width height")
        case False
        then have "catch_err (put_entry P (ld_url f) plaintext (Some (mime_text mime))) (\<lambda>_. ret ()) w = (r, w')"
          using assms CacheDerive i by (simp add: cacheAfterLoad_def imageSize_def lift_result_def)
        from put [OF this] False CacheDerive i show ?thesis by (auto simp: cacheable_def)
      next
        case True
        show ?thesis
        proof (cases "\<exists>t. makePreview I plaintext = Inr (Some t)")
          case False
          then show ?thesis using assms CacheDerive i True
            by (auto simp: cacheAfterLoad_def imageSize_def lift_result_def io_simps split: sum.splits option.splits)
        next
          case True
          then obtain t where t: "makePreview I plaintext = Inr (Some t)" by blast
          then have "catch_err (put_entry P (ld_url f) (re_blob t) (Some ''image/jpeg'')) (\<lambda>_. ret ()) w = (r, w')"
            using assms CacheDerive i \<open>needsPreview _ _ _\<close> by (simp add: cacheAfterLoad_def imageSize_def lift_result_def)
          from put [OF this] \<open>needsPreview _ _ _\<close> CacheDerive i makePreview_rung [OF t] show ?thesis
            by (auto simp: cacheable_def)
        qed
      qed
    qed
  qed
qed

text \<open>A full original is never persisted. Whatever fails, the cache write returns and changes nothing
  but the entry of its own object; the on-tap full of a previewed image is never written, a file that is
  not an image neither, and of an image that is large enough to need a preview only a re-encoding of at
  most 512 pixels is.\<close>

lemma cacheAfterLoad_keeps_no_original:
  assumes "cacheAfterLoad P I f plaintext w = (r, w')"
  shows "r = Inr () \<and> w_ls w' = w_ls w \<and> w_mgr w' = w_mgr w
    \<and> (w_db w' = w_db w
       \<or> (\<exists>e. w_db w' = (w_db w)\<lparr>db_media := st_put (ld_url f) e (db_media (w_db w))\<rparr> \<and> ld_cache f \<noteq> CacheNone
            \<and> (ld_cache f = CachePreview \<longrightarrow> mb_bytes e = plaintext)
            \<and> (ld_cache f = CacheDerive \<longrightarrow> sniffInlineImageMime plaintext \<noteq> None
                 \<and> (\<exists>width height. im_size I plaintext = Some (width, height)
                    \<and> (if needsPreview (length plaintext) width height
                       then \<exists>q t. reencodeImage I plaintext PREVIEW_MAX_EDGE q = Inr t \<and> mb_bytes e = re_blob t
                       else mb_bytes e = plaintext)))))"
  using cacheAfterLoad_result [OF assms] by (cases "ld_cache f") (simp_all add: cacheable_def)

section \<open>An attachment shows its own object\<close>

text \<open>\<open>G u b\<close> says that the bytes \<open>b\<close> are the object \<open>u\<close> or a reduction of it. The keys of an
  attachment open nothing else.\<close>

definition opens_own :: "'n platform \<Rightarrow> (string \<Rightarrow> bytes \<Rightarrow> bool) \<Rightarrow> loadable \<Rightarrow> bool" where
  "opens_own P G f \<longleftrightarrow> (\<forall>c v b v'. decryptMedia P c (ld_key f) (ld_iv f) v = (Inr b, v') \<longrightarrow> G (ld_url f) b)"

definition reductions_ok :: "image_codec \<Rightarrow> (string \<Rightarrow> bytes \<Rightarrow> bool) \<Rightarrow> bool" where
  "reductions_ok I G \<longleftrightarrow> (\<forall>u b q r. G u b \<and> reencodeImage I b PREVIEW_MAX_EDGE q = Inr r \<longrightarrow> G u (re_blob r))"

definition cache_own :: "(string \<Rightarrow> bytes \<Rightarrow> bool) \<Rightarrow> idb \<Rightarrow> bool" where
  "cache_own G d \<longleftrightarrow> st_ok (db_media d) \<and> (\<forall>u e. st_get u (db_media d) = Some e \<longrightarrow> G u (mb_bytes e))"

definition shows_own :: "'n platform \<Rightarrow> (string \<Rightarrow> bytes \<Rightarrow> bool) \<Rightarrow> media_loader \<times> 'n world \<Rightarrow> bool" where
  "shows_own P G s \<longleftrightarrow> loader_ok (fst s) \<and> cache_own G (w_db (snd s))
     \<and> (\<forall>u i b. map_of (ml_blobs (fst s)) u = Some i \<and> map_of (ml_urls (fst s)) i = Some b \<longrightarrow> G u b)
     \<and> (\<forall>f \<in> ru_file ` set (ml_runs (fst s)). opens_own P G f)
     \<and> (\<forall>u f. map_of (ml_files (fst s)) u = Some f \<longrightarrow> opens_own P G f)"

lemma shows_ownI:
  assumes "loader_ok (fst s)" and "cache_own G (w_db (snd s))"
    and "\<And>u i b. map_of (ml_blobs (fst s)) u = Some i \<Longrightarrow> map_of (ml_urls (fst s)) i = Some b \<Longrightarrow> G u b"
    and "\<And>r. r \<in> set (ml_runs (fst s)) \<Longrightarrow> opens_own P G (ru_file r)"
    and "\<And>u f. map_of (ml_files (fst s)) u = Some f \<Longrightarrow> opens_own P G f"
  shows "shows_own P G s"
  using assms unfolding shows_own_def by blast

lemma shows_ownD:
  assumes "shows_own P G s"
  shows "loader_ok (fst s)" and "cache_own G (w_db (snd s))"
    and "map_of (ml_blobs (fst s)) u = Some i \<Longrightarrow> map_of (ml_urls (fst s)) i = Some b \<Longrightarrow> G u b"
    and "r \<in> set (ml_runs (fst s)) \<Longrightarrow> opens_own P G (ru_file r)"
    and "map_of (ml_files (fst s)) u = Some f \<Longrightarrow> opens_own P G f"
  using assms unfolding shows_own_def by blast+

lemma own_load:
  assumes "shows_own P G (m, w)" and "opens_own P G f"
  shows "shows_own P G (load f tok m, w)"
  using shows_ownD [OF assms(1)] assms(2) by (intro shows_ownI) (auto simp: load_ok load_fields)

lemma own_observing [simp]:
  "shows_own P G (unobserve el m, w) = shows_own P G (m, w)" "shows_own P G (m\<lparr>ml_elByUrl := e\<rparr>, w) = shows_own P G (m, w)"
  "shows_own P G (m\<lparr>ml_triggered := tr\<rparr>, w) = shows_own P G (m, w)"
  "shows_own P G (m\<lparr>ml_elByUrl := e, ml_observed := ob, ml_watching := wa\<rparr>, w) = shows_own P G (m, w)"
  by (simp_all add: shows_own_def) (simp_all add: unobserve_def)

lemma own_observe: "shows_own P G (m, w) \<Longrightarrow> shows_own P G (observe url el m, w)"
  by (simp add: observe_def Let_def split: option.split)

lemma own_intersect:
  assumes "shows_own P G (m, w)"
  shows "shows_own P G (intersect el m, w)"
proof -
  have "ml_files (unobserve el m) = ml_files m" by (simp add: unobserve_def)
  then show ?thesis
    using assms shows_ownD(5) [OF assms] by (auto simp: intersect_def Let_def intro!: own_load split: option.split)
qed

lemma own_request: "shows_own P G (m, w) \<Longrightarrow> shows_own P G (request_media url m, w)"
  using shows_ownD(5) [of P G "(m, w)" url] by (auto simp: request_media_def intro!: own_load split: option.split)

lemma own_seed:
  assumes "shows_own P G (m, w)"
  shows "shows_own P G (seed fb tok f m, w)"
proof (cases "map_of (ml_files m) (displayUrl f)")
  case (Some l)
  have "loader_ok (seed fb tok f m)" using shows_ownD(1) [OF assms] by (simp add: seed_ok)
  moreover have "opens_own P G l" using shows_ownD(5) [OF assms] Some by simp
  ultimately show ?thesis
    using own_load [OF assms, of l tok] assms Some
    by (auto simp: shows_own_def seed_def Let_def track_def set_state_def)
qed (use assms in \<open>simp add: seed_def\<close>)

lemma own_release:
  assumes "shows_own P G (m, w)"
  shows "shows_own P G (release u m, w)"
proof (rule shows_ownI, goal_cases)
  case (3 v i b)
  then show ?case
    using shows_ownD(3) [OF assms, of v i b] by (auto simp: release_fields split: if_splits option.splits)
qed (use shows_ownD [OF assms] in \<open>auto simp: release_ok release_fields\<close>)

lemma own_fold: "(\<And>x m. shows_own P G (m, w) \<Longrightarrow> shows_own P G (g x m, w)) \<Longrightarrow> shows_own P G (m, w) \<Longrightarrow> shows_own P G (fold g xs m, w)"
  by (induction xs arbitrary: m) simp_all

lemma files_map_in: "map_of (files_map fs) u = Some f \<Longrightarrow> f \<in> set (loadables fs)"
proof -
  have k: "map_of (fold (\<lambda>l m. AList.update (ld_url l) l m) ls acc) u = Some f \<Longrightarrow> f \<in> set ls \<or> map_of acc u = Some f"
    for ls and acc :: "(string \<times> loadable) list"
  proof (induction ls arbitrary: acc)
    case (Cons l ls)
    from Cons.IH [of "AList.update (ld_url l) l acc"] Cons.prems show ?case
      by (auto simp: update_conv' split: if_splits)
  qed simp
  show "map_of (files_map fs) u = Some f \<Longrightarrow> f \<in> set (loadables fs)"
    using k [of "loadables fs" "[]"] by (simp add: files_map_def)
qed

lemma own_render:
  assumes "shows_own P G (m, w)" and "\<forall>f \<in> set (loadables files). opens_own P G f"
  shows "shows_own P G (render fb files token m, w)"
proof -
  have "shows_own P G (m\<lparr>ml_files := files_map files, ml_token := token\<rparr>, w)"
  proof (rule shows_ownI, goal_cases)
    case 1
    show ?case unfolding fst_conv
      by (rule loader_okI) (use loader_okD [OF shows_ownD(1) [OF assms(1)]] in \<open>auto intro: files_map_keyed\<close>)
  next
    case (5 u f)
    then show ?case using assms(2) files_map_in [of files u f] by simp
  qed (use shows_ownD [OF assms(1)] in \<open>auto\<close>)
  then show ?thesis by (auto simp: render_def Let_def intro!: own_fold own_seed own_release split: option.split)
qed

lemma own_unmount: "shows_own P G (m, w) \<Longrightarrow> shows_own P G (unmount m, w)"
  using unmount_ok [of m] by (simp add: shows_own_def) (simp add: unmount_def)

lemma own_present:
  assumes "shows_own P G (m, w)" and "u \<in> set (ml_tracked m)" and "G u b" and "cache_own G (w_db w')"
  shows "shows_own P G (present u b m, w')"
proof (rule shows_ownI, goal_cases)
  case 1
  show ?case using present_ok [OF shows_ownD(1) [OF assms(1)]] assms(2) by simp
next
  case (3 v i c)
  have "urls_ok (map_of (ml_urls m)) (map_of (ml_blobs m)) (ml_nextUrl m)"
    using loader_okD(1) [OF shows_ownD(1) [OF assms(1)]] by simp
  then have "map_of (ml_blobs m) v = Some i \<longrightarrow> i \<noteq> ml_nextUrl m" "map_of (ml_blobs m) u = Some j \<longrightarrow> j \<noteq> ml_nextUrl m" for j
    unfolding urls_ok_def by blast+
  then show ?case
    using 3 shows_ownD(3) [OF assms(1), of v i c] assms(3)
    by (auto simp: present_fields split: if_splits option.splits)
qed (use shows_ownD [OF assms(1)] assms(4) in \<open>auto simp: present_fields\<close>)

lemma cacheable_own:
  assumes "cacheable I f b e" and "G (ld_url f) b" and "reductions_ok I G"
  shows "G (ld_url f) e"
  using assms by (auto simp: cacheable_def reductions_ok_def split: cache_policy.splits if_splits)

lemma cache_own_put: "cache_own G d \<Longrightarrow> G u (mb_bytes e) \<Longrightarrow> cache_own G (d\<lparr>db_media := st_put u e (db_media d)\<rparr>)"
  by (auto simp: cache_own_def st_get_put)

lemma cache_own_fetch:
  assumes "cache_own G (w_db w)"
  shows "getMediaBlob P u w = (x, w1) \<Longrightarrow> cache_own G (w_db w1) \<and> (\<forall>e. x = Inr (Some e) \<longrightarrow> G u (mb_bytes e))"
    and "fetchMedia P t u w = (y, w2) \<Longrightarrow> cache_own G (w_db w2)"
    and "decryptMedia P c k iv w = (z, w3) \<Longrightarrow> cache_own G (w_db w3)"
    and "cache_own G (w_db (snd (detached (deleteMediaBlob P u) (\<lambda>_. ret ()) w)))"
proof -
  have f: "keeps (on_db (cache_own G)) (fetchMedia P t u)" "keeps (on_db (cache_own G)) (decryptMedia P c k iv)"
    by (intro keeps_intros)+
  show "fetchMedia P t u w = (y, w2) \<Longrightarrow> cache_own G (w_db w2)" "decryptMedia P c k iv w = (z, w3) \<Longrightarrow> cache_own G (w_db w3)"
    using keeps_result [OF f(1)] keeps_result [OF f(2)] assms by (auto simp: on_db_def)
  show "getMediaBlob P u w = (x, w1) \<Longrightarrow> cache_own G (w_db w1) \<and> (\<forall>e. x = Inr (Some e) \<longrightarrow> G u (mb_bytes e))"
    using assms by (auto simp: getMediaBlob_def io_simps cache_own_def split: if_splits)
  show "cache_own G (w_db (snd (detached (deleteMediaBlob P u) (\<lambda>_. ret ()) w)))"
    using assms by (auto simp: deleteMediaBlob_def io_simps cache_own_def st_get_delete split: if_splits)
qed

lemma own_failed:
  assumes "shows_own P G (m, w)" and "u \<in> set (ml_tracked m)" and "cache_own G (w_db w1)"
  shows "shows_own P G (load_failed P u e (m, w1))"
proof (rule shows_ownI, goal_cases)
  case 1
  show ?case using failed_ok [OF shows_ownD(1) [OF assms(1)]] assms(2) by simp
qed (use shows_ownD [OF assms(1)] assms(3) cache_own_fetch(4) [OF assms(3)] in \<open>auto simp: load_failed_def set_state_def\<close>)

lemma own_wait:
  assumes "shows_own P G (m, w)" and "loader_ok (wait r ph m)" and "opens_own P G (ru_file r)" and "cache_own G (w_db w1)"
  shows "shows_own P G (wait r ph m, w1)"
  by (rule shows_ownI) (use shows_ownD [OF assms(1)] assms(2-4) in \<open>auto simp: wait_def\<close>)

lemma own_drop: "shows_own P G (m, w) \<Longrightarrow> shows_own P G (drop_run ctl m, w)"
  by (auto simp: shows_own_def drop_run_ok) (auto simp: drop_run_def)

lemma own_cached:
  assumes "shows_own P G (m, w)" and "cache_own G (w_db w1)" and "G (ld_url f) b" and "reductions_ok I G"
  shows "cache_own G (w_db (snd (detached (cacheAfterLoad P I f b) (\<lambda>_. ret ()) w1)))"
proof (cases "cacheAfterLoad P I f b w1")
  case (Pair r w2)
  from cacheAfterLoad_result [OF Pair] have r: "r = Inr ()"
    and "w_db w2 = w_db w1 \<or> (\<exists>e. w_db w2 = (w_db w1)\<lparr>db_media := st_put (ld_url f) e (db_media (w_db w1))\<rparr>
      \<and> cacheable I f b (mb_bytes e))" by blast+
  then have "cache_own G (w_db w2)"
    using assms(2) cacheable_own [OF _ assms(3,4)] cache_own_put [OF assms(2)] by metis
  then show ?thesis using Pair r by (simp add: detached_app catch_err_app)
qed

lemma own_advance:
  assumes "shows_own P G (m, w)" and "reductions_ok I G"
  shows "shows_own P G (advance P I ctl (m, w))"
proof (cases "find (\<lambda>r. ru_ctl r = ctl) (ml_runs m)")
  case (Some r)
  then have r: "r \<in> set (ml_runs m)" "ru_ctl r = ctl" by (auto simp: find_Some_iff)
  let ?u = "ld_url (ru_file r)" and ?m = "drop_run ctl m"
  have m: "loader_ok m" and c: "cache_own G (w_db w)" and o: "opens_own P G (ru_file r)"
    using shows_ownD(1,2) [OF assms(1)] shows_ownD(4) [OF assms(1)] r(1) by simp_all
  have d: "shows_own P G (?m, w)" using assms(1) by (rule own_drop)
  show ?thesis
  proof (cases "ctl \<in> set (ml_aborted m)")
    case True
    then show ?thesis using Some d by (simp add: advance_def Let_def)
  next
    case False
    then have ro: "run_ok (ml_aborted m) (map_of (ml_controllers m)) r" "map_of (ml_controllers m) ?u = Some ctl"
      using loader_okD(4) [OF m r(1)] r(2) by (auto simp: run_ok_def)
    have t: "?u \<in> set (ml_tracked ?m)" using loader_okD(3) [OF m, of ?u] ro(2) by simp
    have w: "shows_own P G (wait r ph ?m, v)" if "cache_own G (w_db v)" for ph v
      using own_wait [OF d _ o that] wait_ok [OF drop_run_ok [OF m]] ro(1) by simp
    show ?thesis
    proof (cases "ru_phase r")
      case AwaitCache
      obtain x w1 where g: "getMediaBlob P ?u w = (x, w1)" by fastforce
      from cache_own_fetch(1) [OF c g] have "cache_own G (w_db w1)" "\<forall>e. x = Inr (Some e) \<longrightarrow> G ?u (mb_bytes e)" by blast+
      then show ?thesis
        using Some False AwaitCache g w own_present [OF d t]
        by (auto simp: advance_def Let_def split: sum.split option.split)
    next
      case AwaitFetch
      obtain x w1 where g: "fetchMedia P (ru_token r) ?u w = (x, w1)" by fastforce
      from cache_own_fetch(2) [OF c g] have "cache_own G (w_db w1)" .
      then show ?thesis
        using Some False AwaitFetch g w own_failed [OF d t] by (auto simp: advance_def Let_def split: sum.split)
    next
      case (AwaitDecrypt ct)
      obtain x w1 where g: "decryptMedia P ct (ld_key (ru_file r)) (ld_iv (ru_file r)) w = (x, w1)" by fastforce
      have c1: "cache_own G (w_db w1)" using cache_own_fetch(3) [OF c g] .
      show ?thesis
      proof (cases x)
        case (Inl e)
        then show ?thesis using Some False AwaitDecrypt g own_failed [OF d t c1] by (simp add: advance_def Let_def)
      next
        case (Inr b)
        then have b: "G ?u b" using o g by (auto simp: opens_own_def)
        from own_present [OF d t b own_cached [OF assms(1) c1 b assms(2)]] show ?thesis
          using Some False AwaitDecrypt g Inr by (simp add: advance_def Let_def)
      qed
    qed
  qed
qed (use assms in \<open>simp add: advance_def\<close>)

lemma own_step:
  assumes "shows_own P G s" and "reductions_ok I G"
    and "\<And>files token f. ev = RenderEv files token \<Longrightarrow> f \<in> set (loadables files) \<Longrightarrow> opens_own P G f"
  shows "shows_own P G (media_step fb P I ev s)"
  using assms
  by (cases s; cases ev)
    (auto intro: own_render own_observe own_request own_unmount own_advance own_fold own_intersect)

lemma own_steps:
  assumes "shows_own P G s" and "reductions_ok I G"
    and "\<forall>files token. RenderEv files token \<in> set evs \<longrightarrow> (\<forall>f \<in> set (loadables files). opens_own P G f)"
  shows "shows_own P G (fold (media_step fb P I) evs s)"
  using assms
proof (induction evs arbitrary: s)
  case (Cons ev evs)
  have "shows_own P G (media_step fb P I ev s)" using Cons.prems by (intro own_step) auto
  moreover have "\<forall>files token. RenderEv files token \<in> set evs \<longrightarrow> (\<forall>f \<in> set (loadables files). opens_own P G f)"
    using Cons.prems(3) by simp
  ultimately have "shows_own P G (fold (media_step fb P I) evs (media_step fb P I ev s))" using Cons.prems(2) by (intro Cons.IH)
  then show ?case by simp
qed simp

text \<open>C17: an attachment never shows another's bytes. When the keys of every rendered attachment open
  only its own object and the cache starts out right, every ready attachment shows its own object or a
  reduction of it, and so does every later cache entry, whatever the server answers and however renders,
  taps and loads interleave.\<close>

theorem media_shows_own_object:
  assumes "fold (media_step fb P I) evs (empty_loader, w) = (m, w')" and "cache_own G (w_db w)" and "reductions_ok I G"
    and "\<forall>files token. RenderEv files token \<in> set evs \<longrightarrow> (\<forall>f \<in> set (loadables files). opens_own P G f)"
  shows "(\<forall>u s. map_of (ml_states m) u = Some s \<and> ms_status s = Ready \<longrightarrow>
      (\<exists>i b. ms_blobUrl s = Some i \<and> map_of (ml_urls m) i = Some b \<and> G u b)) \<and> cache_own G (w_db w')"
proof -
  have "shows_own P G (empty_loader, w)" using assms(2) empty_loader_ok by (simp add: shows_own_def) (simp add: empty_loader_def)
  from own_steps [OF this assms(3,4), of fb] have s: "shows_own P G (m, w')" using assms(1) by simp
  have "\<exists>i b. ms_blobUrl t = Some i \<and> map_of (ml_urls m) i = Some b \<and> G u b"
    if t: "map_of (ml_states m) u = Some t" "ms_status t = Ready" for u t
  proof -
    have m: "loader_ok m" using shows_ownD(1) [OF s] by simp
    obtain i where i: "ms_blobUrl t = Some i" "map_of (ml_blobs m) u = Some i"
      using loader_okD(2) [OF m t(1)] t(2) by (auto simp: shows_ok_def)
    then obtain b where "map_of (ml_urls m) i = Some b"
      using loader_okD(1) [OF m] unfolding urls_ok_def by blast
    with i shows_ownD(3) [OF s, of u i b] show ?thesis by auto
  qed
  with shows_ownD(2) [OF s] show ?thesis by simp
qed

section \<open>A concrete run\<close>

text \<open>One photo is rendered, observed, scrolled into view, read from the cache (a miss), fetched and
  decrypted; the cipher opens nothing but the photo.\<close>

definition photo_platform :: "unit platform" where
  "photo_platform = quiet_platform\<lparr>
     pl_fetch := (\<lambda>rq n. (Some \<lparr>rs_status = 200, rs_status_text = [], rs_json_type = False, rs_json = None, rs_bytes = ''photo''\<rparr>, n)),
     pl_aes_decrypt := (\<lambda>_ _ c. if c = ''photo'' then Some c else None)\<rparr>"

definition blind_codec :: image_codec where
  "blind_codec = \<lparr>im_size = (\<lambda>_. None), im_jpeg = (\<lambda>_ _ _ _. None), im_double = (\<lambda>x. x)\<rparr>"

definition demo_attachment :: media_file where
  "demo_attachment = \<lparr>mf_url = ''m'', mf_key = ''k'', mf_iv = ''i'', mf_name = ''a.png'', mf_size = NInt 5,
     mf_extras = \<lparr>me_mime = None, me_width = None, me_height = None, me_optimized = None\<rparr>, mf_preview = None\<rparr>"

definition demo_events :: "media_event list" where
  "demo_events = [RenderEv [demo_attachment] (Some ''t''), ObserveEv ''m'' (Some 7), IntersectEv [7], AdvanceEv 0, AdvanceEv 0, AdvanceEv 0]"

lemma demo_files: "loadables [demo_attachment] = [\<lparr>ld_url = ''m'', ld_key = ''k'', ld_iv = ''i'', ld_cache = CacheDerive\<rparr>]"
    "displayUrl demo_attachment = ''m''" "isLikelyImage (mf_name demo_attachment)"
  by (simp_all add: demo_attachment_def displayUrl_def) (code_simp)

lemma demo_render:
  "render False [demo_attachment] (Some ''t'') empty_loader = \<lparr>ml_states = [(''m'', IDLE)], ml_controllers = [], ml_aborted = [],
     ml_nextCtl = 0, ml_blobs = [], ml_urls = [], ml_nextUrl = 0,
     ml_files = [(''m'', \<lparr>ld_url = ''m'', ld_key = ''k'', ld_iv = ''i'', ld_cache = CacheDerive\<rparr>)], ml_token = Some ''t'',
     ml_watching = [], ml_observed = [], ml_elByUrl = [], ml_triggered = [], ml_tracked = [''m''], ml_runs = []\<rparr>"
  by (simp add: render_def Let_def truthy_token_def files_map_def demo_files seed_def track_def set_state_def empty_loader_def del: loadables.simps)

lemma demo_loads:
  "\<exists>m w'. fold (media_step False photo_platform blind_codec) demo_events (empty_loader, quiet_world) = (m, w')
     \<and> ml_states m = [(''m'', \<lparr>ms_status = Ready, ms_blobUrl = Some 0, ms_mime = None\<rparr>)] \<and> ml_urls m = [(0, ''photo'')]"
  by (simp add: demo_events_def demo_render observe_def intersect_def unobserve_def Let_def truthy_token_def load_def abort_url_def
      track_def set_state_def advance_def drop_run_def wait_def getMediaBlob_def fetchMedia_def do_fetch_def res_ok_def
      decryptMedia_def io_simps photo_platform_def quiet_platform_def quiet_world_def empty_idb_def present_def revoke_url_def
      sniffInlineImageMime_def cacheAfterLoad_def)

theorem media_urls_never_leak_witness:
  "\<exists>m w'. fold (media_step False photo_platform blind_codec) demo_events (empty_loader, quiet_world) = (m, w')
     \<and> map_of (ml_urls m) 0 = Some ''photo'' \<and> map_of (ml_urls (unmount m)) 0 = None"
proof -
  obtain m w' where r: "fold (media_step False photo_platform blind_codec) demo_events (empty_loader, quiet_world) = (m, w')"
      "ml_urls m = [(0, ''photo'')]"
    using demo_loads by blast
  from media_urls_never_leak [OF r(1)] r show ?thesis by auto
qed

theorem media_shows_own_object_witness:
  "\<exists>m w' b. fold (media_step False photo_platform blind_codec) demo_events (empty_loader, quiet_world) = (m, w')
     \<and> map_of (ml_urls m) 0 = Some b \<and> b = ''photo''"
proof -
  let ?G = "\<lambda>(u :: string) b. b = ''photo''"
  obtain m w' where r: "fold (media_step False photo_platform blind_codec) demo_events (empty_loader, quiet_world) = (m, w')"
      "ml_states m = [(''m'', \<lparr>ms_status = Ready, ms_blobUrl = Some 0, ms_mime = None\<rparr>)]"
    using demo_loads by blast
  have c: "cache_own ?G (w_db quiet_world)" by (simp add: cache_own_def quiet_world_def empty_idb_def)
  have i: "reductions_ok blind_codec ?G" by (simp add: reductions_ok_def reencodeImage_def blind_codec_def)
  have o: "\<forall>files token. RenderEv files token \<in> set demo_events \<longrightarrow> (\<forall>f \<in> set (loadables files). opens_own photo_platform ?G f)"
    by (auto simp: demo_events_def demo_files opens_own_def decryptMedia_def io_simps photo_platform_def quiet_platform_def split: if_splits)
  from media_shows_own_object [OF r(1) c i o] r obtain b where "map_of (ml_urls m) 0 = Some b" "b = ''photo''" by fastforce
  with r(1) show ?thesis by blast
qed

end
