(* ===== verification/SessionHook.thy ===== *)
theory SessionHook
  imports ReadMarkers
begin

text \<open>
  web/src/hooks/useSession.ts: the life of a session in the page. The hook's state is a record; the
  initialisation of a session manager is a run with the promise it waits for, cancelled when its effect
  is no longer the current one. Each manager is kept under the number of its run, so that two runs do
  not share one; an effect on a manager is run with it in the world. A state change and the effects
  React runs for it are one step.
\<close>

section \<open>State\<close>

datatype login_notice = RotatedElsewhere | AccountDeleted

record init_deps =
  id_userId :: string
  id_deviceId :: string
  id_token :: string
  id_backupKey :: crypto_key
  id_keyVersion :: int

datatype init_phase = AwaitModules | AwaitManager | AwaitRestore

record init_run =
  ir_id :: nat
  ir_deps :: init_deps
  ir_phase :: init_phase

datatype teardown = WipeSession "login_notice option" | DropToken

record session_hook =
  sh_session :: "session option"
  sh_loading :: bool
  sh_notice :: "login_notice option"
  sh_restoreWarning :: "nat option"
  sh_manager :: "nat option"
  sh_current :: "nat option"
  sh_nextRun :: nat
  sh_runs :: "init_run list"
  sh_mgrs :: "(nat \<times> init_deps \<times> mgr) list"
  sh_pending :: "teardown list"

definition first_render :: session_hook where
  "first_render = \<lparr>sh_session = None, sh_loading = True, sh_notice = None, sh_restoreWarning = None, sh_manager = None,
     sh_current = None, sh_nextRun = 0, sh_runs = [], sh_mgrs = [], sh_pending = []\<rparr>"

definition deps_of :: "session \<Rightarrow> init_deps" where
  "deps_of s = \<lparr>id_userId = se_userId s, id_deviceId = se_deviceId s, id_token = se_token s,
     id_backupKey = se_backupKey s, id_keyVersion = se_keyVersion s\<rparr>"

definition deps_set :: "init_deps \<Rightarrow> bool" where
  "deps_set d \<longleftrightarrow> id_userId d \<noteq> [] \<and> id_deviceId d \<noteq> [] \<and> id_token d \<noteq> []"

section \<open>The initialisation effect\<close>

definition destroyed :: "mgr \<Rightarrow> mgr" where
  "destroyed m = m\<lparr>mg_outbound := None, mg_inbound := []\<rparr>"

definition destroy_current :: "session_hook \<Rightarrow> session_hook" where
  "destroy_current h =
     (case sh_manager h of
        None \<Rightarrow> h
      | Some i \<Rightarrow> h\<lparr>sh_mgrs := map (\<lambda>(j, d, m). (j, d, if j = i then destroyed m else m)) (sh_mgrs h), sh_manager := None\<rparr>)"

definition cleanup :: "session_hook \<Rightarrow> session_hook" where
  "cleanup h = (case sh_current h of None \<Rightarrow> h | Some _ \<Rightarrow> destroy_current (h\<lparr>sh_current := None\<rparr>))"

definition start_init :: "init_deps \<Rightarrow> session_hook \<Rightarrow> session_hook" where
  "start_init d h =
     (if \<not> deps_set d then h
      else h\<lparr>sh_restoreWarning := None, sh_current := Some (sh_nextRun h), sh_nextRun := sh_nextRun h + 1,
             sh_runs := sh_runs h @ [\<lparr>ir_id = sh_nextRun h, ir_deps = d, ir_phase = AwaitModules\<rparr>]\<rparr>)"

text \<open>The change of the session, the cleanup of the effect for the old one and the effect for the new one
  are one step: the render that React commits between the change and the cleanup's own update, with the
  new session beside the old manager, is not a state of the model.\<close>

definition setSession :: "session option \<Rightarrow> session_hook \<Rightarrow> session_hook" where
  "setSession so h =
     (let h' = h\<lparr>sh_session := so\<rparr> in
      if map_option deps_of so = map_option deps_of (sh_session h) then h'
      else (case so of None \<Rightarrow> cleanup h' | Some s \<Rightarrow> start_init (deps_of s) (cleanup h')))"

text \<open>An effect on the manager \<open>m\<close>.\<close>

definition run_with :: "mgr \<Rightarrow> ('n world, 'a) io \<Rightarrow> 'n world \<Rightarrow> (js_error + 'a) \<times> mgr \<times> 'n world" where
  "run_with m f w = (let (r, w1) = f (w\<lparr>w_mgr := m\<rparr>) in (r, w_mgr w1, w1\<lparr>w_mgr := w_mgr w\<rparr>))"

definition on_created :: "'n platform \<Rightarrow> init_deps \<Rightarrow> 'n created_callback" where
  "on_created P d sessionId sessionKey =
     catch_err (backupSessionKey P (id_token d) (id_userId d) sessionId sessionKey (id_backupKey d) (id_keyVersion d))
       (\<lambda>_. ret ())"

definition drop_init :: "nat \<Rightarrow> session_hook \<Rightarrow> session_hook" where
  "drop_init i h = h\<lparr>sh_runs := filter (\<lambda>r. ir_id r \<noteq> i) (sh_runs h)\<rparr>"

definition wait_init :: "init_run \<Rightarrow> init_phase \<Rightarrow> session_hook \<Rightarrow> session_hook" where
  "wait_init r ph h = h\<lparr>sh_runs := sh_runs h @ [r\<lparr>ir_phase := ph\<rparr>]\<rparr>"

definition keep_mgr :: "nat \<Rightarrow> init_deps \<Rightarrow> mgr \<Rightarrow> session_hook \<Rightarrow> session_hook" where
  "keep_mgr i d m h = h\<lparr>sh_mgrs := AList.update i (d, m) (sh_mgrs h)\<rparr>"

text \<open>What follows the restore of a run that was not cancelled.\<close>

definition publish_manager :: "nat \<Rightarrow> js_error + nat \<times> nat \<Rightarrow> session_hook \<Rightarrow> session_hook" where
  "publish_manager i res h =
     (case res of
        Inr (_, failed) \<Rightarrow> if failed > 0 then h\<lparr>sh_restoreWarning := Some failed\<rparr> else h
      | Inl _ \<Rightarrow> h)\<lparr>sh_manager := Some i\<rparr>"

definition restore_contacts :: "'n platform \<Rightarrow> init_deps \<Rightarrow> ('n world, unit) io" where
  "restore_contacts P d = detached
     (await (restoreContacts P (id_token d) (id_userId d) (id_backupKey d) (id_keyVersion d)) (\<lambda>_. ret ())) (\<lambda>_. ret ())"

definition create_manager :: "'n platform \<Rightarrow> init_deps \<Rightarrow> ('n world, unit) io" where
  "create_manager P d = createSessionManager P (Some (id_userId d, id_deviceId d)) (on_created P d)"

definition restore_keys :: "'n platform \<Rightarrow> init_deps \<Rightarrow> ('n world, nat \<times> nat) io" where
  "restore_keys P d = restoreSessionKeys P (id_token d) (id_userId d) (id_backupKey d) (id_keyVersion d)"

text \<open>The promise a run waits for settles. What the code has started runs to its end, cancelled or not;
  the flag is checked after every await.\<close>

definition advance_init :: "'n platform \<Rightarrow> nat \<Rightarrow> session_hook \<times> 'n world \<Rightarrow> session_hook \<times> 'n world" where
  "advance_init P i s =
     (case find (\<lambda>r. ir_id r = i) (sh_runs (fst s)) of
        None \<Rightarrow> s
      | Some r \<Rightarrow>
          (let h = drop_init i (fst s); w = snd s; d = ir_deps r; cancelled = (sh_current h \<noteq> Some i) in
           case ir_phase r of
             AwaitModules \<Rightarrow> (if cancelled then h else wait_init r AwaitManager h, w)
           | AwaitManager \<Rightarrow>
               (case run_with empty_mgr (create_manager P d) w of
                  (Inl _, _, w1) \<Rightarrow> (h, w1)
                | (Inr _, m, w1) \<Rightarrow>
                    (if cancelled then keep_mgr i d m h else wait_init r AwaitRestore (keep_mgr i d m h), w1))
           | AwaitRestore \<Rightarrow>
               (case map_of (sh_mgrs h) i of
                  None \<Rightarrow> (h, w)
                | Some (_, m) \<Rightarrow>
                    (case run_with m (restore_keys P d) w of
                       (res, m1, w1) \<Rightarrow>
                         (if cancelled then (keep_mgr i d m1 h, w1)
                          else (publish_manager i res (keep_mgr i d m1 h), snd (restore_contacts P d w1)))))))"

section \<open>The handlers\<close>

definition session_handleLogin :: "session \<Rightarrow> session_hook \<Rightarrow> session_hook" where
  "session_handleLogin s h = (setSession (Some s) h)\<lparr>sh_notice := None\<rparr>"

text \<open>What the four teardowns share up to the yield, and what follows it.\<close>

definition begin_teardown :: "teardown \<Rightarrow> session_hook \<Rightarrow> session_hook" where
  "begin_teardown t h = (let h1 = setSession None (destroy_current h) in h1\<lparr>sh_pending := sh_pending h1 @ [t]\<rparr>)"

definition handleLogout :: "'n platform \<Rightarrow> session_hook \<times> 'n world \<Rightarrow> session_hook \<times> 'n world" where
  "handleLogout P s =
     (begin_teardown (WipeSession None) (fst s),
      case sh_session (fst s) of
        None \<Rightarrow> snd s
      | Some se \<Rightarrow> if se_token se = [] then snd s else snd (detached (deleteDevice P (se_token se)) (\<lambda>_. ret ()) (snd s)))"

definition handleAccountDeleted :: "session_hook \<Rightarrow> session_hook" where
  "handleAccountDeleted = begin_teardown (WipeSession (Some AccountDeleted))"

definition handleUnauthorized :: "session_hook \<Rightarrow> session_hook" where
  "handleUnauthorized = begin_teardown DropToken"

definition handleKeyVersionStale :: "session_hook \<Rightarrow> session_hook" where
  "handleKeyVersionStale = begin_teardown (WipeSession (Some RotatedElsewhere))"

definition finish_teardown :: "'n platform \<Rightarrow> session_hook \<times> 'n world \<Rightarrow> session_hook \<times> 'n world" where
  "finish_teardown P s =
     (case sh_pending (fst s) of
        [] \<Rightarrow> s
      | t # ts \<Rightarrow>
          (let h = (fst s)\<lparr>sh_pending := ts\<rparr> in
           case t of
             DropToken \<Rightarrow> (h, snd (clearToken (snd s)))
           | WipeSession n \<Rightarrow>
               (case clearSession P (snd s) of
                  (Inl _, w1) \<Rightarrow> (h, w1)
                | (Inr _, w1) \<Rightarrow> ((case n of None \<Rightarrow> h | Some _ \<Rightarrow> h\<lparr>sh_notice := n\<rparr>), w1))))"

definition load_stored :: "'n platform \<Rightarrow> session_hook \<times> 'n world \<Rightarrow> session_hook \<times> 'n world" where
  "load_stored P s =
     (case loadSession P (snd s) of
        (Inr so, w1) \<Rightarrow> ((setSession so (fst s))\<lparr>sh_loading := False\<rparr>, w1)
      | (Inl _, w1) \<Rightarrow> ((fst s)\<lparr>sh_loading := False\<rparr>, w1))"

definition on_auth :: "'n platform \<Rightarrow> auth_event \<Rightarrow> session_hook \<times> 'n world \<Rightarrow> session_hook \<times> 'n world" where
  "on_auth P e s =
     (case e of
        DeviceRevoked \<Rightarrow> handleLogout P s
      | Unauthorized \<Rightarrow> (handleUnauthorized (fst s), snd s)
      | KeyVersionStale \<Rightarrow> (handleKeyVersionStale (fst s), snd s))"

datatype session_event =
    LoadEv
  | LoginEv session
  | LogoutEv
  | DeletedEv
  | AuthEv auth_event
  | TimeoutEv
  | InitEv nat

fun session_step :: "'n platform \<Rightarrow> session_event \<Rightarrow> session_hook \<times> 'n world \<Rightarrow> session_hook \<times> 'n world" where
  "session_step P LoadEv s = load_stored P s"
| "session_step P (LoginEv se) s = (session_handleLogin se (fst s), snd s)"
| "session_step P LogoutEv s = handleLogout P s"
| "session_step P DeletedEv s = (handleAccountDeleted (fst s), snd s)"
| "session_step P (AuthEv e) s = on_auth P e s"
| "session_step P TimeoutEv s = finish_teardown P s"
| "session_step P (InitEv i) s = advance_init P i s"

section \<open>The manager is the session's own\<close>

text \<open>A run or a manager of the current effect was made for the session that is shown; the others can
  no longer be published.\<close>

definition hook_ok :: "session_hook \<Rightarrow> bool" where
  "hook_ok h \<longleftrightarrow>
     (\<forall>i. sh_manager h = Some i \<longrightarrow> sh_current h = Some i \<and> map_of (sh_mgrs h) i \<noteq> None)
   \<and> (\<forall>i. sh_current h = Some i \<longrightarrow> i < sh_nextRun h \<and> (\<exists>s. sh_session h = Some s
        \<and> (\<forall>r \<in> set (sh_runs h). ir_id r = i \<longrightarrow> ir_deps r = deps_of s)
        \<and> (\<forall>d m. map_of (sh_mgrs h) i = Some (d, m) \<longrightarrow> d = deps_of s)))
   \<and> (\<forall>r \<in> set (sh_runs h). ir_id r < sh_nextRun h) \<and> (\<forall>i. map_of (sh_mgrs h) i \<noteq> None \<longrightarrow> i < sh_nextRun h)"

lemma hook_okI:
  assumes "\<And>i. sh_manager h = Some i \<Longrightarrow> sh_current h = Some i \<and> map_of (sh_mgrs h) i \<noteq> None"
    and "\<And>i. sh_current h = Some i \<Longrightarrow> i < sh_nextRun h"
    and "\<And>i. sh_current h = Some i \<Longrightarrow> \<exists>s. sh_session h = Some s \<and> (\<forall>r \<in> set (sh_runs h). ir_id r = i \<longrightarrow> ir_deps r = deps_of s)
        \<and> (\<forall>d m. map_of (sh_mgrs h) i = Some (d, m) \<longrightarrow> d = deps_of s)"
    and "\<And>r. r \<in> set (sh_runs h) \<Longrightarrow> ir_id r < sh_nextRun h" and "\<And>i. map_of (sh_mgrs h) i \<noteq> None \<Longrightarrow> i < sh_nextRun h"
  shows "hook_ok h"
  using assms unfolding hook_ok_def by blast

lemma hook_okD:
  assumes "hook_ok h"
  shows "sh_manager h = Some i \<Longrightarrow> sh_current h = Some i" and "sh_manager h = Some i \<Longrightarrow> map_of (sh_mgrs h) i \<noteq> None"
    and "sh_current h = Some i \<Longrightarrow> i < sh_nextRun h"
    and "sh_current h = Some i \<Longrightarrow> \<exists>s. sh_session h = Some s \<and> (\<forall>r \<in> set (sh_runs h). ir_id r = i \<longrightarrow> ir_deps r = deps_of s)
        \<and> (\<forall>d m. map_of (sh_mgrs h) i = Some (d, m) \<longrightarrow> d = deps_of s)"
    and "r \<in> set (sh_runs h) \<Longrightarrow> ir_id r < sh_nextRun h" and "map_of (sh_mgrs h) i \<noteq> None \<Longrightarrow> i < sh_nextRun h"
  using assms unfolding hook_ok_def by blast+

lemma first_render_ok: "hook_ok first_render"
  by (simp add: hook_ok_def first_render_def)

lemma hook_ok_fields [simp]:
  "hook_ok (h\<lparr>sh_notice := n\<rparr>) = hook_ok h" "hook_ok (h\<lparr>sh_loading := l\<rparr>) = hook_ok h"
  "hook_ok (h\<lparr>sh_restoreWarning := rw\<rparr>) = hook_ok h" "hook_ok (h\<lparr>sh_pending := p\<rparr>) = hook_ok h"
  by (simp_all add: hook_ok_def)

lemma map_of_destroyed:
  "map_of (map (\<lambda>(j, d, m). (j, d, if j = i then destroyed m else m)) ms) k
     = map_option (\<lambda>(d, m). (d, if k = i then destroyed m else m)) (map_of ms k)"
  by (induction ms) auto

lemma destroy_fields:
  "sh_session (destroy_current h) = sh_session h" "sh_current (destroy_current h) = sh_current h"
  "sh_runs (destroy_current h) = sh_runs h" "sh_nextRun (destroy_current h) = sh_nextRun h" "sh_manager (destroy_current h) = None"
  "sh_pending (destroy_current h) = sh_pending h" "sh_notice (destroy_current h) = sh_notice h"
  "map_of (sh_mgrs (destroy_current h)) k = None \<longleftrightarrow> map_of (sh_mgrs h) k = None"
  "(\<exists>m. map_of (sh_mgrs (destroy_current h)) k = Some (d, m)) \<longleftrightarrow> (\<exists>m. map_of (sh_mgrs h) k = Some (d, m))"
  by (auto simp: destroy_current_def map_of_destroyed split: option.split)

lemma destroy_ok:
  assumes "hook_ok h"
  shows "hook_ok (destroy_current h)"
proof (rule hook_okI, goal_cases)
  case (3 i)
  then have "sh_current h = Some i" by (simp add: destroy_fields)
  then show ?case using hook_okD(4) [OF assms] destroy_fields(9) [of h i] unfolding destroy_fields(1,3) by metis
qed (use hook_okD [OF assms] in \<open>auto simp: destroy_fields\<close>)

lemma cleanup_fields:
  "sh_session (cleanup h) = sh_session h" "sh_current (cleanup h) = None" "sh_runs (cleanup h) = sh_runs h"
  "sh_nextRun (cleanup h) = sh_nextRun h" "sh_pending (cleanup h) = sh_pending h" "sh_notice (cleanup h) = sh_notice h"
  "map_of (sh_mgrs (cleanup h)) k = None \<longleftrightarrow> map_of (sh_mgrs h) k = None"
  by (auto simp: cleanup_def destroy_fields split: option.split)

lemma cleanup_manager: "hook_ok h \<Longrightarrow> sh_manager (cleanup (h\<lparr>sh_session := so\<rparr>)) = None"
  using hook_okD(1) [of h] by (cases "sh_manager h") (auto simp: cleanup_def destroy_fields split: option.split)

lemma cleanup_ok: "hook_ok h \<Longrightarrow> hook_ok (cleanup (h\<lparr>sh_session := so\<rparr>))"
  by (rule hook_okI) (use hook_okD [of h] cleanup_manager [of h so] in \<open>auto simp: cleanup_fields\<close>)

lemma start_ok:
  assumes "hook_ok h" and "sh_session h = Some s" and "sh_current h = None" and "sh_manager h = None"
  shows "hook_ok (start_init (deps_of s) h)"
proof (cases "deps_set (deps_of s)")
  case True
  have n: "map_of (sh_mgrs h) (sh_nextRun h) = None" using hook_okD(6) [OF assms(1), of "sh_nextRun h"] by blast
  show ?thesis
  proof (rule hook_okI, goal_cases)
    case (3 i)
    then have "i = sh_nextRun h" using True by (simp add: start_init_def)
    moreover have "\<forall>r \<in> set (sh_runs h). ir_id r \<noteq> sh_nextRun h" using hook_okD(5) [OF assms(1)] by fastforce
    ultimately show ?case using assms(2) True n by (auto simp: start_init_def)
  next
    case (4 r)
    then show ?case using True hook_okD(5) [OF assms(1), of r] by (auto simp: start_init_def)
  next
    case (5 i)
    then show ?case using True hook_okD(6) [OF assms(1), of i] by (auto simp: start_init_def)
  qed (use True assms(4) in \<open>auto simp: start_init_def\<close>)
qed (use assms in \<open>simp add: start_init_def\<close>)

lemma setSession_ok:
  assumes "hook_ok h"
  shows "hook_ok (setSession so h)"
proof (cases "map_option deps_of so = map_option deps_of (sh_session h)")
  case True
  have "hook_ok (h\<lparr>sh_session := so\<rparr>)"
  proof (rule hook_okI, goal_cases)
    case (3 i)
    then have "sh_current h = Some i" by simp
    from hook_okD(4) [OF assms this] obtain s where s: "sh_session h = Some s"
        "\<forall>r \<in> set (sh_runs h). ir_id r = i \<longrightarrow> ir_deps r = deps_of s" "\<forall>d m. map_of (sh_mgrs h) i = Some (d, m) \<longrightarrow> d = deps_of s"
      by blast
    then obtain s' where "so = Some s'" "deps_of s' = deps_of s" using True by (cases so) auto
    with s show ?case by auto
  qed (use hook_okD [OF assms] in \<open>auto\<close>)
  with True show ?thesis by (simp add: setSession_def)
next
  case False
  then show ?thesis
    using cleanup_ok [OF assms, of so] cleanup_manager [OF assms, of so]
    by (cases so) (auto simp: setSession_def Let_def cleanup_fields intro: start_ok)
qed

lemma drop_init_ok: "hook_ok h \<Longrightarrow> hook_ok (drop_init i h)"
  by (rule hook_okI) (use hook_okD [of h] in \<open>fastforce simp: drop_init_def\<close>)+

lemma wait_init_ok:
  assumes "hook_ok h" and "ir_id r < sh_nextRun h"
    and "\<And>s. sh_current h = Some (ir_id r) \<Longrightarrow> sh_session h = Some s \<Longrightarrow> ir_deps r = deps_of s"
  shows "hook_ok (wait_init r ph h)"
proof (rule hook_okI, goal_cases)
  case (3 i)
  then have c: "sh_current h = Some i" by (simp add: wait_init_def)
  from hook_okD(4) [OF assms(1) this] c assms(3) show ?case by (auto simp: wait_init_def)
qed (use hook_okD [OF assms(1)] assms(2) in \<open>auto simp: wait_init_def\<close>)

lemma keep_mgr_ok:
  assumes "hook_ok h" and "i < sh_nextRun h" and "\<And>s. sh_current h = Some i \<Longrightarrow> sh_session h = Some s \<Longrightarrow> d = deps_of s"
  shows "hook_ok (keep_mgr i d m h)"
proof (rule hook_okI, goal_cases)
  case (3 j)
  then have c: "sh_current h = Some j" by (simp add: keep_mgr_def)
  from hook_okD(4) [OF assms(1) this] c assms(3) show ?case by (auto simp: keep_mgr_def update_conv')
qed (use hook_okD [OF assms(1)] assms(2) in \<open>auto simp: keep_mgr_def update_conv' split: if_splits\<close>)

lemma publish_ok:
  assumes "hook_ok h" and "sh_current h = Some i" and "map_of (sh_mgrs h) i \<noteq> None"
  shows "hook_ok (publish_manager i res h)"
proof -
  have "hook_ok (h\<lparr>sh_manager := Some i\<rparr>)"
    by (rule hook_okI) (use hook_okD [OF assms(1)] assms(2,3) in \<open>auto\<close>)
  then have "hook_ok (h\<lparr>sh_restoreWarning := rw, sh_manager := Some i\<rparr>)" for rw
    by (simp add: hook_ok_def)
  with \<open>hook_ok (h\<lparr>sh_manager := Some i\<rparr>)\<close> show ?thesis
    by (auto simp: publish_manager_def split: sum.split)
qed

lemma keep_mgr_fields:
  "sh_current (keep_mgr i d m h) = sh_current h" "sh_session (keep_mgr i d m h) = sh_session h"
  "sh_nextRun (keep_mgr i d m h) = sh_nextRun h" "map_of (sh_mgrs (keep_mgr i d m h)) i = Some (d, m)"
  by (simp_all add: keep_mgr_def update_conv')

lemma drop_init_fields:
  "sh_current (drop_init i h) = sh_current h" "sh_session (drop_init i h) = sh_session h" "sh_nextRun (drop_init i h) = sh_nextRun h"
  by (simp_all add: drop_init_def)

lemma advance_init_ok:
  assumes "hook_ok h"
  shows "hook_ok (fst (advance_init P i (h, w)))"
proof (cases "find (\<lambda>r. ir_id r = i) (sh_runs h)")
  case (Some r)
  then have r: "r \<in> set (sh_runs h)" "ir_id r = i" by (auto simp: find_Some_iff)
  let ?h = "drop_init i h" and ?d = "ir_deps r"
  have d: "hook_ok ?h" using assms by (rule drop_init_ok)
  have n: "i < sh_nextRun ?h" using hook_okD(5) [OF assms r(1)] r(2) by (simp add: drop_init_fields)
  have own: "?d = deps_of s" if "sh_current ?h = Some i" "sh_session ?h = Some s" for s
    using hook_okD(4) [OF assms, of i] r that by (auto simp: drop_init_fields)
  have k: "hook_ok (keep_mgr i ?d m ?h)" for m using d n own by (rule keep_mgr_ok)
  have w1: "hook_ok (wait_init r ph ?h)" for ph using d n own r(2) by (intro wait_init_ok) auto
  have w2: "hook_ok (wait_init r ph (keep_mgr i ?d m ?h))" for ph m
    using k n own r(2) by (intro wait_init_ok) (auto simp: keep_mgr_fields)
  have pu: "hook_ok (publish_manager i res (keep_mgr i ?d m ?h))" if "sh_current ?h = Some i" for res m
    using k that by (intro publish_ok) (auto simp: keep_mgr_fields)
  show ?thesis
    using Some d k w1 w2 pu
    by (auto simp: advance_init_def Let_def split: init_phase.split option.split sum.split prod.split)
qed (use assms in \<open>simp add: advance_init_def\<close>)

lemma teardown_ok: "hook_ok h \<Longrightarrow> hook_ok (begin_teardown t h)"
  by (simp add: begin_teardown_def Let_def setSession_ok destroy_ok)

lemma session_step_ok:
  assumes "hook_ok (fst s)"
  shows "hook_ok (fst (session_step P ev s))"
proof (cases ev)
  case LoadEv
  then show ?thesis using assms by (auto simp: load_stored_def setSession_ok split: prod.split sum.split)
next
  case TimeoutEv
  then show ?thesis using assms
    by (auto simp: finish_teardown_def Let_def split: list.split teardown.split prod.split sum.split option.split)
next
  case (AuthEv e)
  then show ?thesis using assms
    by (cases e) (auto simp: on_auth_def handleLogout_def handleUnauthorized_def handleKeyVersionStale_def teardown_ok)
next
  case (InitEv i)
  then show ?thesis using advance_init_ok [OF assms, of P i "snd s"] by simp
qed (use assms in \<open>auto simp: session_handleLogin_def setSession_ok handleLogout_def handleAccountDeleted_def teardown_ok\<close>)

lemma session_steps_ok: "hook_ok (fst s) \<Longrightarrow> hook_ok (fst (fold (session_step P) evs s))"
  by (induction evs arbitrary: s) (simp_all add: session_step_ok)

lemma session_reached_ok: "fold (session_step P) evs (first_render, w) = (h, w') \<Longrightarrow> hook_ok h"
  using session_steps_ok [of "(first_render, w)" P evs] by (simp add: first_render_ok)


section \<open>Teardown\<close>

lemma teardown_fields:
  assumes "hook_ok h"
  shows "sh_session (begin_teardown t h) = None" "sh_current (begin_teardown t h) = None" "sh_manager (begin_teardown t h) = None"
    "sh_pending (begin_teardown t h) = sh_pending h @ [t]" "sh_notice (begin_teardown t h) = sh_notice h"
proof -
  let ?h = "destroy_current h"
  have d: "hook_ok ?h" using assms by (rule destroy_ok)
  have s: "hook_ok (setSession None ?h)" using d by (rule setSession_ok)
  show 1: "sh_session (begin_teardown t h) = None"
    by (simp add: begin_teardown_def Let_def setSession_def cleanup_fields)
  show 2: "sh_pending (begin_teardown t h) = sh_pending h @ [t]" "sh_notice (begin_teardown t h) = sh_notice h"
    by (simp_all add: begin_teardown_def Let_def setSession_def cleanup_fields destroy_fields)
  have b: "hook_ok (begin_teardown t h)" using assms by (rule teardown_ok)
  show 3: "sh_current (begin_teardown t h) = None" using hook_okD(4) [OF b] 1 by (cases "sh_current (begin_teardown t h)") auto
  show "sh_manager (begin_teardown t h) = None" using hook_okD(1) [OF b] 3 by (cases "sh_manager (begin_teardown t h)") auto
qed

definition session_keys :: "string list" where
  "session_keys = map ls_key [''token'', ''userId'', ''deviceId'', ''handle'', ''sharingPublicKeyBytes'', ''keyVersion'']"

lemma clearToken_app: "\<exists>w'. clearToken w = (Inr (), w') \<and> w_db w' = w_db w \<and> (\<forall>k \<in> set session_keys. map_of (w_ls w') k = None)"
proof -
  have "clearToken w = (Inr (), w\<lparr>w_ls := fold AList.delete session_keys (w_ls w)\<rparr>)"
    by (simp add: clearToken_def io_simps session_keys_def)
  then show ?thesis by (simp add: map_of_delete_all)
qed

lemma clearSession_app:
  assumes "\<And>n. fst (pl_idb P n)"
  shows "\<exists>w'. clearSession P w = (Inr (), w') \<and> w_db w' = empty_idb \<and> (\<forall>k \<in> set session_keys. map_of (w_ls w') k = None)"
  using clearToken_app [of w] assms by (auto simp: clearSession_def io_simps deleteDatabase_def)

lemma logged_out_reload:
  assumes "\<forall>k \<in> set session_keys. map_of (w_ls w) k = None"
  shows "loadSession P w = (Inr None, w)"
  using assms by (simp add: loadSession_def io_simps session_keys_def truthy_def)

text \<open>C19: an auth event ends the session for good. The session, its manager and every initialisation in
  flight are gone at once; after the yield no session is stored and a reload finds none; a revoked device
  and a superseded key also lose the database, an expired token keeps it; and only the superseded key
  leaves its notice.\<close>

theorem auth_event_teardown:
  assumes "hook_ok h" and "sh_pending h = []" and "\<And>n. fst (pl_idb P n)"
    and "session_step P (AuthEv e) (h, w) = (h1, w1)" and "session_step P TimeoutEv (h1, w1) = (h2, w2)"
  shows "sh_session h1 = None \<and> sh_manager h1 = None \<and> sh_current h1 = None
    \<and> sh_session h2 = None \<and> sh_manager h2 = None \<and> sh_current h2 = None
    \<and> (\<forall>k \<in> set session_keys. map_of (w_ls w2) k = None) \<and> loadSession P w2 = (Inr None, w2)
    \<and> w_db w2 = (if e = Unauthorized then w_db w else empty_idb)
    \<and> sh_notice h2 = (if e = KeyVersionStale then Some RotatedElsewhere else sh_notice h)"
proof -
  obtain t where h1: "h1 = begin_teardown t h"
    and t: "t = (if e = Unauthorized then DropToken else WipeSession (if e = KeyVersionStale then Some RotatedElsewhere else None))"
    and db: "e = Unauthorized \<longrightarrow> w1 = w"
    using assms(4)
    by (cases e) (auto simp: on_auth_def handleLogout_def handleUnauthorized_def handleKeyVersionStale_def)
  note f = teardown_fields [OF assms(1), of t]
  have p: "sh_pending h1 = [t]" using f(4) assms(2) h1 by simp
  show ?thesis
  proof (cases "e = Unauthorized")
    case True
    obtain w3 where c: "clearToken w1 = (Inr (), w3)" "w_db w3 = w_db w1" "\<forall>k \<in> set session_keys. map_of (w_ls w3) k = None"
      using clearToken_app [of w1] by blast
    then have "w2 = w3" "h2 = h1\<lparr>sh_pending := []\<rparr>"
      using assms(5) p t True by (simp_all add: finish_teardown_def)
    then show ?thesis using True f h1 c db logged_out_reload [OF c(3)] by simp
  next
    case False
    obtain w3 where c: "clearSession P w1 = (Inr (), w3)" "w_db w3 = empty_idb" "\<forall>k \<in> set session_keys. map_of (w_ls w3) k = None"
      using clearSession_app [OF assms(3), of w1] by blast
    then show ?thesis
      using assms(5) p t False f h1 logged_out_reload [OF c(3)]
      by (auto simp: finish_teardown_def split: if_splits)
  qed
qed

section \<open>A concrete run\<close>

abbreviation demo_login :: "session_event list" where
  "demo_login \<equiv> [LoginEv demo_session, InitEv 0, InitEv 0, InitEv 0]"

lemma demo_created: "run_with empty_mgr (create_manager quiet_platform d) quiet_world = (Inr (), empty_mgr, quiet_world)"
  by (simp add: run_with_def create_manager_def createSessionManager_def loadOutboundSession_def io_simps quiet_world_def
      quiet_platform_def empty_idb_def)

lemma demo_session_ready:
  "\<exists>h w'. fold (session_step quiet_platform) demo_login (first_render, quiet_world) = (h, w') \<and> sh_manager h = Some 0 \<and> sh_pending h = []"
proof -
  obtain res m w' where r: "run_with empty_mgr (restore_keys quiet_platform (deps_of demo_session)) quiet_world = (res, m, w')"
    by (metis prod_cases3)
  have d: "deps_set (deps_of demo_session)" by (simp add: deps_set_def deps_of_def demo_session_def)
  show ?thesis
    by (simp add: session_handleLogin_def setSession_def Let_def first_render_def cleanup_def start_init_def d advance_init_def
        drop_init_def wait_init_def demo_created keep_mgr_def r publish_manager_def split: prod.split sum.split)
qed


theorem auth_event_teardown_witness:
  "\<exists>h w h1 w1 h2 w2. sh_manager h = Some 0 \<and> session_step quiet_platform (AuthEv KeyVersionStale) (h, w) = (h1, w1)
     \<and> session_step quiet_platform TimeoutEv (h1, w1) = (h2, w2)
     \<and> sh_manager h2 = None \<and> sh_notice h2 = Some RotatedElsewhere \<and> loadSession (quiet_platform :: unit platform) w2 = (Inr None, w2)"
proof -
  obtain h w where r: "fold (session_step quiet_platform) demo_login (first_render, quiet_world) = (h, w)" "sh_manager h = Some 0" "sh_pending h = []"
    using demo_session_ready by blast
  obtain h1 w1 where a: "session_step quiet_platform (AuthEv KeyVersionStale) (h, w) = (h1, w1)" by fastforce
  obtain h2 w2 where b: "session_step quiet_platform TimeoutEv (h1, w1) = (h2, w2)" by fastforce
  from auth_event_teardown [OF session_reached_ok [OF r(1)] r(3) quiet_commits a b]
  have "sh_manager h2 = None \<and> sh_notice h2 = Some RotatedElsewhere \<and> loadSession quiet_platform w2 = (Inr None, w2)" by simp
  with r(2) a b show ?thesis by blast
qed

end
