(* ===== verification/Rotation.thy ===== *)
theory Rotation
  imports Wire
begin

text \<open>
  web/src/hooks/useRotateKeys.ts: the change of password. \<open>rotate_keys\<close> is the body of the hook's
  \<open>submit\<close>, \<open>rotate_submit\<close> the whole of it with its error handling, and \<open>after_rotation\<close> the form
  it leaves. The displayed progress step between two effects is not kept, only the last one.
\<close>

section \<open>Profile and request id\<close>

record rotate_profile =
  rp_authPublicKey :: string
  rp_salt :: "string option"
  rp_kdf :: "kdf_params option"
  rp_keyVersion :: int

definition profile_of :: "json \<Rightarrow> rotate_profile" where
  "profile_of raw = \<lparr>rp_authPublicKey = opt_or (str_field ''auth_public_key'' raw) [], rp_salt = str_field ''salt'' raw,
     rp_kdf = Option.bind (field ''kdf'' raw) kdf_of, rp_keyVersion = opt_or (int_field ''key_version'' raw) 1\<rparr>"

definition readOwnProfile :: "'n platform \<Rightarrow> string \<Rightarrow> string \<Rightarrow> ('n world, rotate_profile) io" where
  "readOwnProfile P token userId =
     await (storeGet P token (path_profile userId)) (\<lambda>blob.
     await (or_throw SyntaxErr (json_parse blob)) (\<lambda>raw.
     if raw = JNull then throw (TypeErr ''null'') else ret (profile_of raw)))"

definition lower_hex :: "nat \<Rightarrow> char" where
  "lower_hex n = (if n < 10 then char_of (48 + n) else char_of (87 + n))"

definition hex_byte :: "nat \<Rightarrow> string" where
  "hex_byte n = [lower_hex (n div 16), lower_hex (n mod 16)]"

text \<open>The version and variant bits of a random UUID: \<open>(b[6] & 0x0f) | 0x40\<close> and \<open>(b[8] & 0x3f) | 0x80\<close>.\<close>

definition uuid_bytes :: "nat list \<Rightarrow> nat list" where
  "uuid_bytes b = b[6 := b ! 6 mod 16 + 64, 8 := b ! 8 mod 64 + 128]"

definition format_uuid :: "nat list \<Rightarrow> string" where
  "format_uuid b = (let h = concat (map hex_byte b) in
     take 8 h @ ''-'' @ take 4 (drop 8 h) @ ''-'' @ take 4 (drop 12 h) @ ''-'' @ take 4 (drop 16 h) @ ''-'' @ drop 20 h)"

definition randomUUID :: "'n platform \<Rightarrow> ('n world, string) io" where
  "randomUUID P = (case pl_uuid P of
      Some f \<Rightarrow> platform_io f
    | None \<Rightarrow> await (platform_io (pl_random P 16)) (\<lambda>b. ret (format_uuid (uuid_bytes (map of_char b)))))"

section \<open>The rotation\<close>

definition rotation_request :: "string \<Rightarrow> int \<Rightarrow> derived_keys \<Rightarrow> bytes \<Rightarrow> rotate_request" where
  "rotation_request uuid newKV newKeys newSalt =
     \<lparr>rk_request_id = uuid, rk_key_version = newKV,
      rk_auth_public_key = base64UrlEncode (dk_authPublicBytes newKeys),
      rk_sharing_public_key = base64UrlEncode (dk_sharingPublicBytes newKeys),
      rk_salt = base64UrlEncode newSalt, rk_kdf = DEFAULT_KDF\<rparr>"

definition next_session :: "session \<Rightarrow> string \<Rightarrow> int \<Rightarrow> derived_keys \<Rightarrow> session" where
  "next_session s token keyVersion persistedKeys =
     s\<lparr>se_token := token, se_keyVersion := keyVersion, se_sharingPrivateKey := dk_sharingPrivate persistedKeys,
       se_sharingPublicKeyBytes := dk_sharingPublicBytes persistedKeys, se_backupKey := dk_backupKey persistedKeys\<rparr>"

definition write_link :: "'n platform \<Rightarrow> session \<Rightarrow> int \<Rightarrow> derived_keys \<Rightarrow> derived_keys \<Rightarrow> ('n world, unit) io" where
  "write_link P s currentKV oldKeys newKeys =
     await (buildChainLink P currentKV (currentKV + 1) (dk_backupKey oldKeys) (dk_backupKey newKeys)) (\<lambda>link.
     appendChainLink P (se_token s) (se_userId s) link)"

definition commit_rotation ::
  "'n platform \<Rightarrow> session \<Rightarrow> int \<Rightarrow> derived_keys \<Rightarrow> bytes \<Rightarrow> bytes \<Rightarrow> derived_keys \<Rightarrow> ('n world, session) io" where
  "commit_rotation P s newKV oldKeys newSecret newSalt newKeys =
     await (randomUUID P) (\<lambda>uuid.
     let reqBody = rotation_request uuid newKV newKeys newSalt in
     await (signContinuity P (dk_authPrivate oldKeys) reqBody) (\<lambda>sig.
     await (rotateKeys P (se_token s) reqBody (base64UrlEncode sig)) (\<lambda>(token, key_version).
     await (deriveKeys P newSecret False) (\<lambda>persistedKeys.
     let next' = next_session s token key_version persistedKeys in
     await (saveSession P next') (\<lambda>_. ret next')))))"

text \<open>Steps 1 and 2: the old keys from the current password, \<open>None\<close> when they are not those of the
  published profile; the new keys under a fresh salt.\<close>

definition verify_current :: "'n platform \<Rightarrow> session \<Rightarrow> string \<Rightarrow> ('n world, (int \<times> derived_keys) option) io" where
  "verify_current P s currentPassword =
     await (readOwnProfile P (se_token s) (se_userId s)) (\<lambda>profile.
     await (deriveSecretFromPassword P currentPassword (rp_salt profile) (rp_kdf profile)) (\<lambda>oldSecret.
     await (deriveKeys P oldSecret True) (\<lambda>oldKeys.
     ret (if base64UrlEncode (dk_authPublicBytes oldKeys) \<noteq> rp_authPublicKey profile then None
          else Some (rp_keyVersion profile, oldKeys)))))"

definition derive_new :: "'n platform \<Rightarrow> string \<Rightarrow> ('n world, bytes \<times> bytes \<times> derived_keys) io" where
  "derive_new P newPassword =
     await (generateSalt P) (\<lambda>newSalt.
     await (argonStretch P newPassword newSalt DEFAULT_KDF) (\<lambda>newSecret.
     await (deriveKeys P newSecret True) (\<lambda>newKeys.
     ret (newSalt, newSecret, newKeys))))"

text \<open>\<open>None\<close>: the current password is wrong.\<close>

definition rotate_keys :: "'n platform \<Rightarrow> session \<Rightarrow> string \<Rightarrow> string \<Rightarrow> ('n world, session option) io" where
  "rotate_keys P s currentPassword newPassword =
     await (verify_current P s currentPassword) (\<lambda>verified.
     case verified of
       None \<Rightarrow> ret None
     | Some (currentKV, oldKeys) \<Rightarrow>
         await (derive_new P newPassword) (\<lambda>(newSalt, newSecret, newKeys).
         await (write_link P s currentKV oldKeys newKeys) (\<lambda>_.
         await (commit_rotation P s (currentKV + 1) oldKeys newSecret newSalt newKeys) (\<lambda>next'.
         ret (Some next')))))"

datatype rotate_outcome = Rotated session | WrongPassword | Superseded | RotationFailed string

definition rotation_message :: "js_error \<Rightarrow> string" where
  "rotation_message e = ''Rotation failed: '' @ (case e of APIError _ code _ \<Rightarrow> code | _ \<Rightarrow> error_message e)"

definition rotate_submit :: "'n platform \<Rightarrow> session \<Rightarrow> string \<Rightarrow> string \<Rightarrow> ('n world, rotate_outcome) io" where
  "rotate_submit P s currentPassword newPassword =
     catch_err
       (await (rotate_keys P s currentPassword newPassword) (\<lambda>r.
        ret (case r of Some next' \<Rightarrow> Rotated next' | None \<Rightarrow> WrongPassword)))
       (\<lambda>e. case e of
           KeyVersionStaleError _ \<Rightarrow> await (clearSession P) (\<lambda>_. ret Superseded)
         | _ \<Rightarrow> ret (RotationFailed (rotation_message e)))"

datatype rotate_step = RotateEnter | DerivingOld | DerivingNew | WritingChain | Rotating | RotateDone

record rotate_form =
  rf_step :: rotate_step
  rf_current :: string
  rf_new :: string
  rf_confirm :: string
  rf_acknowledged :: bool
  rf_error :: "string option"

fun after_rotation :: "rotate_outcome \<Rightarrow> rotate_form \<Rightarrow> rotate_form" where
  "after_rotation (Rotated s) f =
     f\<lparr>rf_step := RotateDone, rf_current := [], rf_new := [], rf_confirm := [], rf_acknowledged := False, rf_error := None\<rparr>"
| "after_rotation WrongPassword f = f\<lparr>rf_step := RotateEnter, rf_error := Some ''Current password is incorrect.''\<rparr>"
| "after_rotation Superseded f = f\<lparr>rf_error := None\<rparr>"
| "after_rotation (RotationFailed m) f = f\<lparr>rf_step := RotateEnter, rf_error := Some m\<rparr>"

section \<open>What a rotation sends\<close>

lemma rotation_local [keeps_intros]:
  "keeps (on_local Q) (readOwnProfile P t u)" "keeps (on_local Q) (verify_current P s pw)"
  "keeps (on_local Q) (argonStretch P pw sa kd)" "keeps (on_local Q) (deriveSecretFromPassword P pw so ko)"
  by (auto intro!: keeps_intros simp: readOwnProfile_def verify_current_def argonStretch_def
      deriveSecretFromPassword_def split: option.splits)

lemma rotation_local' [keeps_intros]:
  "keeps (on_local Q) (derive_new P pw)" "keeps (on_local Q) (write_link P s v k1 k2)"
  unfolding derive_new_def write_link_def by (intro keeps_intros)+

lemma net_verify [net_intros]:
  assumes "\<And>rq. rq_method rq = GET \<Longrightarrow> unmoved P Q rq"
  shows "keeps (on_net Q) (readOwnProfile P t u)" "keeps (on_net Q) (verify_current P s pw)"
proof -
  have "rq_method (object_request GET x y) = GET" for x y by (simp add: object_request_def api_request_def)
  then show r: "keeps (on_net Q) (readOwnProfile P t u)" for t u
    unfolding readOwnProfile_def by (intro keeps_intros net_intros assms) simp
  show "keeps (on_net Q) (verify_current P s pw)"
    unfolding verify_current_def by (intro keeps_intros net_intros r)
qed

lemma net_derive_new [net_intros]: "silent P Q \<Longrightarrow> keeps (on_net Q) (derive_new P pw)"
  unfolding derive_new_def by (intro keeps_intros net_intros)

lemma net_randomUUID [net_intros]: "silent P Q \<Longrightarrow> keeps (on_net Q) (randomUUID P)"
  unfolding randomUUID_def
  by (auto intro!: keeps_intros net_intros split: option.splits)
    (auto simp: keeps_def on_net_def io_simps silent_def)

text \<open>A wrong current password is caught before anything happens. When the keys derived from it are not
  those of the published profile, no request but reads has been made, so nothing changed at the server
  (in any state the reads leave alone), and nothing stored on the device changed.\<close>

lemma wrong_password_changes_nothing:
  assumes "silent P Q" and "\<And>rq. rq_method rq = GET \<Longrightarrow> unmoved P Q rq"
    and "Q (w_net w)" and "rotate_submit P s currentPassword newPassword w = (Inr WrongPassword, w')"
  shows "Q (w_net w') \<and> w_db w' = w_db w \<and> w_ls w' = w_ls w \<and> w_mgr w' = w_mgr w"
proof -
  have "verify_current P s currentPassword w = (Inr None, w')"
    using assms(4)
    by (auto simp: rotate_submit_def rotate_keys_def io_simps split: prod.splits sum.splits option.splits js_error.splits)
  then show ?thesis
    using keeps_result [OF net_verify(2) [OF assms(2)], of s currentPassword w "Inr None" w'] assms(3)
      leaves_localD [of "verify_current P s currentPassword" w "Inr None" w']
    by (simp add: on_net_def leaves_local_def rotation_local)
qed

definition commit_request :: "http_request \<Rightarrow> bool" where
  "commit_request rq \<longleftrightarrow> rq_method rq = POST \<and> rq_path rq = ''/v1/rotate-keys''"

text \<open>C13: the chain link is stored before the rotation is committed. If a rotation can only be committed
  by a POST to /v1/rotate-keys, then whenever it is committed when \<open>submit\<close> ends, however it ended (a
  success, an error after the commit, a superseded session), a link from the old version to the next,
  wrapping the old backup key under the new one, was built and appended to the chain, its upload
  succeeded, and the rotation was not committed by then.\<close>

theorem commit_follows_link:
  assumes "silent P (\<lambda>n. \<not> committed n)" and "\<And>rq. \<not> commit_request rq \<Longrightarrow> unmoved P (\<lambda>n. \<not> committed n) rq"
    and "\<not> committed (w_net w)" and "rotate_submit P s currentPassword newPassword w = (r, w5)"
    and "committed (w_net w5)"
  shows "\<exists>kv oldKeys newSalt newSecret newKeys link w1 w2 w3 w4.
    verify_current P s currentPassword w = (Inr (Some (kv, oldKeys)), w1)
    \<and> derive_new P newPassword w1 = (Inr (newSalt, newSecret, newKeys), w2)
    \<and> buildChainLink P kv (kv + 1) (dk_backupKey oldKeys) (dk_backupKey newKeys) w2 = (Inr link, w3)
    \<and> appendChainLink P (se_token s) (se_userId s) link w3 = (Inr (), w4) \<and> \<not> committed (w_net w4)"
proof -
  let ?Q = "on_net (\<lambda>n. \<not> committed n) :: 'a world \<Rightarrow> bool"
  have get: "unmoved P (\<lambda>n. \<not> committed n) rq" if "rq_method rq \<noteq> POST" for rq
    using that by (intro assms(2)) (simp add: commit_request_def)
  have pre: "unmoved P (\<lambda>n. \<not> committed n) (presign_request t key n)" for t key n
    by (intro assms(2)) (simp add: commit_request_def presign_request_def api_request_def)
  have v: "keeps ?Q (verify_current P s currentPassword)"
    by (rule net_verify(2)) (simp add: get)
  have d: "keeps ?Q (derive_new P newPassword)" using assms(1) by (rule net_derive_new)
  have wl: "keeps ?Q (write_link P s kv k1 k2)" for kv k1 k2
    unfolding write_link_def by (intro keeps_intros net_secrets net_chain assms(1) get pre) auto
  have q: "?Q w" using assms(3) by (simp add: on_net_def)
  obtain r' w' where r': "rotate_keys P s currentPassword newPassword w = (r', w')" by fastforce
  have nq: "\<not> ?Q w'"
  proof
    assume "?Q w'"
    moreover have "keeps ?Q (case e of KeyVersionStaleError _ \<Rightarrow> await (clearSession P) (\<lambda>_. ret Superseded)
         | _ \<Rightarrow> ret (RotationFailed (rotation_message e)))" for e
      by (auto intro!: keeps_intros net_clear assms(1) split: js_error.splits)
    ultimately have "?Q (snd (rotate_submit P s currentPassword newPassword w))"
      using r' by (cases r') (auto simp: rotate_submit_def catch_err_app await_app ret_app dest: keepsD)
    then show False using assms(4,5) by (simp add: on_net_def)
  qed
  obtain kv oldKeys w1 where 1: "verify_current P s currentPassword w = (Inr (Some (kv, oldKeys)), w1)"
    using r' nq keepsD [OF v q] by (auto simp: rotate_keys_def await_app ret_app split: prod.splits sum.splits option.splits)
  have q1: "?Q w1" using keeps_result [OF v 1 q] .
  obtain newSalt newSecret newKeys w2 where 2: "derive_new P newPassword w1 = (Inr (newSalt, newSecret, newKeys), w2)"
    using r' nq keepsD [OF d q1] 1 by (auto simp: rotate_keys_def await_app ret_app split: prod.splits sum.splits)
  have q2: "?Q w2" using keeps_result [OF d 2 q1] .
  obtain w4 where "write_link P s kv oldKeys newKeys w2 = (Inr (), w4)"
    using r' nq keepsD [OF wl q2, of kv oldKeys newKeys] 1 2 by (auto simp: rotate_keys_def await_app ret_app split: prod.splits sum.splits)
  then obtain link w3 where 3: "write_link P s kv oldKeys newKeys w2 = (Inr (), w4)"
      "buildChainLink P kv (kv + 1) (dk_backupKey oldKeys) (dk_backupKey newKeys) w2 = (Inr link, w3)"
      "appendChainLink P (se_token s) (se_userId s) link w3 = (Inr (), w4)"
    by (auto simp: write_link_def await_Inr)
  have "\<not> committed (w_net w4)" using keeps_result [OF wl 3(1) q2] by (simp add: on_net_def)
  with 1 2 3(2,3) show ?thesis by blast
qed

section \<open>History after a rotation\<close>

lemma deriveKeys_backup:
  assumes "deriveKeys P secret x w = (Inr ks, w')"
  shows "ck_raw (dk_backupKey ks) = hkdfDerive P secret ''backup-v1''" "w' = w"
  using assms by (auto simp: deriveKeys_def Let_def io_simps split: if_splits)

lemma commit_backup_key:
  assumes "commit_rotation P s kv oldKeys newSecret newSalt newKeys w = (Inr next', w')"
  shows "ck_raw (se_backupKey next') = hkdfDerive P newSecret ''backup-v1'' \<and> se_userId next' = se_userId s"
  using assms deriveKeys_backup [of P newSecret False]
  by (auto simp: commit_rotation_def await_Inr next_session_def Let_def ret_app)

lemma rotated_run:
  assumes "rotate_submit P s currentPassword newPassword w = (Inr (Rotated next'), w')"
  obtains kv oldKeys w1 newSalt newSecret newKeys w2 w3 where
    "verify_current P s currentPassword w = (Inr (Some (kv, oldKeys)), w1)"
    "derive_new P newPassword w1 = (Inr (newSalt, newSecret, newKeys), w2)"
    "write_link P s kv oldKeys newKeys w2 = (Inr (), w3)"
    "commit_rotation P s (kv + 1) oldKeys newSecret newSalt newKeys w3 = (Inr next', w')"
proof -
  have "rotate_keys P s currentPassword newPassword w = (Inr (Some next'), w')"
    using assms by (auto simp: rotate_submit_def io_simps split: prod.splits sum.splits option.splits js_error.splits)
  then show thesis
    by (auto simp: rotate_keys_def await_Inr ret_app split: option.splits intro: that)
qed

text \<open>C6: a change of password keeps the history it can see. A successful rotation reads the stored chain
  once, between building its link and the upload, and uploads what it read with the new link. From the
  new session's backup key, every version that the chain it read reached stays reachable: whatever a
  device memoized, \<open>resolveBackupKey\<close> returns that version's own key. But \<open>fetchChain\<close> answers the
  empty chain when the read fails; then the new link alone replaces the stored chain, and a device
  that memoized nothing older cannot resolve any version before the one just left. \<open>K\<close> gives the key
  of each version; \<open>K kv\<close> is what the current password derives.\<close>

theorem rotation_keeps_history:
  assumes "aes_law P" and "\<And>v. pl_aes_key_ok P (K v)" and "\<And>m. fst (pl_idb P m)"
    and "rotate_submit P s currentPassword newPassword w = (Inr (Rotated next'), w')"
    and "verify_current P s currentPassword w = (Inr (Some (kv, oldKeys)), w1)"
    and "K kv = ck_raw (dk_backupKey oldKeys)" and "K (kv + 1) = ck_raw (se_backupKey next')"
  shows "\<exists>newSalt newSecret newKeys w2 link w3 links w4 w5. derive_new P newPassword w1 = (Inr (newSalt, newSecret, newKeys), w2)
    \<and> buildChainLink P kv (kv + 1) (dk_backupKey oldKeys) (dk_backupKey newKeys) w2 = (Inr link, w3)
    \<and> fetchChain P (se_token s) (se_userId s) w3 = (Inr links, w4)
    \<and> upload_object P (se_token s) (path_keyChain (se_userId s)) (stringify (chain_json (append_link link links))) w4 = (Inr (), w5)
    \<and> (\<forall>target v t. chain_sound P K links \<and> chain_complete P K target kv links
         \<and> target \<le> t \<and> t \<le> kv + 1 \<and> memo_sound (se_userId s) K (w_db v) \<longrightarrow>
         (\<exists>k v'. resolveBackupKey P (se_userId s) (se_backupKey next') (kv + 1) t (append_link link links) v = (Inr k, v')
            \<and> ck_raw k = K t))
    \<and> (\<forall>e. fst (storeGet P (se_token s) (path_keyChain (se_userId s)) w3) = Inl e \<longrightarrow> append_link link links = [link]
         \<and> (\<forall>v t. t < kv \<and> memo_sound (se_userId s) K (w_db v)
              \<and> (\<forall>x < kv. st_get (se_userId s, x) (db_backup_keys (w_db v)) = None) \<longrightarrow>
            fst (resolveBackupKey P (se_userId s) (se_backupKey next') (kv + 1) t (append_link link links) v)
              = Inl (version_message ''missing link to'' kv)))"
proof -
  obtain newSalt newSecret newKeys w2 wl where
    d: "derive_new P newPassword w1 = (Inr (newSalt, newSecret, newKeys), w2)" and
    l: "write_link P s kv oldKeys newKeys w2 = (Inr (), wl)" and
    c: "commit_rotation P s (kv + 1) oldKeys newSecret newSalt newKeys wl = (Inr next', w')"
    using rotated_run [OF assms(4)] assms(5) by (metis Inr_inject option.inject prod.inject)
  have "ck_raw (dk_backupKey newKeys) = hkdfDerive P newSecret ''backup-v1''"
    using d deriveKeys_backup(1) by (fastforce simp: derive_new_def await_Inr ret_app)
  then have new: "ck_raw (dk_backupKey newKeys) = K (kv + 1)" using commit_backup_key [OF c] assms(7) by simp
  obtain link w3 links w4 where b: "buildChainLink P kv (kv + 1) (dk_backupKey oldKeys) (dk_backupKey newKeys) w2 = (Inr link, w3)"
    and f: "fetchChain P (se_token s) (se_userId s) w3 = (Inr links, w4)"
    and up: "upload_object P (se_token s) (path_keyChain (se_userId s)) (stringify (chain_json (append_link link links))) w4 = (Inr (), wl)"
    using l by (auto simp: write_link_def appendChainLink_def await_Inr simp del: stringify.simps)
  have kept: "\<exists>k v'. resolveBackupKey P (se_userId s) (se_backupKey next') (kv + 1) t (append_link link links) v = (Inr k, v')
      \<and> ck_raw k = K t"
    if "chain_sound P K links" "chain_complete P K target kv links" "target \<le> t" "t \<le> kv + 1" "memo_sound (se_userId s) K (w_db v)"
    for target v t
  proof -
    have ch: "chain_sound P K (append_link link links)" "chain_complete P K target (kv + 1) (append_link link links)"
      using chain_extended [OF assms(1,2) that(1,2) b] assms(6) new by simp_all
    then have "chain_complete P K t (kv + 1) (append_link link links)" using that(3) by (auto simp: chain_complete_def)
    from resolve_on_chain [OF ch(1) this that(4) assms(3) that(5) assms(7) [symmetric]] show ?thesis by blast
  qed
  have "links = []" if "fst (storeGet P (se_token s) (path_keyChain (se_userId s)) w3) = Inl e" for e
    using that f by (cases "storeGet P (se_token s) (path_keyChain (se_userId s)) w3")
      (auto simp: fetchChain_def catch_err_app await_app ret_app)
  then have lone: "append_link link links = [link]"
    if "fst (storeGet P (se_token s) (path_keyChain (se_userId s)) w3) = Inl e" for e
    using that by (simp add: append_link_def)
  have lost: "fst (resolveBackupKey P (se_userId s) (se_backupKey next') (kv + 1) t [link] v) = Inl (version_message ''missing link to'' kv)"
    if "t < kv" "memo_sound (se_userId s) K (w_db v)" "\<And>x. x < kv \<Longrightarrow> st_get (se_userId s, x) (db_backup_keys (w_db v)) = None" for t v
    by (rule lone_link_strands [where K = K, OF assms(1,2,3) b]) (use that assms(6,7) new in \<open>auto simp: memo_sound_def\<close>)
  show ?thesis
    by (intro exI conjI, rule d, rule b, rule f, rule up) (use kept lone lost in auto)
qed

section \<open>A rotation that goes through\<close>

definition demo_profile :: json where
  "demo_profile = JObj [(''auth_public_key'', JStr (base64UrlEncode (wrapPkcs8 ED25519_PKCS8_PREFIX ''old''))),
     (''salt'', JStr (base64UrlEncode ''salt'')), (''kdf'', kdf_json DEFAULT_KDF), (''key_version'', JNum (NInt 1))]"

definition json_reply :: "json \<Rightarrow> http_response" where
  "json_reply j = \<lparr>rs_status = 200, rs_status_text = [], rs_json_type = True, rs_json = Some j, rs_bytes = []\<rparr>"

definition bytes_reply :: "nat \<Rightarrow> bytes \<Rightarrow> http_response" where
  "bytes_reply status b = \<lparr>rs_status = status, rs_status_text = [], rs_json_type = False, rs_json = None, rs_bytes = b\<rparr>"

definition rotation_server :: "http_request \<Rightarrow> http_response" where
  "rotation_server rq =
     (if rq_method rq = GET
      then (if rq_query rq = [(''key'', path_profile ''U1'')] then bytes_reply 200 (stringify demo_profile) else bytes_reply 404 [])
      else if rq_method rq = POST
      then (if rq_path rq = ''/v1/rotate-keys''
            then json_reply (JObj [(''token'', JStr ''t2''), (''key_version'', JNum (NInt 2))])
            else json_reply (JObj [(''presigned_url'', JStr ''https://s3'')]))
      else bytes_reply 200 [])"

text \<open>The platform's state counts the requests of one kind.\<close>

definition counting_platform :: "(http_request \<Rightarrow> bool) \<Rightarrow> nat platform" where
  "counting_platform hit = quiet_platform\<lparr>pl_fetch := (\<lambda>rq n. (Some (rotation_server rq), if hit rq then n + 1 else n))\<rparr>"

abbreviation rotation_platform :: "nat platform" where
  "rotation_platform \<equiv> counting_platform commit_request"

definition rotation_world :: "nat world" where
  "rotation_world = \<lparr>w_db = empty_idb, w_ls = [], w_mgr = empty_mgr, w_events = [], w_net = 0\<rparr>"

definition demo_old_keys :: derived_keys where
  "demo_old_keys = \<lparr>dk_authPrivate = \<lparr>ck_raw = wrapPkcs8 ED25519_PKCS8_PREFIX ''old'', ck_extractable = True\<rparr>,
     dk_authPublicBytes = wrapPkcs8 ED25519_PKCS8_PREFIX ''old'',
     dk_sharingPrivate = \<lparr>ck_raw = ''old'', ck_extractable = False\<rparr>, dk_sharingPublicBytes = ''old'',
     dk_backupKey = \<lparr>ck_raw = ''old'', ck_extractable = True\<rparr>\<rparr>"

lemma demo_profile_read:
  assumes "\<And>rq. hit rq \<Longrightarrow> rq_method rq \<noteq> GET"
  shows "readOwnProfile (counting_platform hit) t ''U1'' w = (Inr \<lparr>rp_authPublicKey = base64UrlEncode (wrapPkcs8 ED25519_PKCS8_PREFIX ''old''),
     rp_salt = Some (base64UrlEncode ''salt''), rp_kdf = Some DEFAULT_KDF, rp_keyVersion = 1\<rparr>, w)"
proof -
  have p: "json_parse (stringify demo_profile) = Some demo_profile"
    by (rule json_roundtrip) (simp add: demo_profile_def kdf_json_def DEFAULT_KDF_def)
  have "\<not> hit rq" if "rq_method rq = GET" for rq using assms that by blast
  then have g: "storeGet (counting_platform hit) t (path_profile ''U1'') w = (Inr (stringify demo_profile), w)"
    by (simp add: storeGet_def do_fetch_def io_simps counting_platform_def rotation_server_def object_request_def
        api_request_def bytes_reply_def res_ok_def commit_request_def del: stringify.simps)
  have f: "profile_of demo_profile = \<lparr>rp_authPublicKey = base64UrlEncode (wrapPkcs8 ED25519_PKCS8_PREFIX ''old''),
     rp_salt = Some (base64UrlEncode ''salt''), rp_kdf = Some DEFAULT_KDF, rp_keyVersion = 1\<rparr>"
    by (simp add: profile_of_def demo_profile_def str_field_def int_field_def num_field_def kdf_of_def kdf_json_def
        nat_field_def DEFAULT_KDF_def)
  show ?thesis
    using f by (simp add: readOwnProfile_def await_app g p or_throw_app ret_app demo_profile_def [THEN eq_reflection, symmetric])
      (simp add: demo_profile_def)
qed

lemma base64UrlEncode_inj: "base64UrlEncode a = base64UrlEncode b \<longleftrightarrow> a = b"
  by (metis base64UrlDecode_Encode option.inject)

lemma base64UrlEncode_empty: "base64UrlEncode ''salt'' \<noteq> []"
proof -
  have "base64UrlEncode [] = []" by (simp add: base64UrlEncode_eq)
  then show ?thesis using base64UrlEncode_inj [of "''salt''" "[]"] by (metis list.discI)
qed

lemma demo_derive:
  "deriveKeys (counting_platform hit) pw x w = (Inr \<lparr>dk_authPrivate = \<lparr>ck_raw = wrapPkcs8 ED25519_PKCS8_PREFIX pw, ck_extractable = True\<rparr>,
     dk_authPublicBytes = wrapPkcs8 ED25519_PKCS8_PREFIX pw,
     dk_sharingPrivate = \<lparr>ck_raw = pw, ck_extractable = False\<rparr>, dk_sharingPublicBytes = pw,
     dk_backupKey = \<lparr>ck_raw = pw, ck_extractable = x\<rparr>\<rparr>, w)"
  by (simp add: deriveKeys_def Let_def io_simps hkdfDerive_def counting_platform_def quiet_platform_def)

lemma demo_argon: "argonStretch (counting_platform hit) pw salt kdf w = (Inr pw, w)"
  by (simp add: argonStretch_def io_simps counting_platform_def quiet_platform_def)

lemma commit_not_get: "commit_request rq \<Longrightarrow> rq_method rq \<noteq> GET"
  by (simp add: commit_request_def)

lemma demo_verified:
  assumes "se_userId s = ''U1''"
  shows "verify_current rotation_platform s pw w =
    (Inr (if pw = ''old'' then Some (1, demo_old_keys) else None), w)"
  using assms
  by (simp add: verify_current_def await_app demo_profile_read [OF commit_not_get] deriveSecretFromPassword_def base64UrlEncode_empty
      base64UrlDecode_Encode or_throw_app demo_argon demo_derive ret_app base64UrlEncode_inj wrapPkcs8_def demo_old_keys_def)

lemma demo_chain: "fetchChain rotation_platform t ''U1'' v = (Inr [], v)"
proof -
  have q: "object_request GET t (path_keyChain ''U1'') = \<lparr>rq_method = GET, rq_path = ''/v1/store/object'',
      rq_query = [(''key'', path_keyChain ''U1'')], rq_token = (if t = [] then None else Some t), rq_body = NoBody\<rparr>"
    by (simp add: object_request_def api_request_def)
  have "path_keyChain ''U1'' \<noteq> path_profile ''U1''" by (simp add: path_keyChain_def path_profile_def)
  then show ?thesis
    by (simp add: fetchChain_def storeGet_def do_fetch_def io_simps q counting_platform_def rotation_server_def
        bytes_reply_def res_ok_def commit_request_def throwForErrorResponse_unknown)
qed

lemma demo_rotates:
  "\<exists>w'. rotate_submit rotation_platform demo_session ''old'' ''new'' rotation_world =
    (Inr (Rotated (demo_session\<lparr>se_token := ''t2'', se_keyVersion := 2,
       se_sharingPrivateKey := \<lparr>ck_raw = ''new'', ck_extractable = False\<rparr>, se_sharingPublicKeyBytes := ''new'',
       se_backupKey := \<lparr>ck_raw = ''new'', ck_extractable = False\<rparr>\<rparr>)), w') \<and> w_net w' = 1"
proof -
  have up: "upload_object rotation_platform t key b w = (Inr (), w)" for t key b and w :: "nat world"
    by (simp add: upload_object_def storePresign_def request_def do_fetch_def io_simps counting_platform_def
        rotation_server_def json_reply_def bytes_reply_def presign_request_def api_request_def finish_request_def res_ok_def
        read_body_def str_field_def putWithRetry_def numeral_2_eq_2 put_request_def commit_request_def)
  have rk: "rotateKeys rotation_platform t rq sig w = (Inr (''t2'', 2), w\<lparr>w_net := w_net w + 1\<rparr>)" for t rq sig and w :: "nat world"
    by (simp add: rotateKeys_def request_def do_fetch_def io_simps counting_platform_def rotation_server_def
        json_reply_def api_request_def finish_request_def res_ok_def read_body_def rotate_response_of_def
        str_field_def int_field_def num_field_def commit_request_def del: stringify.simps)
  have id: "\<exists>u. randomUUID rotation_platform w = (Inr u, w)" for w :: "nat world"
    by (simp add: randomUUID_def io_simps counting_platform_def quiet_platform_def)
  have sg: "\<exists>x. signContinuity rotation_platform k rq w = (Inr x, w)" for k rq and w :: "nat world"
    by (simp add: signContinuity_def canonicalizeForSign_def io_simps counting_platform_def quiet_platform_def)
  have sv: "\<exists>w'. saveSession rotation_platform s w = (Inr (), w') \<and> w_net w' = w_net w" for s and w :: "nat world"
    by (simp add: saveSession_def wipeIfAccountChanged_def deleteDatabase_def putKey_def io_simps counting_platform_def
        quiet_platform_def)
  have rn: "platform_io (pl_random rotation_platform k) w = (Inr (replicate k (CHR ''r'')), w)" for k and w :: "nat world"
    by (simp add: io_simps counting_platform_def quiet_platform_def)
  obtain u where u: "randomUUID rotation_platform rotation_world = (Inr u, rotation_world)" using id by blast
  let ?nk = "\<lparr>dk_authPrivate = \<lparr>ck_raw = wrapPkcs8 ED25519_PKCS8_PREFIX ''new'', ck_extractable = True\<rparr>,
     dk_authPublicBytes = wrapPkcs8 ED25519_PKCS8_PREFIX ''new'',
     dk_sharingPrivate = \<lparr>ck_raw = ''new'', ck_extractable = False\<rparr>, dk_sharingPublicBytes = ''new'',
     dk_backupKey = \<lparr>ck_raw = ''new'', ck_extractable = True\<rparr>\<rparr>"
  obtain x where x: "signContinuity rotation_platform (dk_authPrivate demo_old_keys)
      (rotation_request u 2 ?nk (replicate 16 (CHR ''r''))) rotation_world = (Inr x, rotation_world)"
    using sg by blast
  let ?next = "demo_session\<lparr>se_token := ''t2'', se_keyVersion := 2,
       se_sharingPrivateKey := \<lparr>ck_raw = ''new'', ck_extractable = False\<rparr>, se_sharingPublicKeyBytes := ''new'',
       se_backupKey := \<lparr>ck_raw = ''new'', ck_extractable = False\<rparr>\<rparr>"
  obtain w' where w': "saveSession rotation_platform ?next (rotation_world\<lparr>w_net := 1\<rparr>) = (Inr (), w')" "w_net w' = 1"
    using sv [of ?next "rotation_world\<lparr>w_net := 1\<rparr>"] by auto
  have cm: "commit_rotation rotation_platform demo_session 2 demo_old_keys ''new'' (replicate 16 (CHR ''r'')) ?nk rotation_world
      = (Inr ?next, w')"
  proof -
    have "next_session demo_session ''t2'' 2 \<lparr>dk_authPrivate = \<lparr>ck_raw = wrapPkcs8 ED25519_PKCS8_PREFIX ''new'', ck_extractable = True\<rparr>,
     dk_authPublicBytes = wrapPkcs8 ED25519_PKCS8_PREFIX ''new'',
     dk_sharingPrivate = \<lparr>ck_raw = ''new'', ck_extractable = False\<rparr>, dk_sharingPublicBytes = ''new'',
     dk_backupKey = \<lparr>ck_raw = ''new'', ck_extractable = False\<rparr>\<rparr> = ?next"
      by (simp add: next_session_def demo_session_def)
    moreover have "w_net rotation_world = 0" by (simp add: rotation_world_def)
    ultimately show ?thesis
      using w'(1) by (simp add: commit_rotation_def await_app u Let_def x rk demo_derive ret_app)
  qed
  have wl: "write_link rotation_platform demo_session 1 demo_old_keys ?nk rotation_world = (Inr (), rotation_world)"
    by (simp add: write_link_def buildChainLink_def await_app demo_old_keys_def rn ret_app appendChainLink_def
        demo_session_def demo_chain up del: stringify.simps)
  have dn: "derive_new rotation_platform ''new'' rotation_world = (Inr (replicate 16 (CHR ''r''), ''new'', ?nk), rotation_world)"
    by (simp add: derive_new_def generateSalt_def await_app rn demo_argon demo_derive ret_app)
  have "verify_current rotation_platform demo_session ''old'' rotation_world = (Inr (Some (1, demo_old_keys)), rotation_world)"
    using demo_verified [of demo_session "''old''"] by (simp add: demo_session_def)
  then have "rotate_submit rotation_platform demo_session ''old'' ''new'' rotation_world = (Inr (Rotated ?next), w')"
    by (simp add: rotate_submit_def rotate_keys_def catch_err_app await_app dn wl cm ret_app)
  with w'(2) show ?thesis by blast
qed

theorem commit_follows_link_witness:
  "\<exists>r w5 link w3 w4. rotate_submit rotation_platform demo_session ''old'' ''new'' rotation_world = (r, w5) \<and> 0 < w_net w5
    \<and> appendChainLink rotation_platform ''t'' ''U1'' link w3 = (Inr (), w4) \<and> w_net w4 = 0"
proof -
  obtain r w5 where r: "rotate_submit rotation_platform demo_session ''old'' ''new'' rotation_world = (r, w5)" "w_net w5 = 1"
    using demo_rotates by blast
  have s: "silent rotation_platform (\<lambda>n. \<not> 0 < n)"
    by (simp add: silent_def counting_platform_def quiet_platform_def)
  have u: "unmoved rotation_platform (\<lambda>n. \<not> 0 < n) rq" if "\<not> commit_request rq" for rq
    using that by (simp add: unmoved_def counting_platform_def)
  have n: "\<not> 0 < w_net rotation_world" "0 < w_net w5" using r(2) by (simp_all add: rotation_world_def)
  from commit_follows_link [OF s u n(1) r(1) n(2)] obtain link w3 w4 where
    "appendChainLink rotation_platform (se_token demo_session) (se_userId demo_session) link w3 = (Inr (), w4)" "\<not> 0 < w_net w4" by blast
  with r n(2) show ?thesis by (auto simp: demo_session_def)
qed

theorem rotation_keeps_history_witness:
  "\<exists>link w3 w4 w5 k v'. fetchChain rotation_platform ''t'' ''U1'' w3 = (Inr [], w4)
    \<and> upload_object rotation_platform ''t'' (path_keyChain ''U1'') (stringify (chain_json [link])) w4 = (Inr (), w5)
    \<and> resolveBackupKey rotation_platform ''U1'' \<lparr>ck_raw = ''new'', ck_extractable = False\<rparr> 2 1 [link] rotation_world = (Inr k, v')
    \<and> ck_raw k = ''old''"
proof -
  let ?K = "\<lambda>v :: int. if v \<le> 1 then ''old'' else ''new''"
  obtain w' where r: "rotate_submit rotation_platform demo_session ''old'' ''new'' rotation_world =
    (Inr (Rotated (demo_session\<lparr>se_token := ''t2'', se_keyVersion := 2,
       se_sharingPrivateKey := \<lparr>ck_raw = ''new'', ck_extractable = False\<rparr>, se_sharingPublicKeyBytes := ''new'',
       se_backupKey := \<lparr>ck_raw = ''new'', ck_extractable = False\<rparr>\<rparr>)), w')"
    using demo_rotates by blast
  have v: "verify_current rotation_platform demo_session ''old'' rotation_world = (Inr (Some (1, demo_old_keys)), rotation_world)"
    using demo_verified [of demo_session "''old''"] by (simp add: demo_session_def)
  have l: "aes_law rotation_platform" and k: "pl_aes_key_ok rotation_platform x" and i: "fst (pl_idb rotation_platform m)" for x m
    by (simp_all add: aes_law_def counting_platform_def quiet_platform_def)
  have c: "chain_sound rotation_platform ?K []" "chain_complete rotation_platform ?K 1 1 []"
    by (auto simp: chain_sound_def chain_complete_def hop_links_def)
  have b: "?K 1 = ck_raw (dk_backupKey demo_old_keys)" by (simp add: demo_old_keys_def)
  have m: "memo_sound ''U1'' ?K (w_db rotation_world)" by (simp add: memo_sound_def rotation_world_def empty_idb_def)
  have u: "se_token demo_session = ''t''" "se_userId demo_session = ''U1''" by (simp_all add: demo_session_def)
  let ?s = demo_session and ?P = rotation_platform
  let ?next = "?s\<lparr>se_token := ''t2'', se_keyVersion := 2,
       se_sharingPrivateKey := \<lparr>ck_raw = ''new'', ck_extractable = False\<rparr>, se_sharingPublicKeyBytes := ''new'',
       se_backupKey := \<lparr>ck_raw = ''new'', ck_extractable = False\<rparr>\<rparr>"
  have n: "?K (1 + 1) = ck_raw (se_backupKey ?next)" by simp
  obtain link w3 links w4 w5 where
    1: "fetchChain ?P ''t'' ''U1'' w3 = (Inr links, w4)"
      "upload_object ?P ''t'' (path_keyChain ''U1'') (stringify (chain_json (append_link link links))) w4 = (Inr (), w5)" and
    3: "\<forall>target v t. chain_sound ?P ?K links \<and> chain_complete ?P ?K target 1 links
         \<and> target \<le> t \<and> t \<le> 1 + 1 \<and> memo_sound ''U1'' ?K (w_db v) \<longrightarrow>
         (\<exists>k v'. resolveBackupKey ?P ''U1'' (se_backupKey ?next) (1 + 1) t (append_link link links) v = (Inr k, v')
            \<and> ck_raw k = ?K t)"
    using rotation_keeps_history [where K = ?K, OF l k i r v b n, unfolded u] by (elim exE conjE) (rule that)
  then have 2: "\<forall>target v t. chain_sound ?P ?K links \<and> chain_complete ?P ?K target 1 links
         \<and> target \<le> t \<and> t \<le> 2 \<and> memo_sound ''U1'' ?K (w_db v) \<longrightarrow>
         (\<exists>k v'. resolveBackupKey ?P ''U1'' \<lparr>ck_raw = ''new'', ck_extractable = False\<rparr> 2 t (append_link link links) v = (Inr k, v')
            \<and> ck_raw k = ?K t)" by simp
  have e: "links = []" using 1(1) demo_chain by simp
  from 2 [rule_format, of 1 1 rotation_world] c m obtain k v' where
    "resolveBackupKey rotation_platform ''U1'' \<lparr>ck_raw = ''new'', ck_extractable = False\<rparr> 2 1 [link] rotation_world = (Inr k, v')"
    "ck_raw k = ''old''" by (auto simp: e append_link_def)
  moreover from 1(2) have "upload_object ?P ''t'' (path_keyChain ''U1'') (stringify (chain_json [link])) w4 = (Inr (), w5)"
    by (simp only: e append_link_def filter.simps append_Nil)
  ultimately show ?thesis using 1(1) unfolding e by blast
qed

end
