(* ===== verification/Handles.thy ===== *)
theory Handles
  imports Api
begin

text \<open>
  web/src/lib/handle-suggest.ts, web/src/hooks/useHandleAvailability.ts and the device label of
  web/src/lib/utils.ts: the shape a handle must have, and the availability check that runs while the
  user types, with its debounce and its cancelled effects.
\<close>

section \<open>Shape\<close>

definition is_lower :: "char \<Rightarrow> bool" where
  "is_lower c \<longleftrightarrow> 97 \<le> (of_char c :: nat) \<and> (of_char c :: nat) \<le> 122"

definition handle_char :: "char \<Rightarrow> bool" where
  "handle_char c \<longleftrightarrow> is_lower c \<or> is_digit c \<or> c = CHR ''-''"

text \<open>\<open>/^[a-z][a-z0-9-]{1,30}[a-z0-9]$/\<close>\<close>

definition HANDLE_REGEX :: "string \<Rightarrow> bool" where
  "HANDLE_REGEX s \<longleftrightarrow> (case s of [] \<Rightarrow> False | c # r \<Rightarrow>
     is_lower c \<and> r \<noteq> [] \<and> 1 \<le> length (butlast r) \<and> length (butlast r) \<le> 30
     \<and> list_all handle_char (butlast r) \<and> (is_lower (last r) \<or> is_digit (last r)))"

fun str_includes :: "string \<Rightarrow> string \<Rightarrow> bool" where
  "str_includes sub [] \<longleftrightarrow> sub = []"
| "str_includes sub (c # s) \<longleftrightarrow> starts_with sub (c # s) \<or> str_includes sub s"

definition en_dash :: string where
  "en_dash = [CHR 0xE2, CHR 0x80, CHR 0x93]"

definition shape_message :: string where
  "shape_message = ''Handle must be 3'' @ en_dash @ ''32 lowercase letters, digits, or hyphens, starting with a letter.''"

definition validateHandleShape :: "string \<Rightarrow> string option" where
  "validateHandleShape handle =
     (if \<not> HANDLE_REGEX handle then Some shape_message
      else if str_includes ''--'' handle then Some ''Handle cannot contain consecutive hyphens.''
      else None)"

text \<open>\<open>toLowerCase\<close> on ASCII text; a handle has no other letters.\<close>

definition lower_char :: "char \<Rightarrow> char" where
  "lower_char c = (let n = of_char c :: nat in if 65 \<le> n \<and> n \<le> 90 then char_of (n + 32) else c)"

definition toLowerCase :: "string \<Rightarrow> string" where
  "toLowerCase s = map lower_char s"

lemma handle_char_plain:
  assumes "handle_char c"
  shows "uri_unreserved c \<and> lower_char c = c \<and> \<not> ascii_space c \<and> (of_char c :: nat) < 0x80"
proof -
  have "(48 \<le> (of_char c :: nat) \<and> (of_char c :: nat) \<le> 57) \<or> (97 \<le> (of_char c :: nat) \<and> (of_char c :: nat) \<le> 122) \<or> c = CHR ''-''"
    using assms by (auto simp: handle_char_def is_lower_def is_digit_def)
  then show ?thesis
    by (auto simp: uri_unreserved_def lower_char_def ascii_space_def Let_def)
qed

lemma regex_chars:
  assumes "HANDLE_REGEX s"
  shows "\<forall>c \<in> set s. handle_char c" "s \<noteq> []" "3 \<le> length s" "length s \<le> 32"
proof -
  obtain c r where s: "s = c # r" "is_lower c" "r \<noteq> []" "1 \<le> length (butlast r)" "length (butlast r) \<le> 30"
      "list_all handle_char (butlast r)" "is_lower (last r) \<or> is_digit (last r)"
    using assms by (auto simp: HANDLE_REGEX_def split: list.splits)
  have "set r = set (butlast r) \<union> {last r}"
    using append_butlast_last_id [OF s(3)] by (metis list.simps(15) empty_set set_append)
  then show "\<forall>c \<in> set s. handle_char c" using s by (auto simp: handle_char_def list_all_iff)
  show "s \<noteq> []" "3 \<le> length s" "length s \<le> 32" using s by auto
qed

lemma trim_plain:
  assumes "\<forall>c \<in> set s. \<not> ascii_space c \<and> (of_char c :: nat) < 0x80"
  shows "trim s = s"
proof -
  have "ws_len s = 0" using assms by (cases s) (auto simp: ws_len_def)
  then have "trim_start s = s" by (simp add: trim_start.simps [of s])
  moreover have "ws_len_end s = 0"
  proof (cases "rev s")
    case (Cons c r)
    then have "c \<in> set s" by (metis list.set_intros(1) set_rev)
    then show ?thesis using Cons assms by (auto simp: ws_len_end_def)
  qed (simp add: ws_len_end_def)
  then have "trim_end s = s" by (simp add: trim_end.simps [of s])
  ultimately show ?thesis by (simp add: trim_def)
qed

lemma encode_plain: "\<forall>c \<in> set s. uri_unreserved c \<Longrightarrow> encodeURIComponent s = s"
  by (induction s) (simp_all add: encodeURIComponent_def)

lemma canonical_handle:
  assumes "validateHandleShape h = None"
  shows "3 \<le> length h \<and> length h \<le> 32 \<and> trim h = h \<and> toLowerCase h = h \<and> encodeURIComponent h = h"
proof -
  have r: "HANDLE_REGEX h" using assms by (simp add: validateHandleShape_def split: if_splits)
  note p = regex_chars(1) [OF r]
  have "trim h = h" by (rule trim_plain) (use p handle_char_plain in blast)
  moreover have "toLowerCase h = h" unfolding toLowerCase_def by (rule map_idI) (use p handle_char_plain in blast)
  moreover have "encodeURIComponent h = h" by (rule encode_plain) (use p handle_char_plain in blast)
  ultimately show ?thesis using regex_chars(3,4) [OF r] by simp
qed

text \<open>C34: a handle the form accepts is one the rest of the client leaves alone. It has 3 to 32 characters,
  the normalisation of login and registration (\<open>trim().toLowerCase()\<close>) does not change it, and it
  stands unescaped in the path of a resolve request; so the handle that was checked, the one that is
  registered and the one that is looked up later are the same text.\<close>

theorem accepted_handle_is_canonical:
  assumes "validateHandleShape h = None"
  shows "3 \<le> length h \<and> length h \<le> 32 \<and> toLowerCase (trim h) = h \<and> encodeURIComponent h = h"
  using canonical_handle [OF assms] by simp

theorem accepted_handle_is_canonical_witness:
  "toLowerCase (trim ''alice-2'') = ''alice-2'' \<and> encodeURIComponent ''alice-2'' = ''alice-2''"
proof -
  have "validateHandleShape ''alice-2'' = None"
    by (simp add: validateHandleShape_def HANDLE_REGEX_def is_lower_def handle_char_def is_digit_def starts_with_def)
  from accepted_handle_is_canonical [OF this] show ?thesis by simp
qed

section \<open>Device label\<close>

definition first_hit :: "(string \<times> string) list \<Rightarrow> string \<Rightarrow> string \<Rightarrow> string" where
  "first_hit table ua d = (case find (\<lambda>(pat, _). str_includes pat ua) table of Some (_, name) \<Rightarrow> name | None \<Rightarrow> d)"

definition detectDeviceLabel :: "'n platform \<Rightarrow> string" where
  "detectDeviceLabel P =
     (let ua = pl_user_agent P;
          os = first_hit [(''iPhone'', ''iPhone''), (''iPad'', ''iPad''), (''Android'', ''Android''), (''Mac'', ''Mac''),
                 (''Windows'', ''Windows''), (''Linux'', ''Linux'')] ua ''Browser'';
          browser = first_hit [(''Firefox/'', ''Firefox''), (''Edg/'', ''Edge''), (''Chrome/'', ''Chrome''), (''Safari/'', ''Safari'')] ua []
      in if browser \<noteq> [] then os @ '' '' @ [CHR 0xC2, CHR 0xB7] @ '' '' @ browser else os)"

section \<open>Availability while typing\<close>

datatype availability =
    Idle | Invalid string | Checking | Available | Taken | InCooldown string string | CheckFailed

text \<open>What the settled request shows.\<close>

definition shown_result :: "'n platform \<Rightarrow> js_error + resolve_result \<Rightarrow> availability" where
  "shown_result P r = (case r of
      Inl _ \<Rightarrow> CheckFailed
    | Inr (Live _) \<Rightarrow> Taken
    | Inr (Released _ available_at) \<Rightarrow>
        InCooldown (if available_at = [] then ''soon'' else take 10 (pl_date_iso P (pl_date_parse P available_at))) available_at
    | Inr NotFound \<Rightarrow> Available)"

datatype check_phase = Armed | InFlight | Settled

text \<open>One run of the hook's effect: the trimmed input it closed over, how far its timer and request
  got, its \<open>cancelled\<close> flag, and what its request answered.\<close>

record effect =
  ef_trimmed :: string
  ef_phase :: check_phase
  ef_cancelled :: bool
  ef_answer :: "(js_error + resolve_result) option"

record avail_state =
  av_input :: string
  av_state :: availability
  av_effects :: "effect list"

definition av_init :: avail_state where
  "av_init = \<lparr>av_input = [], av_state = Idle, av_effects = []\<rparr>"

text \<open>A change of input: React runs the cleanup of the last effect (a timer that has not fired is
  cleared, a running request is marked) and then the effect for the new input.\<close>

definition cancel_effect :: "effect \<Rightarrow> effect" where
  "cancel_effect e = e\<lparr>ef_cancelled := True, ef_phase := (if ef_phase e = Armed then Settled else ef_phase e)\<rparr>"

definition type_handle :: "string \<Rightarrow> avail_state \<Rightarrow> avail_state" where
  "type_handle input st =
     (let trimmed = trim input; old = map cancel_effect (av_effects st) in
      if trimmed = [] then st\<lparr>av_input := input, av_state := Idle, av_effects := old\<rparr>
      else case validateHandleShape trimmed of
          Some message \<Rightarrow> st\<lparr>av_input := input, av_state := Invalid message, av_effects := old\<rparr>
        | None \<Rightarrow> st\<lparr>av_input := input, av_state := Checking,
            av_effects := old @ [\<lparr>ef_trimmed = trimmed, ef_phase = Armed, ef_cancelled = False, ef_answer = None\<rparr>]\<rparr>)"

definition settle_effect :: "'n platform \<Rightarrow> js_error + resolve_result \<Rightarrow> nat \<Rightarrow> avail_state \<Rightarrow> avail_state" where
  "settle_effect P r i st =
     st\<lparr>av_effects := (av_effects st)[i := (av_effects st ! i)\<lparr>ef_phase := Settled, ef_answer := Some r\<rparr>],
        av_state := (if ef_cancelled (av_effects st ! i) then av_state st else shown_result P r)\<rparr>"

inductive avail_step :: "'n platform \<Rightarrow> avail_state \<Rightarrow> avail_state \<Rightarrow> bool" for P where
  typed: "avail_step P st (type_handle input st)"
| fire: "i < length (av_effects st) \<Longrightarrow> ef_phase (av_effects st ! i) = Armed \<Longrightarrow>
    avail_step P st (st\<lparr>av_effects := (av_effects st)[i := (av_effects st ! i)\<lparr>ef_phase := InFlight\<rparr>]\<rparr>)"
| settled: "i < length (av_effects st) \<Longrightarrow> ef_phase (av_effects st ! i) = InFlight \<Longrightarrow>
    avail_step P st (settle_effect P r i st)"

inductive_cases avail_stepE: "avail_step P st st'"

inductive avail_reach :: "'n platform \<Rightarrow> avail_state \<Rightarrow> bool" for P where
  "avail_reach P av_init"
| "avail_reach P st \<Longrightarrow> avail_step P st st' \<Longrightarrow> avail_reach P st'"

definition avail_inv :: "'n platform \<Rightarrow> avail_state \<Rightarrow> bool" where
  "avail_inv P st \<longleftrightarrow>
     (if trim (av_input st) = [] then av_state st = Idle \<and> (\<forall>e \<in> set (av_effects st). ef_cancelled e)
      else case validateHandleShape (trim (av_input st)) of
          Some m \<Rightarrow> av_state st = Invalid m \<and> (\<forall>e \<in> set (av_effects st). ef_cancelled e)
        | None \<Rightarrow> \<exists>old e. av_effects st = old @ [e] \<and> (\<forall>e' \<in> set old. ef_cancelled e')
            \<and> \<not> ef_cancelled e \<and> ef_trimmed e = trim (av_input st)
            \<and> av_state st = (case ef_answer e of None \<Rightarrow> Checking | Some r \<Rightarrow> shown_result P r))"

lemma type_handle_inv: "avail_inv P (type_handle input st)"
proof -
  have c: "ef_cancelled (cancel_effect e)" for e by (simp add: cancel_effect_def)
  show ?thesis
    by (auto simp: avail_inv_def type_handle_def Let_def c split: option.splits)
qed

text \<open>A step that replaces one run of the effect, and shows something only when it is not cancelled.\<close>

lemma update_inv:
  assumes "avail_inv P st" and "i < length (av_effects st)"
    and "ef_cancelled e = ef_cancelled (av_effects st ! i)" and "ef_trimmed e = ef_trimmed (av_effects st ! i)"
    and "shown = (if ef_cancelled e then av_state st else (case ef_answer e of None \<Rightarrow> Checking | Some r \<Rightarrow> shown_result P r))
      \<or> shown = av_state st \<and> ef_answer e = ef_answer (av_effects st ! i)"
  shows "avail_inv P (st\<lparr>av_effects := (av_effects st)[i := e], av_state := shown\<rparr>)"
proof (cases "trim (av_input st) = [] \<or> validateHandleShape (trim (av_input st)) \<noteq> None")
  case True
  then have all: "\<forall>e \<in> set (av_effects st). ef_cancelled e" using assms(1) by (auto simp: avail_inv_def split: if_splits)
  then have e: "ef_cancelled e" using assms(2,3) by simp
  then have "\<forall>e \<in> set ((av_effects st)[i := e]). ef_cancelled e" using all set_update_subset_insert by fastforce
  with True e assms(1,5) show ?thesis by (auto simp: avail_inv_def)
next
  case False
  then obtain old l where l: "av_effects st = old @ [l]" "\<forall>e' \<in> set old. ef_cancelled e'" "\<not> ef_cancelled l"
      "ef_trimmed l = trim (av_input st)"
      "av_state st = (case ef_answer l of None \<Rightarrow> Checking | Some r \<Rightarrow> shown_result P r)"
    using assms(1) by (auto simp: avail_inv_def)
  show ?thesis
  proof (cases "i = length old")
    case True
    then show ?thesis using False l assms(3-5) by (auto simp: avail_inv_def)
  next
    case i: False
    then have "i < length old" using assms(2) l(1) by simp
    moreover from this have "ef_cancelled e" using assms(3) l(1,2) by (simp add: nth_append)
    moreover have "\<forall>e' \<in> set (old[i := e]). ef_cancelled e'"
      using l(2) \<open>ef_cancelled e\<close> set_update_subset_insert by fastforce
    ultimately show ?thesis using False l assms(5) by (auto simp: avail_inv_def list_update_append)
  qed
qed

lemma avail_reach_inv: "avail_reach P st \<Longrightarrow> avail_inv P st"
proof (induction rule: avail_reach.induct)
  case 1
  have "trim [] = []" by (rule trim_plain) simp
  then show ?case by (simp add: avail_inv_def av_init_def)
next
  case (2 st st')
  from 2(2) show ?case
  proof (cases rule: avail_step.cases)
    case (typed input)
    then show ?thesis by (simp add: type_handle_inv)
  next
    case (fire i)
    have "avail_inv P (st\<lparr>av_effects := (av_effects st)[i := (av_effects st ! i)\<lparr>ef_phase := InFlight\<rparr>], av_state := av_state st\<rparr>)"
      by (rule update_inv [OF 2(3) fire(2)]) simp_all
    with fire show ?thesis by simp
  next
    case (settled i r)
    then show ?thesis unfolding settled settle_effect_def by (intro update_inv [OF 2(3)]) simp_all
  qed
qed

text \<open>The verdict on screen is about the handle in the box. However typing, timers and answers
  interleave, an input with a bad shape shows its shape error; for a good one, the form shows
  "checking" until the request for exactly that handle has been answered, and then that answer; the
  late answer to an earlier input is never shown.\<close>

lemma availability_is_current:
  assumes "avail_reach P st"
  shows "if trim (av_input st) = [] then av_state st = Idle
     else case validateHandleShape (trim (av_input st)) of
         Some m \<Rightarrow> av_state st = Invalid m
       | None \<Rightarrow> \<exists>e. last (av_effects st) = e \<and> ef_trimmed e = trim (av_input st) \<and> \<not> ef_cancelled e
           \<and> av_state st = (case ef_answer e of None \<Rightarrow> Checking | Some r \<Rightarrow> shown_result P r)"
  using avail_reach_inv [OF assms] by (auto simp: avail_inv_def split: if_splits option.splits)

end
