(* ===== verification/Account.thy ===== *)
theory Account
  imports Rotation Handles
begin

text \<open>
  The flows that sign an account in and out: web/src/hooks/useLogin.ts, useRegister.ts,
  useDevices.ts and useDeleteAccount.ts. Each is the body of the hook's handler as an effect that
  ends in an outcome; the form a hook shows is a function of the outcome. The timers that animate the
  proof-of-work line are left out.
\<close>

definition attempt :: "('w, 'a) io \<Rightarrow> ('w, js_error + 'a) io" where
  "attempt m = (\<lambda>w. (Inr (fst (m w)), snd (m w)))"

lemma attempt_app [io_simps]: "attempt m w = (Inr (fst (m w)), snd (m w))"
  by (simp add: attempt_def)

lemma keeps_attempt [keeps_intros]: "keeps Q m \<Longrightarrow> keeps Q (attempt m)"
  by (simp add: keeps_def attempt_def)

section \<open>Login\<close>

datatype login_outcome = LoggedIn session | LoginFailed string

definition deleted_message :: "'n platform \<Rightarrow> string \<Rightarrow> string" where
  "deleted_message P released_at = ''That account was deleted on ''
     @ (if released_at = [] then ''recently'' else take 10 (pl_date_iso P (pl_date_parse P released_at))) @ ''.''"

definition login_session :: "string \<Rightarrow> string \<Rightarrow> string \<Rightarrow> string \<Rightarrow> int \<Rightarrow> derived_keys \<Rightarrow> session" where
  "login_session token userId deviceId handle keyVersion keys =
     \<lparr>se_token = token, se_userId = userId, se_deviceId = deviceId, se_handle = handle,
      se_sharingPrivateKey = dk_sharingPrivate keys, se_sharingPublicKeyBytes = dk_sharingPublicBytes keys,
      se_backupKey = dk_backupKey keys, se_keyVersion = keyVersion\<rparr>"

text \<open>The auth proof of login and revocation: the payload signed with the account's auth key.\<close>

definition auth_proof :: "'n platform \<Rightarrow> derived_keys \<Rightarrow> string \<Rightarrow> string \<Rightarrow> int \<Rightarrow> ('n world, auth_payload \<times> string) io" where
  "auth_proof P keys userId deviceId keyVersion =
     await (platform_io (pl_now P)) (\<lambda>now.
     let payload = \<lparr>ap_user_id = userId, ap_device_id = deviceId, ap_timestamp = pl_date_iso P now, ap_key_version = keyVersion\<rparr> in
     await (signAuthProofV2 P (dk_authPrivate keys) payload) (\<lambda>signature.
     ret (payload, base64UrlEncode signature)))"

definition login_live :: "'n platform \<Rightarrow> string \<Rightarrow> string \<Rightarrow> resolve_live \<Rightarrow> ('n world, session) io" where
  "login_live P normalisedHandle secretInput live =
     (let userId = rl_user_id live; profileKeyVersion = opt_or (rl_key_version live) 1 in
      await (deriveSecretFromPassword P secretInput (rl_salt live) (rl_kdf live)) (\<lambda>derivedSecret.
      await (deriveKeys P derivedSecret False) (\<lambda>keys.
      await (platform_io (pl_ulid P)) (\<lambda>deviceId.
      await (auth_proof P keys userId deviceId profileKeyVersion) (\<lambda>(payload, signature).
      await (addDevice P userId (detectDeviceLabel P) payload signature) (\<lambda>(device_id, token).
      let s = login_session token userId device_id normalisedHandle profileKeyVersion keys in
      await (saveSession P s) (\<lambda>_. ret s)))))))"

definition handleLogin :: "'n platform \<Rightarrow> string \<Rightarrow> string \<Rightarrow> ('n world, login_outcome) io" where
  "handleLogin P handle secretInput =
     catch_err
       (let normalisedHandle = toLowerCase (trim handle) in
        await (resolve P normalisedHandle) (\<lambda>resolveRes.
        case resolveRes of
          NotFound \<Rightarrow> ret (LoginFailed ''No account with that handle.'')
        | Released released_at _ \<Rightarrow> ret (LoginFailed (deleted_message P released_at))
        | Live live \<Rightarrow> await (login_live P normalisedHandle secretInput live) (\<lambda>s. ret (LoggedIn s))))
       (\<lambda>e. ret (LoginFailed (error_message e)))"

record login_state =
  lg_loading :: bool
  lg_error :: string

fun after_login :: "login_outcome \<Rightarrow> login_state" where
  "after_login (LoggedIn s) = \<lparr>lg_loading = True, lg_error = []\<rparr>"
| "after_login (LoginFailed m) = \<lparr>lg_loading = False, lg_error = m\<rparr>"

section \<open>Registration\<close>

text \<open>\<open>powRef\<close> holds no promise, or the promise of a proof of work: here what it settles to. A
  promise that rejects takes itself out of the reference.\<close>

type_synonym pow_ref = "(js_error + pow_proof) option"

definition runPow :: "'n platform \<Rightarrow> ('n world, pow_proof) io" where
  "runPow P =
     await (getRegisterChallenge P) (\<lambda>challenge.
     await (solvePow P challenge) (\<lambda>counter.
     ret \<lparr>pp_nonce = pc_nonce challenge, pp_counter = counter\<rparr>))"

definition ref_of :: "js_error + pow_proof \<Rightarrow> pow_ref" where
  "ref_of r = (case r of Inr p \<Rightarrow> Some (Inr p) | Inl _ \<Rightarrow> None)"

text \<open>\<open>await (powRef.current ?? runPow())\<close>, and \<open>runPow()\<close> again if that rejects.\<close>

definition obtain_proof :: "'n platform \<Rightarrow> pow_ref \<Rightarrow> ('n world, (js_error + pow_proof) \<times> pow_ref) io" where
  "obtain_proof P ref =
     await (case ref of Some r \<Rightarrow> ret r | None \<Rightarrow> attempt (runPow P)) (\<lambda>first.
     case first of
       Inr p \<Rightarrow> ret (first, ref_of first)
     | Inl _ \<Rightarrow> await (attempt (runPow P)) (\<lambda>second. ret (second, ref_of second)))"

definition build_body :: "'n platform \<Rightarrow> string \<Rightarrow> bytes \<Rightarrow> derived_keys \<Rightarrow> pow_proof \<Rightarrow> register_request" where
  "build_body P handle salt keys pow =
     \<lparr>rr_handle = toLowerCase (trim handle), rr_device_label = detectDeviceLabel P,
      rr_auth_public_key = base64UrlEncode (dk_authPublicBytes keys),
      rr_sharing_public_key = base64UrlEncode (dk_sharingPublicBytes keys),
      rr_salt = Some (base64UrlEncode salt), rr_kdf = Some DEFAULT_KDF, rr_pow = pow\<rparr>"

definition derive_registration :: "'n platform \<Rightarrow> string \<Rightarrow> ('n world, bytes \<times> derived_keys) io" where
  "derive_registration P password =
     await (generateSalt P) (\<lambda>salt.
     await (argonStretch P password salt DEFAULT_KDF) (\<lambda>secret.
     await (deriveKeys P secret False) (\<lambda>keys.
     ret (salt, keys))))"

definition handleRegisterError :: "js_error \<Rightarrow> string option" where
  "handleRegisterError err = (case err of
      APIError _ code _ \<Rightarrow>
        (if code = ''handle_invalid'' then Some shape_message
         else if code = ''handle_reserved'' then Some ''That handle is reserved. Pick another one.''
         else if code = ''handle_taken'' then Some ''That handle is already taken.''
         else if code = ''handle_in_cooldown'' then Some ''That handle was recently deleted and is in 30-day cooldown.''
         else if code = ''registration_unavailable''
           then Some (''Registration is temporarily busy '' @ [CHR 0xE2, CHR 0x80, CHR 0x94] @ '' please retry.'')
         else if code = ''pow_invalid''
           then Some (''Registration check failed '' @ [CHR 0xE2, CHR 0x80, CHR 0x94] @ '' please try again.'')
         else None)
    | _ \<Rightarrow> None)"

datatype register_outcome = Registered session | RegisterFailed string

text \<open>An error in a template string: its name, then its message unless that is empty. \<open>APIError\<close> sets
  no name of its own.\<close>

fun error_name :: "js_error \<Rightarrow> string" where
  "error_name (TypeErr _) = ''TypeError''"
| "error_name (NetworkError _) = ''NetworkError''"
| "error_name NotFoundError = ''NotFoundError''"
| "error_name (KeyVersionStaleError _) = ''KeyVersionStaleError''"
| "error_name FileTooLargeError = ''FileTooLargeError''"
| "error_name MediaCorruptError = ''MediaCorruptError''"
| "error_name ImageOptimizeError = ''ImageOptimizeError''"
| "error_name InvalidCharacterError = ''InvalidCharacterError''"
| "error_name SyntaxErr = ''SyntaxError''"
| "error_name OperationErr = ''OperationError''"
| "error_name AbortErr = ''AbortError''"
| "error_name _ = ''Error''"

definition error_string :: "js_error \<Rightarrow> string" where
  "error_string e = (if error_message e = [] then error_name e else error_name e @ '': '' @ error_message e)"

definition register_failure :: "js_error \<Rightarrow> register_outcome" where
  "register_failure e = RegisterFailed (case handleRegisterError e of
      Some m \<Rightarrow> m | None \<Rightarrow> ''Registration failed: '' @ error_string e)"

definition pow_invalid :: "js_error \<Rightarrow> bool" where
  "pow_invalid e \<longleftrightarrow> (case e of APIError _ code _ \<Rightarrow> code = ''pow_invalid'' | _ \<Rightarrow> False)"

definition finish_register :: "'n platform \<Rightarrow> derived_keys \<Rightarrow> register_response \<Rightarrow> ('n world, register_outcome) io" where
  "finish_register P keys res =
     (let s = login_session (rg_token res) (rg_user_id res) (rg_device_id res) (rg_handle res) 1 keys in
      catch_err (await (saveSession P s) (\<lambda>_. ret (Registered s))) (\<lambda>e. ret (register_failure e)))"

text \<open>The registration with the proof, retried once with a fresh one when the server refuses it.\<close>

definition register_steps ::
  "'n platform \<Rightarrow> string \<Rightarrow> bytes \<Rightarrow> derived_keys \<Rightarrow> pow_proof \<Rightarrow> pow_ref \<Rightarrow> ('n world, register_outcome \<times> pow_ref) io" where
  "register_steps P handle salt keys proof ref =
     await (attempt (register P (build_body P handle salt keys proof))) (\<lambda>answer.
     case answer of
       Inr res \<Rightarrow> await (finish_register P keys res) (\<lambda>out. ret (out, ref))
     | Inl e \<Rightarrow>
         if \<not> pow_invalid e then ret (register_failure e, ref)
         else await (attempt (runPow P)) (\<lambda>fresh.
           case fresh of
             Inl e2 \<Rightarrow> ret (register_failure e2, ref_of fresh)
           | Inr proof2 \<Rightarrow>
               await (attempt (register P (build_body P handle salt keys proof2))) (\<lambda>answer2.
               case answer2 of
                 Inl e3 \<Rightarrow> ret (register_failure e3, ref_of fresh)
               | Inr res \<Rightarrow> await (finish_register P keys res) (\<lambda>out. ret (out, ref_of fresh)))))"

definition handleRegister ::
  "'n platform \<Rightarrow> pow_ref \<Rightarrow> string \<Rightarrow> string \<Rightarrow> ('n world, register_outcome \<times> pow_ref) io" where
  "handleRegister P ref handle password =
     await (obtain_proof P ref) (\<lambda>(proof, ref1).
     case proof of
       Inl e \<Rightarrow> ret (register_failure e, ref1)
     | Inr p \<Rightarrow>
         await (attempt (derive_registration P password)) (\<lambda>derived.
         case derived of
           Inl e \<Rightarrow> ret (register_failure e, ref1)
         | Inr (salt, keys) \<Rightarrow> register_steps P handle salt keys p ref1))"

section \<open>Devices\<close>

text \<open>\<open>handleRevoke\<close> up to the revocation; the list is fetched again after it.\<close>

definition revoke_device :: "'n platform \<Rightarrow> string \<Rightarrow> string \<Rightarrow> string \<Rightarrow> string \<Rightarrow> ('n world, unit) io" where
  "revoke_device P token userId deviceId secretInput =
     await (readOwnProfile P token userId) (\<lambda>profile.
     await (deriveSecretFromPassword P secretInput (rp_salt profile) (rp_kdf profile)) (\<lambda>secret.
     await (deriveKeys P secret False) (\<lambda>keys.
     await (auth_proof P keys userId deviceId (rp_keyVersion profile)) (\<lambda>(payload, signature).
     revokeDevice P token deviceId payload signature))))"

record devices_state =
  ds_devices :: "device_info list"
  ds_error :: "string option"
  ds_revoking :: "string option"
  ds_secretInput :: string
  ds_revokeError :: "string option"

definition fetchDevices :: "'n platform \<Rightarrow> string \<Rightarrow> string \<Rightarrow> devices_state \<Rightarrow> ('n world, devices_state) io" where
  "fetchDevices P token userId st =
     catch_err (await (listDevices P token userId) (\<lambda>ds. ret (st\<lparr>ds_devices := ds, ds_error := None\<rparr>)))
       (\<lambda>e. ret (st\<lparr>ds_error := Some (error_message e)\<rparr>))"

definition handleRevoke :: "'n platform \<Rightarrow> string \<Rightarrow> string \<Rightarrow> string \<Rightarrow> devices_state \<Rightarrow> ('n world, devices_state) io" where
  "handleRevoke P token userId deviceId st =
     await (attempt (revoke_device P token userId deviceId (ds_secretInput st))) (\<lambda>r.
     case r of
       Inl e \<Rightarrow> ret (st\<lparr>ds_revokeError := Some (error_message e)\<rparr>)
     | Inr _ \<Rightarrow> fetchDevices P token userId (st\<lparr>ds_revokeError := None, ds_revoking := None, ds_secretInput := []\<rparr>))"

section \<open>Deleting the account\<close>

datatype delete_outcome = AccountDeleted | DeleteRefused string

text \<open>The password check and the server-side delete; \<open>False\<close>: the password is wrong.\<close>

definition delete_steps :: "'n platform \<Rightarrow> session \<Rightarrow> string \<Rightarrow> ('n world, bool) io" where
  "delete_steps P s password =
     await (readOwnProfile P (se_token s) (se_userId s)) (\<lambda>profile.
     await (deriveSecretFromPassword P password (rp_salt profile) (rp_kdf profile)) (\<lambda>secret.
     await (deriveKeys P secret False) (\<lambda>keys.
     if base64UrlEncode (dk_authPublicBytes keys) \<noteq> rp_authPublicKey profile then ret False
     else await (deleteProfile P (se_token s)) (\<lambda>_. ret True))))"

definition is_401 :: "js_error \<Rightarrow> bool" where
  "is_401 e \<longleftrightarrow> (case e of APIError status _ _ \<Rightarrow> status = 401 | _ \<Rightarrow> False)"

definition delete_submit :: "'n platform \<Rightarrow> session \<Rightarrow> string \<Rightarrow> ('n world, delete_outcome) io" where
  "delete_submit P s password =
     await (attempt (delete_steps P s password)) (\<lambda>r.
     case r of
       Inr False \<Rightarrow> ret (DeleteRefused ''Password is incorrect.'')
     | Inr True \<Rightarrow> ret AccountDeleted
     | Inl e \<Rightarrow> if is_401 e then ret AccountDeleted
         else ret (DeleteRefused ''Could not delete account. Please try again.''))"

section \<open>Login gives the account's own keys\<close>

lemma deriveKeys_sharing:
  assumes "deriveKeys P secret x w = (Inr ks, w')"
  shows "ck_raw (dk_sharingPrivate ks) = hkdfDerive P secret ''sharing-v1''"
    "dk_sharingPublicBytes ks = pl_p256_public P (hkdfDerive P secret ''sharing-v1'')"
  using assms by (auto simp: deriveKeys_def Let_def io_simps split: if_splits)

lemma account_db [keeps_intros]:
  "keeps (on_db idb_ok) (deriveSecretFromPassword P pw so ko)" "keeps (on_db idb_ok) (auth_proof P ks u d v)"
  "keeps (on_db idb_ok) (platform_io f)"
  by (auto intro!: keeps_intros simp: auth_proof_def Let_def)

lemma login_live_run:
  assumes "login_live P h pw live w = (Inr s, w')" and "idb_ok (w_db w)"
  shows "\<exists>secret w1 keys device_id token wa.
    deriveSecretFromPassword P pw (rl_salt live) (rl_kdf live) w = (Inr secret, w1)
    \<and> deriveKeys P secret False w1 = (Inr keys, w1)
    \<and> s = login_session token (rl_user_id live) device_id h (opt_or (rl_key_version live) 1) keys
    \<and> saveSession P s wa = (Inr (), w') \<and> idb_ok (w_db wa)"
proof -
  obtain secret w1 keys w2 deviceId w3 payload signature w4 device_id token w5 where
    r: "deriveSecretFromPassword P pw (rl_salt live) (rl_kdf live) w = (Inr secret, w1)"
      "deriveKeys P secret False w1 = (Inr keys, w2)"
      "platform_io (pl_ulid P) w2 = (Inr deviceId, w3)"
      "auth_proof P keys (rl_user_id live) deviceId (opt_or (rl_key_version live) 1) w3 = (Inr (payload, signature), w4)"
      "addDevice P (rl_user_id live) (detectDeviceLabel P) payload signature w4 = (Inr (device_id, token), w5)"
      "saveSession P s w5 = (Inr (), w')"
      "s = login_session token (rl_user_id live) device_id h (opt_or (rl_key_version live) 1) keys"
    using assms(1) by (auto simp: login_live_def await_Inr Let_def ret_app)
  have k: "keeps (on_db idb_ok) (addDevice P a b c d)" for a b c d by (intro keeps_intros)
  have "idb_ok (w_db w5)"
    using assms(2) keeps_result [OF account_db(1) r(1)] keeps_result [OF account_db(3) r(3)] keeps_result [OF account_db(2) r(4)]
      keeps_result [OF k r(5)] deriveKeys_backup(2) [OF r(2)] by (simp add: on_db_def)
  with r deriveKeys_backup(2) [OF r(2)] show ?thesis by blast
qed

text \<open>C27: login restores the account. When a login succeeds, the session it hands on is the one a reload of
  the page loads; it is for the account the handle resolved to, at the key version the server
  published; and its private sharing key and backup key are those derived from the password with the
  published salt and parameters, whatever device it is.\<close>

theorem login_restores_account:
  assumes "handleLogin P handle pw w = (Inr (LoggedIn s), w')" and "\<And>n. fst (pl_idb P n)"
    and "idb_ok (w_db w)" and "session_ok s"
  shows "(\<exists>w2. loadSession P w' = (Inr (Some s), w2)) \<and> se_handle s = toLowerCase (trim handle)
    \<and> (\<exists>live w1 secret w2. resolve P (toLowerCase (trim handle)) w = (Inr (Live live), w1)
         \<and> se_userId s = rl_user_id live \<and> se_keyVersion s = opt_or (rl_key_version live) 1
         \<and> deriveSecretFromPassword P pw (rl_salt live) (rl_kdf live) w1 = (Inr secret, w2)
         \<and> ck_raw (se_backupKey s) = hkdfDerive P secret ''backup-v1''
         \<and> ck_raw (se_sharingPrivateKey s) = hkdfDerive P secret ''sharing-v1'')"
proof -
  obtain live w1 where r: "resolve P (toLowerCase (trim handle)) w = (Inr (Live live), w1)"
    and l: "login_live P (toLowerCase (trim handle)) pw live w1 = (Inr s, w')"
    using assms(1)
    by (auto simp: handleLogin_def Let_def catch_err_app await_app ret_app split: prod.splits sum.splits resolve_result.splits)
  have k: "keeps (on_db idb_ok) (resolve P h)" for h by (intro keeps_intros)
  have "idb_ok (w_db w1)" using keeps_result [OF k r] assms(3) by (simp add: on_db_def)
  from login_live_run [OF l this] obtain secret w2 keys device_id token wa where
    d: "deriveSecretFromPassword P pw (rl_salt live) (rl_kdf live) w1 = (Inr secret, w2)"
    and ks: "deriveKeys P secret False w2 = (Inr keys, w2)"
    and s: "s = login_session token (rl_user_id live) device_id (toLowerCase (trim handle)) (opt_or (rl_key_version live) 1) keys"
    and sv: "saveSession P s wa = (Inr (), w')" and ok: "idb_ok (w_db wa)"
    by blast
  have f: "se_handle s = toLowerCase (trim handle)" "se_userId s = rl_user_id live"
      "se_keyVersion s = opt_or (rl_key_version live) 1"
      "ck_raw (se_backupKey s) = hkdfDerive P secret ''backup-v1''"
      "ck_raw (se_sharingPrivateKey s) = hkdfDerive P secret ''sharing-v1''"
    using deriveKeys_backup(1) [OF ks] deriveKeys_sharing [OF ks] by (simp_all add: s login_session_def)
  show ?thesis using session_reload [OF assms(4,2) ok sv] r d f by blast
qed

section \<open>A session can be stored in part\<close>

text \<open>A refused key write leaves a session of two parts. When a rotation or a second login saves a
  session for the account the device already holds and the transaction of the first key aborts,
  \<open>saveSession\<close> fails, but the new token, key version and public key are already in localStorage: a
  reload loads them together with the old private keys, so blobs are then labelled with a version
  whose key did not encrypt them.\<close>

lemma saveSession_torn:
  assumes "session_ok s" and "map_of (w_ls w) (ls_key ''userId'') = Some (se_userId s)"
    and "st_get ''sharingPrivateKey'' (db_keys (w_db w)) = Some oldSharing"
    and "st_get ''backupKey'' (db_keys (w_db w)) = Some oldBackup"
    and "pl_idb P (w_net w) = (False, n)" and "\<And>m. m \<noteq> w_net w \<Longrightarrow> fst (pl_idb P m)"
    and "n \<noteq> w_net w" and "snd (pl_idb P n) \<noteq> w_net w"
  shows "\<exists>w1 w2. saveSession P s w = (Inl IdbError, w1)
    \<and> loadSession P w1 = (Inr (Some (s\<lparr>se_sharingPrivateKey := oldSharing, se_backupKey := oldBackup\<rparr>)), w2)"
  using assms
  by (auto simp: saveSession_def wipeIfAccountChanged_def io_simps putKey_def loadSession_def getKey_def truthy_def
      session_ok_def ls_key_def LS_PREFIX_def atob_btoa stored_version_def parseInt_show_int)

definition torn_platform :: "nat platform" where
  "torn_platform = quiet_platform\<lparr>pl_idb := (\<lambda>n. (n \<noteq> 0, n + 1))\<rparr>"

definition torn_world :: "nat world" where
  "torn_world = \<lparr>w_db = empty_idb\<lparr>db_keys := [(''backupKey'', \<lparr>ck_raw = ''old bk'', ck_extractable = False\<rparr>),
       (''sharingPrivateKey'', \<lparr>ck_raw = ''old sk'', ck_extractable = False\<rparr>)]\<rparr>,
     w_ls = [(''atmin:userId'', ''U1'')], w_mgr = empty_mgr, w_events = [], w_net = 0\<rparr>"

definition login_server :: "http_request \<Rightarrow> http_response" where
  "login_server rq = json_reply (if rq_method rq = GET
     then JObj [(''user_id'', JStr ''U1''), (''sharing_public_key'', JStr ''pk''), (''salt'', JStr (base64UrlEncode ''salt'')),
       (''kdf'', kdf_json DEFAULT_KDF), (''key_version'', JNum (NInt 3))]
     else JObj [(''device_id'', JStr ''D1''), (''token'', JStr ''t1'')])"

definition login_platform :: "unit platform" where
  "login_platform = quiet_platform\<lparr>pl_fetch := (\<lambda>rq n. (Some (login_server rq), n))\<rparr>"

definition demo_live :: resolve_live where
  "demo_live = \<lparr>rl_user_id = ''U1'', rl_sharing_public_key = ''pk'', rl_display_name = None, rl_avatar_url = None,
     rl_salt = Some (base64UrlEncode ''salt''), rl_kdf = Some DEFAULT_KDF, rl_key_version = Some 3\<rparr>"

lemma demo_resolve: "resolve login_platform h w = (Inr (Live demo_live), w)"
  by (simp add: resolve_def do_fetch_def io_simps login_platform_def login_server_def json_reply_def api_request_def
      resolve_outcome_def res_ok_def read_body_def resolve_live_of_def str_field_def int_field_def num_field_def
      kdf_of_def kdf_json_def nat_field_def DEFAULT_KDF_def demo_live_def)

lemma saveSession_commits:
  assumes "\<And>n. fst (pl_idb P n)"
  shows "\<exists>w'. saveSession P s w = (Inr (), w')"
  using assms
  by (cases "map_of (w_ls w) (ls_key ''userId'') = Some (se_userId s)")
    (simp_all add: saveSession_def wipeIfAccountChanged_def deleteDatabase_def putKey_def io_simps)

theorem login_restores_account_witness:
  "\<exists>s w' w2. handleLogin login_platform ''Ann'' ''pw'' quiet_world = (Inr (LoggedIn s), w')
    \<and> loadSession login_platform w' = (Inr (Some s), w2) \<and> se_keyVersion s = 3 \<and> ck_raw (se_backupKey s) = ''pw''"
proof -
  let ?P = login_platform
  let ?h = "toLowerCase (trim ''Ann'')"
  let ?keys = "\<lparr>dk_authPrivate = \<lparr>ck_raw = wrapPkcs8 ED25519_PKCS8_PREFIX ''pw'', ck_extractable = True\<rparr>,
     dk_authPublicBytes = wrapPkcs8 ED25519_PKCS8_PREFIX ''pw'',
     dk_sharingPrivate = \<lparr>ck_raw = ''pw'', ck_extractable = False\<rparr>, dk_sharingPublicBytes = ''pw'',
     dk_backupKey = \<lparr>ck_raw = ''pw'', ck_extractable = False\<rparr>\<rparr>"
  let ?s = "login_session ''t1'' ''U1'' ''D1'' ?h 3 ?keys"
  have d: "deriveSecretFromPassword ?P ''pw'' (rl_salt demo_live) (rl_kdf demo_live) w = (Inr ''pw'', w)" for w
    by (simp add: deriveSecretFromPassword_def demo_live_def base64UrlEncode_empty base64UrlDecode_Encode io_simps
        argonStretch_def) (simp add: login_platform_def quiet_platform_def)
  have k: "deriveKeys ?P ''pw'' False w = (Inr ?keys, w)" for w
    by (simp add: deriveKeys_def Let_def io_simps hkdfDerive_def login_platform_def quiet_platform_def)
  have a: "\<exists>x sg. auth_proof ?P ?keys u dv v w = (Inr (x, sg), w)" for u dv v w
    by (simp add: auth_proof_def signAuthProofV2_def canonicalizeForSign_def io_simps Let_def login_platform_def
        quiet_platform_def)
  have ad: "addDevice ?P u l x sg w = (Inr (''D1'', ''t1''), w)" for u l x sg w
    by (simp add: addDevice_def request_def do_fetch_def io_simps login_platform_def login_server_def json_reply_def
        api_request_def finish_request_def res_ok_def read_body_def device_token_of_def str_field_def)
  have u: "platform_io (pl_ulid ?P) quiet_world = (Inr ''01A'', quiet_world)"
    by (simp add: io_simps login_platform_def quiet_platform_def)
  have c: "fst (pl_idb ?P n)" for n by (simp add: login_platform_def quiet_platform_def)
  obtain w' where sv: "saveSession ?P ?s quiet_world = (Inr (), w')"
    using saveSession_commits [OF c] by blast
  obtain x sg where x: "auth_proof ?P ?keys ''U1'' ''01A'' 3 quiet_world = (Inr (x, sg), quiet_world)" using a by blast
  have v: "opt_or (rl_key_version demo_live) 1 = 3" "rl_user_id demo_live = ''U1''" by (simp_all add: demo_live_def)
  have "login_live ?P ?h ''pw'' demo_live quiet_world = (Inr ?s, w')"
    by (simp add: login_live_def Let_def await_app d k u v x ad sv ret_app)
  then have h: "handleLogin ?P ''Ann'' ''pw'' quiet_world = (Inr (LoggedIn ?s), w')"
    by (simp add: handleLogin_def Let_def catch_err_app await_app demo_resolve ret_app)
  have "trim ''Ann'' = ''Ann''" by (rule trim_plain) (simp add: ascii_space_def)
  then have "session_ok ?s" by (simp add: session_ok_def login_session_def toLowerCase_def)
  from login_restores_account [OF h c quiet_world_ok this] h
  obtain w2 where l: "loadSession ?P w' = (Inr (Some ?s), w2)" by blast
  show ?thesis by (intro exI conjI, rule h, rule l) (simp_all add: login_session_def)
qed

section \<open>What registration and deletion send\<close>

definition registration_request :: "http_request \<Rightarrow> bool" where
  "registration_request rq \<longleftrightarrow> rq_method rq = POST \<and> rq_path rq = ''/v1/register''"

definition deletion_request :: "http_request \<Rightarrow> bool" where
  "deletion_request rq \<longleftrightarrow> rq_method rq = DELETE \<and> rq_path rq = ''/v1/profile''"

text \<open>\<open>counts P seen\<close>: \<open>seen\<close> is how many registrations reached the server; nothing else moves it.\<close>

definition counts_registrations :: "'n platform \<Rightarrow> ('n \<Rightarrow> nat) \<Rightarrow> bool" where
  "counts_registrations P seen \<longleftrightarrow> (\<forall>c. silent P (\<lambda>n. seen n \<le> c)
     \<and> (\<forall>rq. \<not> registration_request rq \<longrightarrow> unmoved P (\<lambda>n. seen n \<le> c) rq))
     \<and> (\<forall>rq n. seen (snd (pl_fetch P rq n)) \<le> seen n + 1)"

lemma net_runPow:
  assumes "counts_registrations P seen"
  shows "keeps (on_net (\<lambda>n. seen n \<le> c)) (runPow P)"
proof -
  have "unmoved P (\<lambda>n. seen n \<le> c) (api_request GET ''/v1/register/challenge'' [] None None)"
    using assms by (auto simp: counts_registrations_def registration_request_def api_request_def)
  then show ?thesis
    unfolding runPow_def getRegisterChallenge_def solvePow_def by (intro keeps_intros net_intros)
qed

lemma register_once:
  assumes "counts_registrations P seen" and "seen (w_net w) \<le> c" and "attempt (register P b) w = (r, w')"
  shows "seen (w_net w') \<le> c + 1"
proof -
  have fin: "w_net (snd (finish_request res v)) = w_net v" for res and v :: "'a world"
    using keepsD [OF net_finish [of "\<lambda>n. n = w_net v" res], of v] by (simp add: on_net_def)
  let ?rq = "api_request POST ''/v1/register'' [] None (Some (register_json b))"
  have s: "seen (w_net (snd (request P ?rq w))) \<le> seen (w_net w) + 1"
    using assms(1)
    by (cases "fst (pl_fetch P ?rq (w_net w))")
      (simp_all add: request_def do_fetch_def io_simps counts_registrations_def fin)
  have "w_net (snd (register P b w)) = w_net (snd (request P ?rq w))"
    by (auto simp: register_def await_app read_body_def or_throw_app split: prod.split sum.split)
  moreover have "w' = snd (register P b w)" using assms(3) by (simp add: attempt_app)
  ultimately have "seen (w_net w') \<le> seen (w_net w) + 1" using s by simp
  then show ?thesis using assms(2) by simp
qed

lemma net_run:
  assumes "counts_registrations P seen"
  shows "keeps (on_net (\<lambda>n. seen n \<le> c)) (attempt (runPow P))"
  using net_runPow [OF assms] by (rule keeps_attempt)

lemma finish_register_run:
  assumes "counts_registrations P seen" and "finish_register P keys res w = (Inr out, w')" and "seen (w_net w) \<le> c"
  shows "seen (w_net w') \<le> c
    \<and> (\<forall>s. out = Registered s \<longrightarrow> s = login_session (rg_token res) (rg_user_id res) (rg_device_id res) (rg_handle res) 1 keys)"
proof -
  have "silent P (\<lambda>n. seen n \<le> c)" using assms(1) by (simp add: counts_registrations_def)
  then have k: "keeps (on_net (\<lambda>n. seen n \<le> c)) (finish_register P keys res)"
    unfolding finish_register_def Let_def by (intro keeps_intros net_intros)
  have "out = Registered (login_session (rg_token res) (rg_user_id res) (rg_device_id res) (rg_handle res) 1 keys) \<or> (\<exists>m. out = RegisterFailed m)"
    using assms(2) by (auto simp: finish_register_def Let_def catch_err_app await_app ret_app register_failure_def
        split: prod.splits sum.splits)
  then show ?thesis using keeps_result [OF k assms(2)] assms(3) by (auto simp: on_net_def)
qed

lemma register_steps_run:
  assumes "counts_registrations P seen" and "register_steps P handle salt keys p r1 w1 = (Inr (out, r2), w2)"
    and "seen (w_net w1) \<le> c"
  shows "seen (w_net w2) \<le> c + 2
    \<and> (\<forall>s. out = Registered s \<longrightarrow> (\<exists>proof res wa wb. register P (build_body P handle salt keys proof) wa = (Inr res, wb)
         \<and> s = login_session (rg_token res) (rg_user_id res) (rg_device_id res) (rg_handle res) 1 keys))"
proof -
  obtain answer w3 where r1: "attempt (register P (build_body P handle salt keys p)) w1 = (Inr answer, w3)"
    by (simp add: attempt_app)
  have c3: "seen (w_net w3) \<le> c + 1" by (rule register_once [OF assms(1,3) r1])
  show ?thesis
  proof (cases answer)
    case (Inr res)
    then obtain w4 where f: "finish_register P keys res w3 = (Inr out, w2)"
      using assms(2) r1 by (auto simp: register_steps_def await_Inr ret_app)
    have "register P (build_body P handle salt keys p) w1 = (Inr res, w3)"
      using r1 Inr by (auto simp: attempt_app prod_eq_iff)
    with finish_register_run [OF assms(1) f c3] show ?thesis by auto
  next
    case (Inl e)
    show ?thesis
    proof (cases "pow_invalid e")
      case False
      then show ?thesis using assms(2) r1 Inl c3 by (auto simp: register_steps_def await_app ret_app register_failure_def)
    next
      case True
      obtain fresh w4 where rp: "attempt (runPow P) w3 = (Inr fresh, w4)" by (simp add: attempt_app)
      have c4: "seen (w_net w4) \<le> c + 1" using keeps_result [OF net_run [OF assms(1)] rp] c3 by (simp add: on_net_def)
      show ?thesis
      proof (cases fresh)
        case (Inl e2)
        then show ?thesis using assms(2) r1 \<open>answer = Inl e\<close> True rp c4
          by (auto simp: register_steps_def await_app ret_app register_failure_def)
      next
        case (Inr p2)
        obtain answer2 w5 where r2: "attempt (register P (build_body P handle salt keys p2)) w4 = (Inr answer2, w5)"
          by (simp add: attempt_app)
        have c5: "seen (w_net w5) \<le> c + 2" using register_once [OF assms(1) c4 r2] by simp
        show ?thesis
        proof (cases answer2)
          case (Inl e3)
          then show ?thesis using assms(2) r1 \<open>answer = Inl e\<close> True rp Inr r2 c5
            by (auto simp: register_steps_def await_app ret_app register_failure_def)
        next
          case res: (Inr res)
          then have f: "finish_register P keys res w5 = (Inr out, w2)"
            using assms(2) r1 \<open>answer = Inl e\<close> True rp Inr r2 by (auto simp: register_steps_def await_Inr ret_app)
          have "register P (build_body P handle salt keys p2) w4 = (Inr res, w5)"
            using r2 res by (auto simp: attempt_app prod_eq_iff)
          with finish_register_run [OF assms(1) f c5] show ?thesis by auto
        qed
      qed
    qed
  qed
qed

text \<open>Registration is tried at most twice, and only a session the server issued comes out. One submit
  makes at most two registration requests; when it succeeds, the server answered one of them, whose
  body carried the public halves of the very keys the session keeps, and the session is for the
  user, device and token of that answer, at key version 1.\<close>

lemma registration_issues_session:
  assumes "counts_registrations P seen" and "handleRegister P ref handle password w = (Inr (out, ref'), w')"
  shows "seen (w_net w') \<le> seen (w_net w) + 2
    \<and> (\<forall>s. out = Registered s \<longrightarrow> (\<exists>salt keys proof res wa wb. register P (build_body P handle salt keys proof) wa = (Inr res, wb)
         \<and> s = login_session (rg_token res) (rg_user_id res) (rg_device_id res) (rg_handle res) 1 keys))"
proof -
  let ?Q = "on_net (\<lambda>n. seen n \<le> seen (w_net w)) :: 'a world \<Rightarrow> bool"
  have sil: "silent P (\<lambda>n. seen n \<le> seen (w_net w))" using assms(1) by (simp add: counts_registrations_def)
  have ob: "keeps ?Q (obtain_proof P ref)"
    unfolding obtain_proof_def
    by (intro keeps_intros) (auto intro!: keeps_intros net_run [OF assms(1)] split: option.split sum.split)
  have dv: "keeps ?Q (attempt (derive_registration P password))"
    unfolding derive_registration_def by (intro keeps_intros net_intros sil)
  have q: "?Q w" by (simp add: on_net_def)
  obtain pr r1 w1 where 1: "obtain_proof P ref w = (Inr (pr, r1), w1)"
    using assms(2) by (auto simp: handleRegister_def await_Inr)
  have q1: "?Q w1" using keeps_result [OF ob 1 q] .
  obtain derived w2 where 2: "attempt (derive_registration P password) w1 = (Inr derived, w2)" by (simp add: attempt_app)
  have q2: "?Q w2" using keeps_result [OF dv 2 q1] .
  consider (early) m where "out = RegisterFailed m" "?Q w'"
    | (steps) p salt keys where "register_steps P handle salt keys p r1 w2 = (Inr (out, ref'), w')"
    using assms(2) 1 2 q1 q2
    by (cases pr; cases derived) (auto simp: handleRegister_def await_app ret_app register_failure_def)
  then show ?thesis
  proof cases
    case early
    then show ?thesis by (simp add: on_net_def)
  next
    case steps
    have "seen (w_net w2) \<le> seen (w_net w)" using q2 by (simp add: on_net_def)
    from register_steps_run [OF assms(1) steps this] show ?thesis by blast
  qed
qed

definition register_server :: "http_request \<Rightarrow> http_response" where
  "register_server rq = json_reply (JObj [(''user_id'', JStr ''U1''), (''device_id'', JStr ''D1''), (''token'', JStr ''t1''),
     (''handle'', JStr ''ann'')])"

definition register_platform :: "nat platform" where
  "register_platform = quiet_platform\<lparr>pl_fetch := (\<lambda>rq n. (Some (register_server rq), if registration_request rq then n + 1 else n))\<rparr>"

text \<open>An account is deleted only by its owner's password. If the account can only be deleted by a DELETE
  of /v1/profile, then whenever it is deleted when \<open>submit\<close> ends, the auth key derived from the entered
  password was the one the profile publishes; and the hook reports the deletion only after the server
  confirmed it or answered 401.\<close>

lemma deletion_needs_password:
  assumes "silent P (\<lambda>n. \<not> deleted n)" and "\<And>rq. \<not> deletion_request rq \<Longrightarrow> unmoved P (\<lambda>n. \<not> deleted n) rq"
    and "\<not> deleted (w_net w)" and "delete_submit P s password w = (Inr out, w')"
  shows "(deleted (w_net w') \<longrightarrow> (\<exists>profile w1 secret w2 keys w3. readOwnProfile P (se_token s) (se_userId s) w = (Inr profile, w1)
      \<and> deriveSecretFromPassword P password (rp_salt profile) (rp_kdf profile) w1 = (Inr secret, w2)
      \<and> deriveKeys P secret False w2 = (Inr keys, w3)
      \<and> base64UrlEncode (dk_authPublicBytes keys) = rp_authPublicKey profile))
    \<and> (out = AccountDeleted \<longrightarrow> (\<exists>w4. deleteProfile P (se_token s) w4 = (Inr (), w'))
         \<or> (\<exists>e. delete_steps P s password w = (Inl e, w') \<and> is_401 e))"
proof (intro conjI impI)
  let ?Q = "on_net (\<lambda>n. \<not> deleted n) :: 'a world \<Rightarrow> bool"
  obtain r where r: "delete_steps P s password w = (r, w')" and out: "out = AccountDeleted \<longrightarrow> r = Inr True \<or> (\<exists>e. r = Inl e \<and> is_401 e)"
    using assms(4)
    by (cases "delete_steps P s password w")
      (auto simp: delete_submit_def await_app attempt_app ret_app split: sum.splits bool.splits if_splits)
  have get: "unmoved P (\<lambda>n. \<not> deleted n) rq" if "rq_method rq = GET" for rq
    using that by (intro assms(2)) (simp add: deletion_request_def)
  have pk: "keeps ?Q (readOwnProfile P t u)" for t u by (intro net_intros get)
  have sk: "keeps ?Q (deriveSecretFromPassword P pw so ko)" "keeps ?Q (deriveKeys P sec x)" for pw so ko sec x
    by (intro net_intros)+
  have q: "?Q w" using assms(3) by (simp add: on_net_def)
  {
    assume d: "deleted (w_net w')"
    then have nq: "\<not> ?Q w'" by (simp add: on_net_def)
    obtain profile w1 where 1: "readOwnProfile P (se_token s) (se_userId s) w = (Inr profile, w1)"
      using r nq keepsD [OF pk q, of "se_token s" "se_userId s"]
      by (auto simp: delete_steps_def await_app split: prod.splits sum.splits)
    have q1: "?Q w1" using keeps_result [OF pk 1 q] .
    obtain secret w2 where 2: "deriveSecretFromPassword P password (rp_salt profile) (rp_kdf profile) w1 = (Inr secret, w2)"
      using r nq 1 keepsD [OF sk(1) q1, of password "rp_salt profile" "rp_kdf profile"]
      by (auto simp: delete_steps_def await_app split: prod.splits sum.splits)
    have q2: "?Q w2" using keeps_result [OF sk(1) 2 q1] .
    obtain keys w3 where 3: "deriveKeys P secret False w2 = (Inr keys, w3)"
      using r nq 1 2 keepsD [OF sk(2) q2, of secret False]
      by (auto simp: delete_steps_def await_app split: prod.splits sum.splits)
    have q3: "?Q w3" using keeps_result [OF sk(2) 3 q2] .
    have "base64UrlEncode (dk_authPublicBytes keys) = rp_authPublicKey profile"
      using r nq 1 2 3 q3 by (auto simp: delete_steps_def await_app ret_app split: if_splits)
    with 1 2 3 show "\<exists>profile w1 secret w2 keys w3. readOwnProfile P (se_token s) (se_userId s) w = (Inr profile, w1)
      \<and> deriveSecretFromPassword P password (rp_salt profile) (rp_kdf profile) w1 = (Inr secret, w2)
      \<and> deriveKeys P secret False w2 = (Inr keys, w3)
      \<and> base64UrlEncode (dk_authPublicBytes keys) = rp_authPublicKey profile" by blast
  }
  assume "out = AccountDeleted"
  then consider "r = Inr True" | e where "r = Inl e" "is_401 e" using out by blast
  then show "(\<exists>w4. deleteProfile P (se_token s) w4 = (Inr (), w')) \<or> (\<exists>e. delete_steps P s password w = (Inl e, w') \<and> is_401 e)"
  proof cases
    case 1
    then show ?thesis using r by (auto simp: delete_steps_def await_Inr ret_app split: if_splits)
  next
    case 2
    then show ?thesis using r by blast
  qed
qed

end
