(* ===== verification/Client.thy ===== *)
theory Client
  imports ChatOpen MediaLoader SessionHook Account
begin

text \<open>
  The client as a whole: the operations of the user interface that write the database, over one world.
  The theory composes the preservation lemmas of the components along the handlers, so that the typing of
  the database holds for any sequence of them. The refresh of the chat list, which only adds contacts, is in
  theory Chats.
\<close>

section \<open>The actions of a user\<close>

text \<open>An action names the handler that runs and its arguments; the session it runs under comes beside it.\<close>

datatype client_action =
    SignIn string string
  | SignUp pow_ref string string
  | Reload
  | ChangePassword string string
  | RevokeDevice string devices_state
  | DeleteAccount string
  | ExpireToken
  | ReconcileMarkers
  | SignOut
  | StartManager
  | RestoreKeys
  | RestoreContacts
  | Synchronise
  | SayText "string option" string
  | SendFile "string option" picked_file "string option"
  | EditMessage "string option" string string
  | DeleteMessage "string option" string "string list option"
  | ShowChat chat_view nat
  | RefreshChat chat_view nat
  | CacheMedia loadable bytes

definition hook_of :: "'n platform \<Rightarrow> session \<Rightarrow> string option \<Rightarrow> 'n chat_hook" where
  "hook_of P s handle = \<lparr>ch_handle = handle, ch_isSaved = (handle = Some ''saved''), ch_session = s, ch_hasManager = True,
     ch_self = Some (se_userId s, se_deviceId s), ch_created = on_created P (deps_of s), ch_listeners = [],
     ch_busy = False, ch_online = True\<rparr>"

definition effect_of :: "('w, 'a) io \<Rightarrow> 'w \<Rightarrow> 'w" where
  "effect_of m w = snd (m w)"

fun run_action :: "'n platform \<Rightarrow> image_codec \<Rightarrow> session \<times> client_action \<Rightarrow> 'n world \<Rightarrow> 'n world" where
  "run_action P I (s, SignIn h pw) = effect_of (handleLogin P h pw)"
| "run_action P I (s, SignUp ref h pw) = effect_of (handleRegister P ref h pw)"
| "run_action P I (s, Reload) = effect_of (loadSession P)"
| "run_action P I (s, ChangePassword old new) = effect_of (rotate_submit P s old new)"
| "run_action P I (s, RevokeDevice d st) = effect_of (handleRevoke P (se_token s) (se_userId s) d st)"
| "run_action P I (s, DeleteAccount pw) = effect_of (delete_submit P s pw)"
| "run_action P I (s, ExpireToken) = effect_of clearToken"
| "run_action P I (s, ReconcileMarkers) = effect_of (syncReadMarkers P s)"
| "run_action P I (s, SignOut) = effect_of (clearSession P)"
| "run_action P I (s, StartManager) = effect_of (create_manager P (deps_of s))"
| "run_action P I (s, RestoreKeys) = effect_of (restoreSessionKeys P (se_token s) (se_userId s) (se_backupKey s) (se_keyVersion s))"
| "run_action P I (s, RestoreContacts) = effect_of (restoreContacts P (se_token s) (se_userId s) (se_backupKey s) (se_keyVersion s))"
| "run_action P I (s, Synchronise) = effect_of (syncAndPublish P s [])"
| "run_action P I (s, SayText h text) = effect_of (sendText P (hook_of P s h) text)"
| "run_action P I (s, SendFile h file caption) = effect_of (sendMedia P I (hook_of P s h) file caption)"
| "run_action P I (s, EditMessage h i body) = effect_of (editMessage P (hook_of P s h) i body)"
| "run_action P I (s, DeleteMessage h i urls) = effect_of (deleteMessage P (hook_of P s h) i urls)"
| "run_action P I (s, ShowChat v i) = (\<lambda>w. snd (settle_resolve P s i (v, w)))"
| "run_action P I (s, RefreshChat v i) = (\<lambda>w. snd (settle_refresh P s i (v, w)))"
| "run_action P I (s, CacheMedia l b) = effect_of (cacheAfterLoad P I l b)"

section \<open>Every handler keeps the database typed\<close>

text \<open>The forms in which the models look at a result without passing its error on.\<close>

lemma keeps_either [keeps_intros]:
  assumes "keeps Q m" and "\<And>e. keeps Q (f e)" and "\<And>x. keeps Q (g x)"
  shows "keeps Q (\<lambda>w. case m w of (Inl e, w1) \<Rightarrow> f e w1 | (Inr x, w1) \<Rightarrow> g x w1)"
proof (rule keepsI)
  fix w assume "Q w"
  then have "Q (snd (m w))" using assms(1) by (simp add: keepsD)
  then show "Q (snd (case m w of (Inl e, w1) \<Rightarrow> f e w1 | (Inr x, w1) \<Rightarrow> g x w1))"
    using keepsD [OF assms(2)] keepsD [OF assms(3)] by (cases "m w"; cases "fst (m w)") simp_all
qed

lemma keeps_pair [keeps_intros]: "keeps Q (\<lambda>w. (r, w))"
  by (simp add: keeps_def)

lemma keeps_sum [keeps_intros]:
  "(\<And>e. keeps Q (f e)) \<Longrightarrow> (\<And>x. keeps Q (g x)) \<Longrightarrow> keeps Q (\<lambda>w. case r of Inl e \<Rightarrow> f e w | Inr x \<Rightarrow> g x w)"
  by (cases r) simp_all

lemma keeps_cond [keeps_intros]: "keeps Q m \<Longrightarrow> keeps Q n \<Longrightarrow> keeps Q (\<lambda>w. if b then m w else n w)"
  by (cases b) simp_all

lemma keeps_case_option [keeps_intros]:
  "keeps Q m \<Longrightarrow> (\<And>x. keeps Q (k x)) \<Longrightarrow> keeps Q (case r of None \<Rightarrow> m | Some x \<Rightarrow> k x)"
  by (cases r) simp_all

lemma typed_basic [keeps_intros]:
  "keeps (on_db idb_ok) (on_created P d sid k)" "keeps (on_db idb_ok) (backupSessionKey P t u sid k bk kv)"
  "keeps (on_db idb_ok) (uploadContacts P t u bk kv)"
  by (auto intro!: keeps_intros simp: on_created_def backupSessionKey_def backup_blob_def uploadContacts_def)

lemma typed_markers [keeps_intros]: "keeps (on_db idb_ok) (syncReadMarkers P s)"
proof -
  have "keeps (on_db idb_ok) (fetchReadMarkers P t u k v)" for t u k v
    by (intro fetchReadMarkers_keeps) (auto intro!: keeps_intros simp: contacts_key_def)
  then show ?thesis
    by (auto intro!: keeps_intros simp: syncReadMarkers_def uploadReadMarkers_def backup_blob_def marker_step_def Let_def split: prod.split)
qed

lemma typed_publish [keeps_intros]: "keeps (on_db idb_ok) (publish P s [] y)"
  unfolding publish_def mark_ingested_def notify_listeners_def for_each.simps(1) by (intro keeps_intros)

lemma typed_sync [keeps_intros]: "keeps (on_db idb_ok) (syncAndPublish P s [])"
  unfolding syncAndPublish_def by (intro keeps_intros)

lemma typed_restore_entry [keeps_intros]:
  "keeps (on_db idb_ok) (restoreEntry P e k)" "keeps (on_db idb_ok) (version_key P c v ks)"
  "keeps (on_db idb_ok) (import_contacts P b)" "keeps (on_db idb_ok) (contacts_key P t u k v x)"
  by (auto intro!: keeps_intros simp: restoreEntry_def version_key_def import_contacts_def contacts_key_def split: option.split)

lemma typed_store_get [keeps_intros]: "keeps (on_db idb_ok) (storeGet P t key)"
  by (rule local_storeGet [where Q = "\<lambda>d _ _. idb_ok d", folded on_db_local])

lemma typed_restore_contacts [keeps_intros]: "keeps (on_db idb_ok) (restoreContacts P t u k v)"
  unfolding restoreContacts_def by (intro keeps_intros)

lemma typed_restore_parsed [keeps_intros]: "keeps (on_db idb_ok) (restore_parsed P c st e)"
  unfolding restore_parsed_def by (auto intro!: keeps_intros split: sum.split)

lemma typed_restore_object [keeps_intros]:
  "keeps (on_db idb_ok) (restore_live P t c k st)" "keeps (on_db idb_ok) (restore_archive P t c k st)"
proof -
  show "keeps (on_db idb_ok) (restore_live P t c k st)" unfolding restore_live_def by (intro keeps_intros)
  have "keeps (on_db idb_ok) (\<lambda>w1. case pl_cbor_decode P blob of Some (JArr entries) \<Rightarrow>
      fold_io (\<lambda>raw st. restore_parsed P c st (parseKeyBackupEnvelope raw)) entries st w1 | _ \<Rightarrow> (Inr st, w1))" for blob
    by (cases "pl_cbor_decode P blob"; cases "the (pl_cbor_decode P blob)") (auto intro!: keeps_intros)
  then show "keeps (on_db idb_ok) (restore_archive P t c k st)" unfolding restore_archive_def by (intro keeps_intros)
qed

lemma typed_restore_keys [keeps_intros]: "keeps (on_db idb_ok) (restoreSessionKeys P t u k v)"
  unfolding restoreSessionKeys_def restore_listing_def Let_def by (auto intro!: keeps_intros)

lemma typed_derive [keeps_intros]:
  "keeps (on_db idb_ok) (derive_new P pw)" "keeps (on_db idb_ok) (write_link P s v k1 k2)"
  "keeps (on_db idb_ok) (verify_current P s pw)" "keeps (on_db idb_ok) (readOwnProfile P t u)"
  by (rule rotation_local' [where Q = "\<lambda>d _ _. idb_ok d", folded on_db_local]
      rotation_local [where Q = "\<lambda>d _ _. idb_ok d", folded on_db_local])+

lemma typed_rotation [keeps_intros]:
  "keeps (on_db idb_ok) (randomUUID P)" "keeps (on_db idb_ok) (commit_rotation P s v ks sec salt ks')"
  "keeps (on_db idb_ok) (rotate_keys P s a b)" "keeps (on_db idb_ok) (rotate_submit P s a b)"
proof -
  show r: "keeps (on_db idb_ok) (randomUUID P)"
    unfolding randomUUID_def by (auto intro!: keeps_intros split: option.split)
  show c: "keeps (on_db idb_ok) (commit_rotation P s v ks sec salt ks')" for v ks sec salt ks'
    unfolding commit_rotation_def Let_def by (auto intro!: keeps_intros r)
  show k: "keeps (on_db idb_ok) (rotate_keys P s a b)"
    unfolding rotate_keys_def by (auto intro!: keeps_intros c split: option.split)
  show "keeps (on_db idb_ok) (rotate_submit P s a b)"
    unfolding rotate_submit_def by (auto intro!: keeps_intros k split: js_error.split)
qed

lemma typed_account [keeps_intros]:
  "keeps (on_db idb_ok) (create_manager P d)" "keeps (on_db idb_ok) (login_live P h pw live)"
  "keeps (on_db idb_ok) (delete_submit P s pw)" "keeps (on_db idb_ok) (handleRevoke P t u dev st)"
  subgoal by (auto intro!: keeps_intros simp: create_manager_def)
  subgoal unfolding login_live_def Let_def by (auto intro!: keeps_intros)
  subgoal unfolding delete_submit_def delete_steps_def by (auto intro!: keeps_intros split: sum.split bool.split)
  subgoal unfolding handleRevoke_def revoke_device_def fetchDevices_def by (auto intro!: keeps_intros split: sum.split)
  done

lemma typed_login [keeps_intros]: "keeps (on_db idb_ok) (handleLogin P h pw)"
  unfolding handleLogin_def Let_def by (auto intro!: keeps_intros split: resolve_result.split)

lemma typed_register_parts [keeps_intros]:
  "keeps (on_db idb_ok) (runPow P)" "keeps (on_db idb_ok) (obtain_proof P ref)"
  "keeps (on_db idb_ok) (derive_registration P pw)" "keeps (on_db idb_ok) (finish_register P ks res)"
proof -
  show p: "keeps (on_db idb_ok) (runPow P)" unfolding runPow_def by (auto intro!: keeps_intros)
  show "keeps (on_db idb_ok) (obtain_proof P ref)"
    unfolding obtain_proof_def by (auto intro!: keeps_intros p split: option.split sum.split)
  show "keeps (on_db idb_ok) (derive_registration P pw)" unfolding derive_registration_def by (auto intro!: keeps_intros)
  show "keeps (on_db idb_ok) (finish_register P ks res)" unfolding finish_register_def Let_def by (auto intro!: keeps_intros)
qed

lemma typed_register [keeps_intros]: "keeps (on_db idb_ok) (handleRegister P ref h pw)"
proof -
  have "keeps (on_db idb_ok) (register_steps P h salt ks pr r)" for salt ks pr r
    unfolding register_steps_def by (auto intro!: keeps_intros split: sum.split)
  then show ?thesis unfolding handleRegister_def by (auto intro!: keeps_intros split: sum.split)
qed

lemma typed_outbound [keeps_intros]:
  "keeps (on_db idb_ok) (current_outbound P self (on_created P d))"
  "keeps (on_db idb_ok) (share_envelopes P me to key conv k)" "keeps (on_db idb_ok) (message_envelopes P me to conv sid ct)"
  "keeps (on_db idb_ok) (persistOutbound P session)" "keeps (on_db idb_ok) (hasSharedWith P sid to)"
  "keeps (on_db idb_ok) (recordShare P sid to)"
  by (auto intro!: keeps_intros simp: current_outbound_def share_envelopes_def message_envelopes_def message_envelope_def
      seal_session_key_def key_share_envelope_def persistOutbound_def hasSharedWith_def recordShare_def Let_def)

lemma typed_send [keeps_intros]:
  "keeps (on_db idb_ok) (sendInnerPayload P self (on_created P d) me to key payload)"
  unfolding sendInnerPayload_def prepare_send_def Let_def by (auto intro!: keeps_intros)

lemma typed_media_payload [keeps_intros]: "keeps (on_db idb_ok) (media_payload P I s file caption)"
proof -
  have a: "keeps (on_db idb_ok) (all_of m n)" if "keeps (on_db idb_ok) m" "keeps (on_db idb_ok) n" for m :: "('a world, 'x) io" and n :: "('a world, 'y) io"
    using that by (auto simp: keeps_def all_of_def Let_def split: prod.split)
  have e: "keeps (on_db idb_ok) (encryptAndUpload P s b)" for b
    unfolding encryptAndUpload_def by (auto intro!: keeps_intros)
  have u: "keeps (on_db idb_ok) (upload_preview P s r)" for r
    unfolding upload_preview_def by (auto intro!: keeps_intros e split: option.split)
  have p: "keeps (on_db idb_ok) (prepareMediaForSend I file)"
    unfolding prepareMediaForSend_def getPhotoQuality_def
    by (auto intro!: keeps_intros split: photo_quality.split sum.split)
  show ?thesis unfolding media_payload_def by (auto intro!: keeps_intros a e u p)
qed

lemma typed_chat [keeps_intros]:
  "keeps (on_db idb_ok) (recipient P h)" "keeps (on_db idb_ok) (publish_chat P (hook_of P s hnd))"
  by (auto intro!: keeps_intros simp: recipient_def publish_chat_def hook_of_def)

lemma typed_handlers [keeps_intros]:
  "keeps (on_db idb_ok) (sendText P (hook_of P s h) text)" "keeps (on_db idb_ok) (sendMedia P I (hook_of P s h) file caption)"
  "keeps (on_db idb_ok) (amend P (hook_of P s h) i action body urls)" "keeps (on_db idb_ok) (cacheAfterLoad P I l b)"
proof -
  have c: "ch_created (hook_of P s h) = on_created P (deps_of s)" by (simp add: hook_of_def)
  show "keeps (on_db idb_ok) (sendText P (hook_of P s h) text)"
    unfolding sendText_def sendTextMessage_def c by (auto intro!: keeps_intros)
  show "keeps (on_db idb_ok) (sendMedia P I (hook_of P s h) file caption)"
    unfolding sendMedia_def c by (auto intro!: keeps_intros)
  show "keeps (on_db idb_ok) (amend P (hook_of P s h) i action body urls)"
    unfolding amend_def sendAmendment_def c drop_media_def by (auto intro!: keeps_intros split: option.split)
  show "keeps (on_db idb_ok) (cacheAfterLoad P I l b)"
    unfolding cacheAfterLoad_def put_entry_def toEntry_def lift_result_def
    by (auto intro!: keeps_intros split: cache_policy.split option.split sum.split)
qed

lemma typed_offline: "on_db idb_ok (snd st) \<Longrightarrow> on_db idb_ok (snd (offline_contact P s h e st))"
proof -
  assume a: "on_db idb_ok (snd st)"
  have "keeps (on_db idb_ok) (loadAllContacts P)" by (intro keeps_intros)
  from keepsD [OF this a] a show ?thesis
    by (auto simp: offline_contact_def split: js_error.split prod.split sum.split option.split)
qed

lemma typed_resolve: "on_db idb_ok w \<Longrightarrow> on_db idb_ok (snd (settle_resolve P s i (v, w)))"
proof -
  assume w: "on_db idb_ok w"
  have r: "resolve P h w = (x, w1) \<Longrightarrow> on_db idb_ok w1" for h x w1
    using keepsD [OF local_resolve [where Q = "\<lambda>d _ _. idb_ok d", folded on_db_local] w, of P h] by simp
  have sv: "on_db idb_ok w1 \<Longrightarrow> saveContact P u h w1 = (x, w2) \<Longrightarrow> on_db idb_ok w2" for u h x w1 w2
  proof -
    assume "on_db idb_ok w1" and *: "saveContact P u h w1 = (x, w2)"
    have "keeps (on_db idb_ok) (saveContact P u h)" by (intro keeps_intros)
    from keepsD [OF this \<open>on_db idb_ok w1\<close>] * show "on_db idb_ok w2" by simp
  qed
  have up: "keeps (on_db idb_ok) (detached (uploadContacts P (se_token s) (se_userId s) (se_backupKey s) (se_keyVersion s)) (\<lambda>_. ret ()))"
    by (intro keeps_intros)
  have up': "on_db idb_ok (snd (detached (uploadContacts P (se_token s) (se_userId s) (se_backupKey s) (se_keyVersion s)) (\<lambda>_. ret ()) w2))"
    if "on_db idb_ok w2" for w2
    by (rule keepsD [OF up that])
  show ?thesis
  proof (cases "map_of (cv_resolving v) i")
    case (Some h)
    obtain x w1 where x: "resolve P h w = (x, w1)" by fastforce
    obtain y w2 where y: "\<And>live. x = Inr (Live live) \<Longrightarrow> saveContact P (rl_user_id live) h w1 = (y, w2)"
      by (metis old.prod.exhaust resolve_result.inject(1) sum.inject(2))
    have ok: "on_db idb_ok w1" by (rule r [OF x])
    then have ok2: "x = Inr (Live live) \<Longrightarrow> on_db idb_ok w2" for live using sv y by blast
    show ?thesis
      using Some x y ok ok2 up'
      by (auto simp: settle_resolve_def Let_def intro!: typed_offline split: sum.split resolve_result.split)
  qed (use w in \<open>simp add: settle_resolve_def\<close>)
qed

lemma typed_refresh: "on_db idb_ok w \<Longrightarrow> on_db idb_ok (snd (settle_refresh P s i (v, w)))"
proof -
  assume w: "on_db idb_ok w"
  have k: "keeps (on_db idb_ok) (getConversationLastRead P c)" "keeps (on_db idb_ok) (loadMessages P u)"
    "keeps (on_db idb_ok) (markConversationRead P c t)" for c u t
    by (intro keeps_intros)+
  have e: "getConversationLastRead P c w = (x, w1) \<Longrightarrow> on_db idb_ok w1" "loadMessages P u w = (y, w1) \<Longrightarrow> on_db idb_ok w1"
    "markConversationRead P c t w = (z, w1) \<Longrightarrow> on_db idb_ok w1" for c u t w1 x y z
    using keepsD [OF k(1) w, of c] keepsD [OF k(2) w, of u] keepsD [OF k(3) w, of c t] by simp_all
  show ?thesis
    using w by (auto simp: settle_refresh_def Let_def dest: e split: option.split prod.split sum.split refresh_phase.split)
qed

lemma typed_effect: "keeps (on_db idb_ok) m \<Longrightarrow> on_db idb_ok w \<Longrightarrow> on_db idb_ok (effect_of m w)"
  unfolding effect_of_def by (rule keepsD)

lemma run_action_typed: "on_db idb_ok w \<Longrightarrow> on_db idb_ok (run_action P I a w)"
  by (cases "(P, I, a)" rule: run_action.cases)
    (simp_all only: run_action.simps prod.inject editMessage_def deleteMessage_def,
     (assumption | intro conjI typed_refresh typed_resolve typed_effect keeps_intros)+)

text \<open>Whatever a user does of these actions, in whatever order, with whatever session, and however the
  network answers and the transactions commit or abort, every object store of the database holds every
  record under its own key, once, and its keys in order: the form in which the lemmas of the components
  assume the database.\<close>

lemma client_keeps_database_typed:
  "idb_ok (w_db (fold (run_action P I) actions (w\<lparr>w_db := empty_idb\<rparr>)))"
proof -
  have "on_db idb_ok (fold (run_action P I) actions w)" if "on_db idb_ok w" for w
    using that by (induction actions arbitrary: w) (simp_all add: run_action_typed)
  then show ?thesis by (simp add: on_db_def idb_ok_empty)
qed

end
