(* ===== verification/Worker.thy ===== *)
theory Worker
  imports Auth
begin

text \<open>
  web/src/lib/argon2-worker.ts and argon2-worker.client.ts: the Argon2id worker, the correlation of
  its answers by id, and the idle timer that terminates it. The state is the client module's
  (\<open>worker\<close>, \<open>idleTimer\<close>, \<open>nextId\<close>, the listeners of the calls that wait) with the messages on
  their way to and from the current worker; a terminated worker takes its messages with it.
\<close>

section \<open>Messages\<close>

datatype argon2_job =
    Derive bytes bytes kdf_params
  | Pow bytes nat nat nat nat

datatype argon2_response = Secret bytes | Counter nat | Failure string

text \<open>The worker's handler.\<close>

definition worker_response :: "'n platform \<Rightarrow> argon2_job \<Rightarrow> argon2_response" where
  "worker_response P job = (case job of
      Pow nonce m t p bits \<Rightarrow> (case pl_pow P nonce m t p bits of Some c \<Rightarrow> Counter c | None \<Rightarrow> Failure ''pow'')
    | Derive password salt kdf \<Rightarrow>
        (case pl_argon2 P password salt (kdf_m kdf) (kdf_t kdf) (kdf_p kdf) of
           Some s \<Rightarrow> Secret s | None \<Rightarrow> Failure ''argon2''))"

text \<open>What the promises of \<open>argonStretch\<close> and \<open>solvePow\<close> settle to.\<close>

definition secret_of :: "argon2_response \<Rightarrow> js_error + bytes" where
  "secret_of res = (case res of Secret s \<Rightarrow> Inr s | Counter _ \<Rightarrow> Inl (JsError ''unexpected worker response'')
     | Failure m \<Rightarrow> Inl (JsError m))"

definition counter_of :: "argon2_response \<Rightarrow> js_error + nat" where
  "counter_of res = (case res of Counter c \<Rightarrow> Inr c | Secret _ \<Rightarrow> Inl (JsError ''unexpected worker response'')
     | Failure m \<Rightarrow> Inl (JsError m))"

section \<open>The client\<close>

record worker_state =
  wk_alive :: bool
  wk_timer :: bool
  wk_nextId :: nat
  wk_waiting :: "nat list"
  wk_inbox :: "(nat \<times> argon2_job) list"
  wk_outbox :: "(nat \<times> argon2_response) list"
  wk_settled :: "(nat \<times> argon2_response) list"
  wk_calls :: "(nat \<times> argon2_job) list"

definition worker_init :: worker_state where
  "worker_init = \<lparr>wk_alive = False, wk_timer = False, wk_nextId = 0, wk_waiting = [], wk_inbox = [], wk_outbox = [],
     wk_settled = [], wk_calls = []\<rparr>"

text \<open>\<open>getWorker\<close>: the idle timer is cleared, a worker is made if there is none.\<close>

definition getWorker :: "worker_state \<Rightarrow> worker_state" where
  "getWorker st = (if wk_alive st then st\<lparr>wk_timer := False\<rparr>
     else st\<lparr>wk_timer := False, wk_alive := True, wk_inbox := [], wk_outbox := []\<rparr>)"

definition scheduleShutdown :: "worker_state \<Rightarrow> worker_state" where
  "scheduleShutdown st = st\<lparr>wk_timer := True\<rparr>"

text \<open>The idle timer fires: \<open>worker?.terminate()\<close>.\<close>

definition idle_shutdown :: "worker_state \<Rightarrow> worker_state" where
  "idle_shutdown st = st\<lparr>wk_alive := False, wk_timer := False, wk_inbox := [], wk_outbox := []\<rparr>"

text \<open>A call: it takes the next id, adds its listener and posts its request.\<close>

definition runWorker :: "argon2_job \<Rightarrow> worker_state \<Rightarrow> worker_state" where
  "runWorker job st =
     (let i = wk_nextId st; st' = getWorker (st\<lparr>wk_nextId := i + 1\<rparr>) in
      st'\<lparr>wk_waiting := wk_waiting st' @ [i], wk_inbox := wk_inbox st' @ [(i, job)], wk_calls := wk_calls st' @ [(i, job)]\<rparr>)"

text \<open>The listener of the call \<open>i\<close> receives its answer.\<close>

definition on_message :: "nat \<times> argon2_response \<Rightarrow> worker_state \<Rightarrow> worker_state" where
  "on_message msg st =
     (if fst msg \<notin> set (wk_waiting st) then st
      else scheduleShutdown (st\<lparr>wk_waiting := removeAll (fst msg) (wk_waiting st), wk_settled := wk_settled st @ [msg]\<rparr>))"

text \<open>A queue of messages less its \<open>k\<close>th.\<close>

definition without :: "nat \<Rightarrow> 'a list \<Rightarrow> 'a list" where
  "without k xs = take k xs @ drop (Suc k) xs"

lemma without_0 [simp]: "without 0 (x # xs) = xs"
  by (simp add: without_def)

lemma set_without: "set (without k xs) \<subseteq> set xs"
  using set_take_subset set_drop_subset by (fastforce simp: without_def)

definition has_id :: "nat \<Rightarrow> (nat \<times> 'a) list \<Rightarrow> bool" where
  "has_id i msgs \<longleftrightarrow> i \<in> fst ` set msgs"

lemma has_id_simps [simp]:
  "\<not> has_id i []" "has_id i (xs @ ys) \<longleftrightarrow> has_id i xs \<or> has_id i ys" "has_id i (m # xs) \<longleftrightarrow> i = fst m \<or> has_id i xs"
  by (auto simp: has_id_def)

lemma has_idI: "(i, x) \<in> set msgs \<Longrightarrow> has_id i msgs"
  by (force simp: has_id_def)

lemma has_idE: "has_id i msgs \<Longrightarrow> \<exists>x. (i, x) \<in> set msgs"
  by (auto simp: has_id_def)

lemma ids_without: "has_id i (without k xs) \<Longrightarrow> has_id i xs"
  using set_without [of k xs] unfolding has_id_def by blast

lemma ids_without_keep:
  assumes "has_id i xs" and "k < length xs" and "fst (xs ! k) \<noteq> i"
  shows "has_id i (without k xs)"
proof -
  have "xs = take k xs @ xs ! k # drop (Suc k) xs" using assms(2) by (rule id_take_nth_drop)
  then have "set xs = insert (xs ! k) (set (without k xs))"
    unfolding without_def by (metis Un_insert_right list.simps(15) set_append)
  then show ?thesis using assms(1,3) by (auto simp: has_id_def)
qed

datatype worker_event = Call argon2_job | Work nat | Deliver nat | IdleTimeout

inductive worker_step :: "'n platform \<Rightarrow> worker_state \<Rightarrow> worker_event \<Rightarrow> worker_state \<Rightarrow> bool" for P where
  call: "worker_step P st (Call job) (runWorker job st)"
| work: "k < length (wk_inbox st) \<Longrightarrow> wk_inbox st ! k = (i, job) \<Longrightarrow>
    worker_step P st (Work k) (st\<lparr>wk_inbox := without k (wk_inbox st),
      wk_outbox := wk_outbox st @ [(i, worker_response P job)]\<rparr>)"
| deliver: "k < length (wk_outbox st) \<Longrightarrow>
    worker_step P st (Deliver k) (on_message (wk_outbox st ! k)
      (st\<lparr>wk_outbox := without k (wk_outbox st)\<rparr>))"
| idle: "wk_timer st \<Longrightarrow> worker_step P st IdleTimeout (idle_shutdown st)"

inductive_cases call_stepE: "worker_step P st (Call job) st'"
inductive_cases work_stepE: "worker_step P st (Work k) st'"
inductive_cases deliver_stepE: "worker_step P st (Deliver k) st'"
inductive_cases idle_stepE: "worker_step P st IdleTimeout st'"

inductive worker_run :: "'n platform \<Rightarrow> worker_state \<Rightarrow> worker_event list \<Rightarrow> worker_state \<Rightarrow> bool" for P where
  none: "worker_run P st [] st"
| more: "worker_run P st evs st1 \<Longrightarrow> worker_step P st1 ev st2 \<Longrightarrow> worker_run P st (evs @ [ev]) st2"

section \<open>Answers are not crossed\<close>

definition answers :: "'n platform \<Rightarrow> (nat \<times> argon2_job) list \<Rightarrow> nat \<times> argon2_response \<Rightarrow> bool" where
  "answers P calls msg \<longleftrightarrow> (\<exists>job. (fst msg, job) \<in> set calls \<and> snd msg = worker_response P job)"

definition worker_inv :: "'n platform \<Rightarrow> worker_state \<Rightarrow> bool" where
  "worker_inv P st \<longleftrightarrow> distinct (map fst (wk_calls st)) \<and> (\<forall>c \<in> set (wk_calls st). fst c < wk_nextId st)
     \<and> set (wk_inbox st) \<subseteq> set (wk_calls st)
     \<and> (\<forall>m \<in> set (wk_outbox st) \<union> set (wk_settled st). answers P (wk_calls st) m)
     \<and> distinct (wk_waiting st) \<and> distinct (map fst (wk_settled st))
     \<and> set (wk_waiting st) \<inter> fst ` set (wk_settled st) = {}
     \<and> set (wk_waiting st) \<union> fst ` set (wk_settled st) = fst ` set (wk_calls st)"

lemma answers_snoc: "answers P calls m \<Longrightarrow> answers P (calls @ [c]) m"
  by (auto simp: answers_def)

lemma worker_inv_init: "worker_inv P worker_init"
  by (simp add: worker_inv_def worker_init_def)

lemma worker_inv_call:
  assumes "worker_inv P st"
  shows "worker_inv P (runWorker job st)"
proof -
  have f: "wk_nextId st \<notin> fst ` set (wk_calls st)" using assms by (auto simp: worker_inv_def)
  have s: "wk_nextId st \<notin> fst ` set (wk_settled st)" "wk_nextId st \<notin> set (wk_waiting st)"
    using f assms by (auto simp: worker_inv_def)
  show ?thesis
    using assms f s
    unfolding worker_inv_def runWorker_def getWorker_def Let_def
    by (auto simp: less_SucI intro: answers_snoc split: if_splits)
qed

lemma worker_inv_work:
  assumes "worker_inv P st" and "k < length (wk_inbox st)" and "wk_inbox st ! k = (i, job)"
  shows "worker_inv P (st\<lparr>wk_inbox := without k (wk_inbox st),
      wk_outbox := wk_outbox st @ [(i, worker_response P job)]\<rparr>)"
proof -
  have "(i, job) \<in> set (wk_inbox st)" using assms(2,3) nth_mem by metis
  then have "answers P (wk_calls st) (i, worker_response P job)"
    using assms(1) by (auto simp: worker_inv_def answers_def)
  then show ?thesis using assms(1) set_without [of k "wk_inbox st"] by (auto simp: worker_inv_def)
qed

lemma worker_inv_deliver:
  assumes "worker_inv P st" and "k < length (wk_outbox st)"
  shows "worker_inv P (on_message (wk_outbox st ! k) (st\<lparr>wk_outbox := without k (wk_outbox st)\<rparr>))"
proof -
  let ?m = "wk_outbox st ! k"
  have m: "answers P (wk_calls st) ?m" using assms by (auto simp: worker_inv_def)
  have o': "\<forall>x \<in> set (without k (wk_outbox st)). answers P (wk_calls st) x"
    using assms(1) set_without [of k "wk_outbox st"] by (auto simp: worker_inv_def)
  have "worker_inv P (st\<lparr>wk_outbox := without k (wk_outbox st)\<rparr>)"
    using assms(1) o' by (auto simp: worker_inv_def)
  then show ?thesis
    using m by (auto simp: worker_inv_def on_message_def scheduleShutdown_def distinct_removeAll)
qed

lemma worker_inv_step: "worker_step P st ev st' \<Longrightarrow> worker_inv P st \<Longrightarrow> worker_inv P st'"
proof (induction rule: worker_step.induct)
  case (idle st)
  then show ?case by (auto simp: worker_inv_def idle_shutdown_def)
qed (auto intro: worker_inv_call worker_inv_work worker_inv_deliver)

lemma worker_inv_run: "worker_run P st evs st' \<Longrightarrow> worker_inv P st \<Longrightarrow> worker_inv P st'"
  by (induction rule: worker_run.induct) (auto intro: worker_inv_step)

text \<open>C11: overlapping calls do not cross their results. However calls, work, answers and idle timeouts
  interleave, every call has its own id and is either waiting or settled, once; and it is settled with
  the worker's answer to its own request, so \<open>argonStretch\<close> gives the secret of its own password
  and salt, and \<open>solvePow\<close> the counter of its own challenge.\<close>

theorem worker_answers_not_crossed:
  assumes "worker_run P worker_init evs st"
  shows "distinct (map fst (wk_calls st)) \<and> distinct (map fst (wk_settled st))
    \<and> set (wk_waiting st) \<inter> fst ` set (wk_settled st) = {}
    \<and> set (wk_waiting st) \<union> fst ` set (wk_settled st) = fst ` set (wk_calls st)
    \<and> (\<forall>i res password salt kdf. (i, res) \<in> set (wk_settled st) \<and> (i, Derive password salt kdf) \<in> set (wk_calls st)
         \<longrightarrow> secret_of res = fst (argonStretch P password salt kdf w))
    \<and> (\<forall>i res c nonce. (i, res) \<in> set (wk_settled st) \<and> base64UrlDecode (pc_nonce c) = Some nonce
         \<and> (i, Pow nonce (pc_m c) (pc_t c) (pc_p c) (pc_bits c)) \<in> set (wk_calls st)
         \<longrightarrow> counter_of res = fst (solvePow P c w))"
proof -
  have inv: "worker_inv P st" by (rule worker_inv_run [OF assms worker_inv_init])
  have own: "res = worker_response P job" if "(i, res) \<in> set (wk_settled st)" "(i, job) \<in> set (wk_calls st)" for i res job
  proof -
    have "answers P (wk_calls st) (i, res)" using inv that(1) unfolding worker_inv_def by blast
    then obtain job' where "(i, job') \<in> set (wk_calls st)" "res = worker_response P job'" by (auto simp: answers_def)
    moreover have "distinct (map fst (wk_calls st))" using inv by (simp add: worker_inv_def)
    ultimately show ?thesis using that(2) by (metis eq_key_imp_eq_value)
  qed
  have d: "secret_of (worker_response P (Derive pw salt kdf)) = fst (argonStretch P pw salt kdf w)" for pw salt kdf
    by (simp add: worker_response_def secret_of_def argonStretch_def or_throw_app split: option.split)
  have c: "counter_of (worker_response P (Pow nonce (pc_m c) (pc_t c) (pc_p c) (pc_bits c))) = fst (solvePow P c w)"
    if "base64UrlDecode (pc_nonce c) = Some nonce" for c nonce
    using that by (simp add: worker_response_def counter_of_def solvePow_def await_app or_throw_app split: option.split)
  show ?thesis using inv own d c unfolding worker_inv_def by blast
qed

section \<open>The idle timer\<close>

definition demo_overlap :: "'n platform \<Rightarrow> argon2_job \<Rightarrow> argon2_job \<Rightarrow> worker_state" where
  "demo_overlap P a b = \<lparr>wk_alive = False, wk_timer = False, wk_nextId = 2, wk_waiting = [1], wk_inbox = [], wk_outbox = [],
     wk_settled = [(0, worker_response P a)], wk_calls = [(0, a), (1, b)]\<rparr>"

lemma overlap_run:
  "worker_run P worker_init [Call a, Call b, Work 0, Deliver 0, IdleTimeout] (demo_overlap P a b)"
proof -
  let ?s = "\<lambda>inbox outbox waiting settled timer. \<lparr>wk_alive = True, wk_timer = timer, wk_nextId = 2, wk_waiting = waiting,
     wk_inbox = inbox, wk_outbox = outbox, wk_settled = settled, wk_calls = [(0, a), (1, b)]\<rparr>"
  have 1: "worker_run P worker_init [Call a] \<lparr>wk_alive = True, wk_timer = False, wk_nextId = 1, wk_waiting = [0],
     wk_inbox = [(0, a)], wk_outbox = [], wk_settled = [], wk_calls = [(0, a)]\<rparr>"
    using worker_run.more [OF worker_run.none worker_step.call, of P worker_init a]
    by (simp add: runWorker_def getWorker_def worker_init_def Let_def)
  have 2: "worker_run P worker_init [Call a, Call b] (?s [(0, a), (1, b)] [] [0, 1] [] False)"
    using worker_run.more [OF 1 worker_step.call, of b] by (simp add: runWorker_def getWorker_def Let_def numeral_2_eq_2)
  have 3: "worker_run P worker_init [Call a, Call b, Work 0] (?s [(1, b)] [(0, worker_response P a)] [0, 1] [] False)"
    using worker_run.more [OF 2 worker_step.work [of 0]] by simp
  have 4: "worker_run P worker_init [Call a, Call b, Work 0, Deliver 0] (?s [(1, b)] [] [1] [(0, worker_response P a)] True)"
    using worker_run.more [OF 3 worker_step.deliver [of 0]] by (simp add: on_message_def scheduleShutdown_def)
  show ?thesis
    using worker_run.more [OF 4 worker_step.idle] by (simp add: idle_shutdown_def demo_overlap_def)
qed

theorem worker_answers_not_crossed_witness:
  "\<exists>st. worker_run (quiet_platform :: unit platform) worker_init
      [Call (Derive ''pw'' ''salt'' \<lparr>kdf_m = 1, kdf_t = 1, kdf_p = 1\<rparr>), Call (Pow [] 1 1 1 0), Work 0, Deliver 0, IdleTimeout] st
    \<and> secret_of (snd (hd (wk_settled st))) = Inr ''pw''"
proof -
  let ?P = "quiet_platform :: unit platform" and ?k = "\<lparr>kdf_m = 1, kdf_t = 1, kdf_p = 1\<rparr>"
  let ?st = "demo_overlap ?P (Derive ''pw'' ''salt'' ?k) (Pow [] 1 1 1 0)"
  have "(0, worker_response ?P (Derive ''pw'' ''salt'' ?k)) \<in> set (wk_settled ?st)" "(0, Derive ''pw'' ''salt'' ?k) \<in> set (wk_calls ?st)"
    by (simp_all add: demo_overlap_def)
  with worker_answers_not_crossed [OF overlap_run, of ?P "Derive ''pw'' ''salt'' ?k" "Pow [] 1 1 1 0" quiet_world]
  have "secret_of (worker_response ?P (Derive ''pw'' ''salt'' ?k)) = fst (argonStretch ?P ''pw'' ''salt'' ?k quiet_world)"
    by blast
  then have "secret_of (snd (hd (wk_settled ?st))) = Inr ''pw''"
    by (simp add: demo_overlap_def argonStretch_def or_throw_app) (simp add: quiet_platform_def)
  with overlap_run show ?thesis by blast
qed

text \<open>A waiting call whose request and answer are gone stays unanswered.\<close>

definition stranded :: "nat \<Rightarrow> worker_state \<Rightarrow> bool" where
  "stranded i st \<longleftrightarrow> i < wk_nextId st \<and> \<not> has_id i (wk_inbox st) \<and> \<not> has_id i (wk_outbox st)
     \<and> \<not> has_id i (wk_settled st)"

lemma stranded_step: "worker_step P st ev st' \<Longrightarrow> stranded i st \<Longrightarrow> stranded i st'"
proof (induction rule: worker_step.induct)
  case (call st job)
  then show ?case by (auto simp: stranded_def runWorker_def getWorker_def Let_def)
next
  case (work k st j job)
  have "(j, job) \<in> set (wk_inbox st)" using work(1,2) nth_mem by metis
  then have "j \<noteq> i" using work(3) has_idI [of j job "wk_inbox st"] by (auto simp: stranded_def)
  then show ?case using work(3) ids_without [of i k "wk_inbox st"] by (auto simp: stranded_def)
next
  case (deliver k st)
  have "wk_outbox st ! k \<in> set (wk_outbox st)" using deliver(1) by simp
  then have "fst (wk_outbox st ! k) \<noteq> i"
    using deliver(2) has_idI [of _ "snd (wk_outbox st ! k)"] by (auto simp: stranded_def)
  then show ?case
    using deliver(2) ids_without [of i k "wk_outbox st"]
    by (auto simp: stranded_def on_message_def scheduleShutdown_def)
next
  case (idle st)
  then show ?case by (auto simp: stranded_def idle_shutdown_def)
qed

lemma stranded_run: "worker_run P st evs st' \<Longrightarrow> stranded i st \<Longrightarrow> stranded i st'"
  by (induction rule: worker_run.induct) (auto intro: stranded_step)

text \<open>C40: the idle timer can strand a call. An answer arms the timer whether or not another call is still
  waiting; when the other job takes longer than the ten seconds, the worker is terminated under it,
  and no continuation ever settles that call's promise.\<close>

theorem idle_shutdown_strands_call:
  "\<exists>st. worker_run P worker_init [Call a, Call b, Work 0, Deliver 0, IdleTimeout] st \<and> 1 \<in> set (wk_waiting st)
    \<and> (\<nexists>evs st' res. worker_run P st evs st' \<and> (1, res) \<in> set (wk_settled st'))"
proof (intro exI conjI)
  show "worker_run P worker_init [Call a, Call b, Work 0, Deliver 0, IdleTimeout] (demo_overlap P a b)" by (rule overlap_run)
  show "1 \<in> set (wk_waiting (demo_overlap P a b))" by (simp add: demo_overlap_def)
  have "stranded 1 (demo_overlap P a b)" by (simp add: stranded_def demo_overlap_def)
  then show "\<nexists>evs st' res. worker_run P (demo_overlap P a b) evs st' \<and> (1, res) \<in> set (wk_settled st')"
  proof (intro notI, elim exE conjE)
    fix evs st' res assume "worker_run P (demo_overlap P a b) evs st'" and s: "(1, res) \<in> set (wk_settled st')"
    from stranded_run [OF this(1) \<open>stranded 1 (demo_overlap P a b)\<close>] have "\<not> has_id 1 (wk_settled st')"
      by (simp add: stranded_def)
    with has_idI [OF s] show False by blast
  qed
qed

text \<open>Calls that do not overlap.\<close>

inductive serial_run :: "'n platform \<Rightarrow> worker_event list \<Rightarrow> worker_state \<Rightarrow> bool" for P where
  serial_none: "serial_run P [] worker_init"
| serial_more: "serial_run P evs st1 \<Longrightarrow> worker_step P st1 ev st2 \<Longrightarrow> (\<forall>job. ev = Call job \<longrightarrow> wk_waiting st1 = [])
    \<Longrightarrow> serial_run P (evs @ [ev]) st2"

definition serial_inv :: "worker_state \<Rightarrow> bool" where
  "serial_inv st \<longleftrightarrow> wk_waiting st = [] \<or> (\<exists>i. wk_waiting st = [i] \<and> \<not> wk_timer st
     \<and> (has_id i (wk_inbox st) \<or> has_id i (wk_outbox st)))"

lemma serial_inv_step:
  assumes "worker_step P st ev st'" and "serial_inv st" and "\<forall>job. ev = Call job \<longrightarrow> wk_waiting st = []"
  shows "serial_inv st'"
  using assms
proof (induction rule: worker_step.induct)
  case (call st job)
  then show ?case by (auto simp: serial_inv_def runWorker_def getWorker_def Let_def)
next
  case (work k st j job)
  show ?case
  proof (cases "wk_waiting st = []")
    case False
    then obtain i where i: "wk_waiting st = [i]" "\<not> wk_timer st" "has_id i (wk_inbox st) \<or> has_id i (wk_outbox st)"
      using work(3) by (auto simp: serial_inv_def)
    have "i = j \<or> has_id i (without k (wk_inbox st)) \<or> has_id i (wk_outbox st)"
      using i(3) ids_without_keep [OF _ work(1), of i] work(2) by auto
    with i(1,2) show ?thesis by (auto simp: serial_inv_def)
  qed (simp add: serial_inv_def)
next
  case (deliver k st)
  show ?case
  proof (cases "wk_waiting st = [fst (wk_outbox st ! k)] \<or> wk_waiting st = []")
    case True
    then show ?thesis by (auto simp: serial_inv_def on_message_def scheduleShutdown_def)
  next
    case False
    then obtain i where i: "wk_waiting st = [i]" "\<not> wk_timer st" "i \<noteq> fst (wk_outbox st ! k)"
        "has_id i (wk_inbox st) \<or> has_id i (wk_outbox st)"
      using deliver(2) unfolding serial_inv_def by auto
    have "has_id i (wk_inbox st) \<or> has_id i (without k (wk_outbox st))"
      using i(4) ids_without_keep [OF _ deliver(1), of i] i(3) by auto
    then show ?thesis using i(1-3) by (auto simp: serial_inv_def on_message_def)
  qed
next
  case (idle st)
  then show ?case by (auto simp: serial_inv_def idle_shutdown_def)
qed

lemma serial_run_inv: "serial_run P evs st \<Longrightarrow> serial_inv st"
proof (induction rule: serial_run.induct)
  case serial_none
  then show ?case by (simp add: serial_inv_def worker_init_def)
qed (auto intro: serial_inv_step)

lemma delivered:
  assumes "wk_waiting st = [i]" and "(i, res) \<in> set (wk_outbox st)"
  shows "\<exists>k st'. worker_step P st (Deliver k) st' \<and> (i, res) \<in> set (wk_settled st')"
proof -
  obtain k where k: "k < length (wk_outbox st)" "wk_outbox st ! k = (i, res)" using assms(2) by (metis in_set_conv_nth)
  let ?st = "on_message (wk_outbox st ! k) (st\<lparr>wk_outbox := without k (wk_outbox st)\<rparr>)"
  have "worker_step P st (Deliver k) ?st" using k(1) by (rule worker_step.deliver)
  moreover have "(i, res) \<in> set (wk_settled ?st)" using assms(1) k(2) by (simp add: on_message_def scheduleShutdown_def)
  ultimately show ?thesis by blast
qed

text \<open>Calls made one at a time are always answered. When a call is only made once the one before it has
  settled, the timer never runs under a waiting call, and from every state at most two steps, the work
  and the delivery, settle the call that waits.\<close>

lemma serial_calls_are_answered:
  assumes "serial_run P evs st" and "i \<in> set (wk_waiting st)"
  shows "\<not> wk_timer st \<and> (\<exists>evs' st' res. length evs' \<le> 2 \<and> worker_run P st evs' st' \<and> (i, res) \<in> set (wk_settled st'))"
proof -
  have i: "wk_waiting st = [i]" "\<not> wk_timer st" "has_id i (wk_inbox st) \<or> has_id i (wk_outbox st)"
    using serial_run_inv [OF assms(1)] assms(2) unfolding serial_inv_def by auto
  show ?thesis
  proof (cases "has_id i (wk_outbox st)")
    case True
    then obtain res where "(i, res) \<in> set (wk_outbox st)" using has_idE by blast
    then obtain k st' where "worker_step P st (Deliver k) st'" and s: "(i, res) \<in> set (wk_settled st')"
      using delivered [OF i(1), of res P] by blast
    from worker_run.more [OF worker_run.none this(1)] have "worker_run P st [Deliver k] st'" by simp
    with i(2) s show ?thesis by (intro conjI exI [of _ "[Deliver k]"] exI) auto
  next
    case False
    then obtain job where "(i, job) \<in> set (wk_inbox st)" using i(3) has_idE by blast
    then obtain k where k: "k < length (wk_inbox st)" "wk_inbox st ! k = (i, job)" by (metis in_set_conv_nth)
    let ?st = "st\<lparr>wk_inbox := without k (wk_inbox st),
      wk_outbox := wk_outbox st @ [(i, worker_response P job)]\<rparr>"
    have w: "worker_step P st (Work k) ?st" using k by (rule worker_step.work)
    obtain k2 st2 where d: "worker_step P ?st (Deliver k2) st2" "(i, worker_response P job) \<in> set (wk_settled st2)"
      using delivered [of ?st i "worker_response P job" P] i(1) by auto
    then have "worker_run P st ([] @ [Work k] @ [Deliver k2]) st2"
      using worker_run.more [OF worker_run.more [OF worker_run.none w]] by simp
    with d(2) i(2) show ?thesis by (intro conjI exI [of _ "[Work k, Deliver k2]"] exI) auto
  qed
qed

end
