(* ===== verification/Schema.thy ===== *)
theory Schema
  imports Idb
begin

text \<open>
  \<open>openDB\<close> of web/src/lib/db.ts: the object stores and indexes the version-change handler creates
  when they are missing, whatever the older version had, followed by the version 10 backfill of
  theory Idb.
\<close>

datatype key_path = OutOfLine | KeyPath "string list"

record store_schema =
  ss_keyPath :: key_path
  ss_indexes :: "(string \<times> string list) list"

definition plain_store :: "string \<Rightarrow> store_schema" where
  "plain_store k = \<lparr>ss_keyPath = KeyPath [k], ss_indexes = []\<rparr>"

definition ensure_store :: "string \<Rightarrow> store_schema \<Rightarrow> (string \<times> store_schema) list \<Rightarrow> (string \<times> store_schema) list" where
  "ensure_store name sch database = (if map_has name database then database else database @ [(name, sch)])"

definition store_definitions :: "(string \<times> store_schema) list" where
  "store_definitions =
     [(''keys'', \<lparr>ss_keyPath = OutOfLine, ss_indexes = []\<rparr>),
      (''messages'', \<lparr>ss_keyPath = KeyPath [''id''],
         ss_indexes = [(''userId'', [''userId'']), (''timestamp'', [''timestamp'']),
           (''userId_timestamp'', [''userId'', ''timestamp'']), (''fromUser'', [''fromUser''])]\<rparr>),
      (''conversations'', \<lparr>ss_keyPath = KeyPath [''conversationId''],
         ss_indexes = [(''lastMessageTimestamp'', [''lastMessageTimestamp''])]\<rparr>),
      (''contacts'', plain_store ''userId''),
      (''megolm_outbound'', plain_store ''id''),
      (''megolm_inbound'', plain_store ''sessionId''),
      (''megolm_key_shares'', \<lparr>ss_keyPath = KeyPath [''sessionId'', ''recipientUserId''], ss_indexes = []\<rparr>),
      (''sync_cursors'', plain_store ''prefix''),
      (''backup_keys_by_version'', \<lparr>ss_keyPath = OutOfLine, ss_indexes = []\<rparr>),
      (''pending_key_backups'', plain_store ''sessionId''),
      (''ingested_archives'', plain_store ''key''),
      (''media_cache'', plain_store ''url'')]"

definition onupgradeneeded :: "nat \<Rightarrow> (string \<times> store_schema) list \<times> idb \<Rightarrow> (string \<times> store_schema) list \<times> idb" where
  "onupgradeneeded oldVersion = (\<lambda>(database, d).
     (fold (\<lambda>(n, s). ensure_store n s) store_definitions database, upgrade_v10 oldVersion d))"

lemma ensure_store_map: "map_of (ensure_store n s db) m = (if m = n \<and> \<not> map_has n db then Some s else map_of db m)"
  by (auto simp: ensure_store_def map_has_def map_add_def split: option.splits)

lemma ensure_all:
  "distinct (map fst ds) \<Longrightarrow> map_of (fold (\<lambda>(n, s). ensure_store n s) ds db) m =
     (case map_of db m of Some x \<Rightarrow> Some x | None \<Rightarrow> map_of ds m)"
proof (induction ds arbitrary: db)
  case (Cons d ds)
  obtain n s where d: "d = (n, s)" by force
  have "map_of ds n = None" using Cons.prems d by (simp add: map_of_eq_None_iff)
  then show ?case
    using Cons by (auto simp: d ensure_store_map map_has_def split: option.splits)
qed (simp split: option.splits)

lemma store_definitions_distinct: "distinct (map fst store_definitions)"
  by (simp add: store_definitions_def)

text \<open>After the upgrade from any older database every object store of the current version
  exists, a store that already existed keeps its definition, no other store appears, and running
  the upgrade again changes nothing.\<close>

lemma upgrade_complete:
  "map_of (fst (onupgradeneeded v (database, d))) n =
     (case map_of database n of Some s \<Rightarrow> Some s | None \<Rightarrow> map_of store_definitions n)
   \<and> map_of (fst (onupgradeneeded v' (onupgradeneeded v (database, d)))) n =
     map_of (fst (onupgradeneeded v (database, d))) n"
  by (simp add: onupgradeneeded_def case_prod_beta ensure_all store_definitions_distinct split: option.splits)

text \<open>The version 10 upgrade shows a returning user no old message as new: every conversation row
  of a database older than version 10 has a watermark afterwards, the row's last message time where
  it had none, and the database stays well formed; a database of version 10 is untouched.\<close>

lemma upgrade_backfills_watermarks:
  assumes "idb_ok d"
  shows "idb_ok (upgrade_v10 v d)
    \<and> (10 \<le> v \<longrightarrow> upgrade_v10 v d = d)
    \<and> (v < 10 \<longrightarrow> db_conversations (upgrade_v10 v d) =
         map (\<lambda>(k, row). (k, row\<lparr>sc_lastReadTimestamp :=
           Some (opt_or (sc_lastReadTimestamp row) (sc_lastMessageTimestamp row))\<rparr>)) (db_conversations d))"
  using upgrade_v10_ok [OF assms] by (auto simp: upgrade_v10_def split: option.splits)

end
