(* ===== verification/Timeline.thy ===== *)
theory Timeline
  imports ChatOpen
begin

text \<open>
  web/src/lib/timeline.ts, and the parts of web/src/components/ChatView.tsx and ChatMessage.tsx that say
  when something happened: the day dividers, the \<open>New\<close> divider and the tag of an edited message. A
  \<open>Date\<close> is read through its local getters, so it is a calendar date; the time zone that gives the date
  of a timestamp is a parameter.
\<close>

section \<open>Calendar dates\<close>

record local_date =
  cal_year :: int
  cal_month :: int
  cal_day :: int

definition MONTHS :: "string list" where
  "MONTHS = [''January'', ''February'', ''March'', ''April'', ''May'', ''June'', ''July'', ''August'',
     ''September'', ''October'', ''November'', ''December'']"

definition pad2 :: "string \<Rightarrow> string" where
  "pad2 s = replicate (2 - length s) (CHR ''0'') @ s"

definition dayKey :: "local_date \<Rightarrow> string" where
  "dayKey d = show_int (cal_year d) @ ''-'' @ pad2 (show_int (cal_month d + 1)) @ ''-'' @ pad2 (show_int (cal_day d))"

text \<open>The \<open>Date\<close> constructor of the language: a year below 100 is one of the twentieth century, and the
  day 0 of a month is the last one of the month before. Months count from 0.\<close>

definition leap_year :: "int \<Rightarrow> bool" where
  "leap_year y \<longleftrightarrow> y mod 4 = 0 \<and> (y mod 100 \<noteq> 0 \<or> y mod 400 = 0)"

definition month_days :: "int \<Rightarrow> int \<Rightarrow> int" where
  "month_days y m = (if m = 1 then (if leap_year y then 29 else 28) else if m \<in> {3, 5, 8, 10} then 30 else 31)"

definition full_year :: "int \<Rightarrow> int" where
  "full_year y = (if 0 \<le> y \<and> y \<le> 99 then 1900 + y else y)"

definition dayBefore :: "local_date \<Rightarrow> local_date" where
  "dayBefore now =
     (let y = full_year (cal_year now) in
      if cal_day now > 1 then \<lparr>cal_year = y, cal_month = cal_month now, cal_day = cal_day now - 1\<rparr>
      else if cal_month now > 0
        then \<lparr>cal_year = y, cal_month = cal_month now - 1, cal_day = month_days y (cal_month now - 1)\<rparr>
      else \<lparr>cal_year = y - 1, cal_month = 11, cal_day = month_days (y - 1) 11\<rparr>)"

definition dayLabel :: "local_date \<Rightarrow> local_date \<Rightarrow> string" where
  "dayLabel d now =
     (if dayKey d = dayKey now then ''Today''
      else if dayKey d = dayKey (dayBefore now) then ''Yesterday''
      else let label = show_int (cal_day d) @ '' '' @ MONTHS ! nat (cal_month d) in
        if cal_year d = cal_year now then label else label @ '' '' @ show_int (cal_year d))"

section \<open>A label names one day\<close>

definition day_range :: "local_date \<Rightarrow> bool" where
  "day_range d \<longleftrightarrow> 0 \<le> cal_month d \<and> cal_month d < 12 \<and> 1 \<le> cal_day d \<and> cal_day d \<le> 31"

definition real_date :: "local_date \<Rightarrow> bool" where
  "real_date d \<longleftrightarrow> 100 \<le> cal_year d \<and> 0 \<le> cal_month d \<and> cal_month d < 12 \<and> 1 \<le> cal_day d \<and> cal_day d \<le> month_days (cal_year d) (cal_month d)"

lemma month_days_bounds: "28 \<le> month_days y m \<and> month_days y m \<le> 31"
  by (simp add: month_days_def)

lemma real_range: "real_date d \<Longrightarrow> day_range d"
  using month_days_bounds [of "cal_year d" "cal_month d"] by (auto simp: real_date_def day_range_def)

lemma show_nat_inj: "show_nat m = show_nat n \<Longrightarrow> m = n"
  by (metis show_nat_props)

lemma show_int_inj: "show_int i = show_int j \<Longrightarrow> i = j"
proof -
  have p: "p_num (show_int k @ []) = Some (JNum (NInt k), [])" for k by (rule p_num_show_int) simp
  assume "show_int i = show_int j"
  with p [of i] p [of j] show "i = j" by simp
qed

lemma pad2_two: "0 \<le> i \<Longrightarrow> i < 100 \<Longrightarrow> length (pad2 (show_int i)) = 2"
proof -
  assume i: "0 \<le> i" "i < 100"
  have "show_nat n = (if n < 10 then [digit n] else [digit (n div 10), digit (n mod 10)])" if "n < 100" for n
    using that by (auto simp: show_nat.simps)
  with i show ?thesis by (simp add: pad2_def show_int_def)
qed

lemma pad2_inj:
  assumes "0 \<le> i" "i < 100" "0 \<le> j" "j < 100" and "pad2 (show_int i) = pad2 (show_int j)"
  shows "i = j"
proof -
  have n: "nat_of_digits (pad2 (show_int k)) = nat k" if "0 \<le> k" "k < 100" for k
  proof -
    have "nat_of_digits (CHR ''0'' # ds) = nat_of_digits ds" for ds
      by (simp add: nat_of_digits_def digit_val_def)
    then have "nat_of_digits (replicate m (CHR ''0'') @ ds) = nat_of_digits ds" for m ds
      by (induction m) simp_all
    then show ?thesis using that show_nat_props [of "nat k"] by (simp add: pad2_def show_int_def)
  qed
  from n [of i] n [of j] assms show ?thesis by simp
qed

lemma dayKey_inj:
  assumes "day_range a" "day_range b"
  shows "dayKey a = dayKey b \<longleftrightarrow> a = b"
proof
  assume k: "dayKey a = dayKey b"
  have r: "0 \<le> cal_month d + 1" "cal_month d + 1 < 100" "0 \<le> cal_day d" "cal_day d < 100" if "day_range d" for d
    using that by (auto simp: day_range_def)
  note ra = r [OF assms(1)] and rb = r [OF assms(2)]
  have "show_int (cal_year a) = show_int (cal_year b) \<and> pad2 (show_int (cal_month a + 1)) = pad2 (show_int (cal_month b + 1))
      \<and> pad2 (show_int (cal_day a)) = pad2 (show_int (cal_day b))"
    using k pad2_two [OF ra(1,2)] pad2_two [OF ra(3,4)] pad2_two [OF rb(1,2)] pad2_two [OF rb(3,4)]
    by (simp add: dayKey_def append_eq_append_conv)
  then have "cal_year a = cal_year b" "cal_month a + 1 = cal_month b + 1" "cal_day a = cal_day b"
    using show_int_inj pad2_inj ra rb by blast+
  then show "a = b" by simp
qed simp

text \<open>Dates in calendar order.\<close>

definition cal :: "local_date \<Rightarrow> int \<times> int \<times> int" where
  "cal d = (cal_year d, cal_month d, cal_day d)"

lemma cal_inj: "cal a = cal b \<longleftrightarrow> a = b"
  by (cases a; cases b) (simp add: cal_def)

lemma cal_less: "cal a < cal b \<longleftrightarrow> cal_year a < cal_year b \<or> cal_year a = cal_year b \<and>
    (cal_month a < cal_month b \<or> cal_month a = cal_month b \<and> cal_day a < cal_day b)"
  by (auto simp: cal_def)

lemma dayBefore_range: "day_range now \<Longrightarrow> day_range (dayBefore now)"
  using month_days_bounds [of "full_year (cal_year now)" "cal_month now - 1"] month_days_bounds [of "full_year (cal_year now) - 1" 11]
  by (simp add: day_range_def dayBefore_def Let_def)

lemma dayBefore_less: "100 \<le> cal_year now \<Longrightarrow> cal (dayBefore now) < cal now"
  by (auto simp: cal_less dayBefore_def Let_def full_year_def)

lemma dayBefore_greatest:
  assumes "real_date now" "real_date d" and "cal d < cal now"
  shows "\<not> cal (dayBefore now) < cal d"
proof -
  have y: "full_year (cal_year now) = cal_year now" using assms(1) by (simp add: full_year_def real_date_def)
  have n: "1 \<le> cal_day now" "0 \<le> cal_month now" "cal_month now < 12"
    and d: "cal_day d \<le> month_days (cal_year d) (cal_month d)" "0 \<le> cal_month d" "cal_month d < 12" "1 \<le> cal_day d"
    using assms(1,2) by (simp_all add: real_date_def)
  consider "cal_day now > 1" | "cal_day now = 1" "cal_month now > 0" | "cal_day now = 1" "cal_month now = 0"
    using n by linarith
  then show ?thesis
  proof cases
    case 1
    with assms(3) show ?thesis by (auto simp: cal_less dayBefore_def y Let_def)
  next
    case 2
    then have e: "cal_year (dayBefore now) = cal_year now" "cal_month (dayBefore now) = cal_month now - 1"
        "cal_day (dayBefore now) = month_days (cal_year now) (cal_month now - 1)"
      by (simp_all add: dayBefore_def y Let_def)
    have l: "cal_month d = cal_month now - 1 \<Longrightarrow> cal_year d = cal_year now \<Longrightarrow> cal_day d \<le> month_days (cal_year now) (cal_month now - 1)"
      using d(1) by simp
    have "cal_year d < cal_year now \<or> cal_year d = cal_year now \<and> cal_month d \<le> cal_month now - 1"
      using assms(3) d 2 by (auto simp: cal_less)
    then show ?thesis
    proof
      assume "cal_year d < cal_year now"
      then show ?thesis unfolding cal_less e by auto
    next
      assume "cal_year d = cal_year now \<and> cal_month d \<le> cal_month now - 1"
      with l show ?thesis unfolding cal_less e by (cases "cal_month d = cal_month now - 1") auto
    qed
  next
    case 3
    have "cal_year d < cal_year now" using assms(3) d 3 by (auto simp: cal_less)
    moreover have "cal_day d \<le> 31" using d(1) month_days_bounds [of "cal_year d" "cal_month d"] by linarith
    moreover have "dayBefore now = \<lparr>cal_year = cal_year now - 1, cal_month = 11, cal_day = 31\<rparr>"
      using 3 by (simp add: dayBefore_def y month_days_def)
    ultimately show ?thesis using d(2,3) by (auto simp: cal_less)
  qed
qed

lemma MONTHS_month:
  assumes "0 \<le> m" "m < 12"
  shows "CHR '' '' \<notin> set (MONTHS ! nat m)" "0 \<le> n \<Longrightarrow> n < 12 \<Longrightarrow> MONTHS ! nat m = MONTHS ! nat n \<Longrightarrow> m = n"
proof -
  have "distinct MONTHS" "length MONTHS = 12" "\<forall>x \<in> set MONTHS. CHR '' '' \<notin> set x" by (simp_all add: MONTHS_def)
  with assms show "CHR '' '' \<notin> set (MONTHS ! nat m)" "0 \<le> n \<Longrightarrow> n < 12 \<Longrightarrow> MONTHS ! nat m = MONTHS ! nat n \<Longrightarrow> m = n"
    by (auto simp: nth_eq_iff_index_eq)
qed

definition long_label :: "local_date \<Rightarrow> local_date \<Rightarrow> string" where
  "long_label d now = show_int (cal_day d) @ '' '' @ MONTHS ! nat (cal_month d)
     @ (if cal_year d = cal_year now then [] else '' '' @ show_int (cal_year d))"

lemma dayLabel_long: "dayLabel d now = (if dayKey d = dayKey now then ''Today''
    else if dayKey d = dayKey (dayBefore now) then ''Yesterday'' else long_label d now)"
  by (simp add: dayLabel_def long_label_def Let_def)

lemma show_int_digits: "0 \<le> i \<Longrightarrow> (\<forall>c \<in> set (show_int i). is_digit c) \<and> show_int i \<noteq> []"
  using show_nat_props [of "nat i"] by (simp add: show_int_def)

lemma long_label_head:
  assumes "day_range d"
  shows "is_digit (hd (long_label d now))"
  using show_int_digits [of "cal_day d"] assms by (simp add: long_label_def day_range_def)

lemma at_space: "CHR '' '' \<notin> set a \<Longrightarrow> CHR '' '' \<notin> set b \<Longrightarrow> a @ CHR '' '' # r = b @ CHR '' '' # s \<longleftrightarrow> a = b \<and> r = s"
proof (induction a arbitrary: b)
  case Nil
  then show ?case by (cases b) auto
next
  case (Cons c a)
  then show ?case by (cases b) auto
qed

lemma long_label_inj:
  assumes "day_range a" "day_range b" and l: "long_label a now = long_label b now"
  shows "a = b"
proof -
  have no: "CHR '' '' \<notin> set (show_int (cal_day d))" if "day_range d" for d
    using show_int_digits [of "cal_day d"] that by (auto simp: day_range_def is_digit_def)
  let ?t = "\<lambda>d. MONTHS ! nat (cal_month d) @ (if cal_year d = cal_year now then [] else '' '' @ show_int (cal_year d))"
  from l have d: "show_int (cal_day a) = show_int (cal_day b)" and t: "?t a = ?t b"
    using at_space [OF no [OF assms(1)] no [OF assms(2)]] by (simp_all add: long_label_def)
  have m: "CHR '' '' \<notin> set (MONTHS ! nat (cal_month a))" "CHR '' '' \<notin> set (MONTHS ! nat (cal_month b))"
    using assms MONTHS_month(1) by (simp_all add: day_range_def)
  have "MONTHS ! nat (cal_month a) = MONTHS ! nat (cal_month b) \<and> cal_year a = cal_year b"
  proof (cases "cal_year a = cal_year now"; cases "cal_year b = cal_year now")
    assume "cal_year a \<noteq> cal_year now" "cal_year b \<noteq> cal_year now"
    with t at_space [OF m] show ?thesis by (auto dest: show_int_inj)
  next
    assume "cal_year a = cal_year now" "cal_year b \<noteq> cal_year now"
    with t have "CHR '' '' \<in> set (MONTHS ! nat (cal_month a))" by simp
    with m show ?thesis by simp
  next
    assume "cal_year a \<noteq> cal_year now" "cal_year b = cal_year now"
    then have "CHR '' '' \<in> set (?t a)" "?t b = MONTHS ! nat (cal_month b)" by simp_all
    with t m show ?thesis by simp
  qed (use t in simp)
  then have "cal_month a = cal_month b" "cal_year a = cal_year b"
    using MONTHS_month(2) [of "cal_month a" "cal_month b"] assms(1,2) by (simp_all add: day_range_def)
  with show_int_inj [OF d] show "a = b" by simp
qed

lemma label_kind: "day_range d \<Longrightarrow> long_label d now \<noteq> ''Today'' \<and> long_label d now \<noteq> ''Yesterday''"
  using long_label_head [of d now] by (auto simp: is_digit_def)

lemma dayKey_now:
  assumes "real_date d" "real_date now"
  shows "dayKey d = dayKey now \<longleftrightarrow> d = now" "dayKey d = dayKey (dayBefore now) \<longleftrightarrow> d = dayBefore now"
  using assms by (auto intro!: dayKey_inj simp: real_range dayBefore_range)

lemma dayBefore_other: "real_date now \<Longrightarrow> dayBefore now \<noteq> now"
  using dayBefore_less [of now] by (auto simp: real_date_def)

lemma dayLabel_inj:
  assumes "real_date a" "real_date b" "real_date now"
  shows "dayLabel a now = dayLabel b now \<longleftrightarrow> a = b"
  using label_kind [OF real_range [OF assms(1)], of now] label_kind [OF real_range [OF assms(2)], of now]
    long_label_inj [OF real_range [OF assms(1)] real_range [OF assms(2)], of now] dayBefore_other [OF assms(3)]
  by (auto simp: dayLabel_long dayKey_now [OF assms(1,3)] dayKey_now [OF assms(2,3)])

lemma dayLabel_yesterday:
  assumes "real_date a" "real_date now"
  shows "dayLabel a now = ''Yesterday'' \<longleftrightarrow> a = dayBefore now"
  using label_kind [OF real_range [OF assms(1)], of now] dayBefore_other [OF assms(2)]
  by (auto simp: dayLabel_long dayKey_now [OF assms])

text \<open>C29: a divider names one day. Two real dates have the same label exactly when they are the same day,
  and \<open>Yesterday\<close> is the label of the last day before today, over the ends of months and years.\<close>

theorem dayLabel_names_day:
  assumes "real_date a" "real_date b" "real_date now"
  shows "(dayLabel a now = dayLabel b now \<longleftrightarrow> a = b) \<and> (dayLabel a now = ''Yesterday'' \<longleftrightarrow> a = dayBefore now)
    \<and> cal (dayBefore now) < cal now \<and> \<not> (cal (dayBefore now) < cal a \<and> cal a < cal now)"
  using dayLabel_inj [OF assms] dayLabel_yesterday [OF assms(1,3)] dayBefore_greatest [OF assms(3,1)]
    dayBefore_less [of now] assms(3)
  by (auto simp: real_date_def)

theorem dayLabel_names_day_witness:
  "dayLabel \<lparr>cal_year = 2024, cal_month = 1, cal_day = 29\<rparr> \<lparr>cal_year = 2024, cal_month = 2, cal_day = 1\<rparr> = ''Yesterday''
    \<and> ''Yesterday'' \<noteq> dayLabel \<lparr>cal_year = 2023, cal_month = 1, cal_day = 28\<rparr> \<lparr>cal_year = 2024, cal_month = 2, cal_day = 1\<rparr>"
proof -
  have r: "real_date \<lparr>cal_year = 2024, cal_month = 1, cal_day = 29\<rparr>" "real_date \<lparr>cal_year = 2023, cal_month = 1, cal_day = 28\<rparr>"
    "real_date \<lparr>cal_year = 2024, cal_month = 2, cal_day = 1\<rparr>"
    by (simp_all add: real_date_def month_days_def leap_year_def)
  have "dayBefore \<lparr>cal_year = 2024, cal_month = 2, cal_day = 1\<rparr> = \<lparr>cal_year = 2024, cal_month = 1, cal_day = 29\<rparr>"
    by (simp add: dayBefore_def full_year_def month_days_def leap_year_def)
  with dayLabel_names_day [OF r] show ?thesis by force
qed

section \<open>The dividers of a chat\<close>

definition firstUnreadId :: "int option \<Rightarrow> ui_message list \<Rightarrow> string option" where
  "firstUnreadId newBoundary messages =
     (case newBoundary of
        None \<Rightarrow> None
      | Some b \<Rightarrow> map_option um_id (find (\<lambda>m. \<not> um_sent m \<and> um_timestamp m > b) messages))"

text \<open>A row of the timeline: whether the \<open>New\<close> divider and which day divider precede the message.\<close>

record timeline_row =
  tr_new :: bool
  tr_day :: "string option"
  tr_msg :: ui_message

fun timeline_rows :: "(int \<Rightarrow> local_date) \<Rightarrow> local_date \<Rightarrow> string option \<Rightarrow> ui_message option \<Rightarrow> ui_message list \<Rightarrow> timeline_row list" where
  "timeline_rows z now first prev [] = []"
| "timeline_rows z now first prev (m # ms) =
     \<lparr>tr_new = (Some (um_id m) = first),
      tr_day = (if case prev of None \<Rightarrow> True | Some p \<Rightarrow> dayKey (z (um_timestamp m)) \<noteq> dayKey (z (um_timestamp p))
        then Some (dayLabel (z (um_timestamp m)) now) else None),
      tr_msg = m\<rparr> # timeline_rows z now first (Some m) ms"

definition chat_timeline :: "(int \<Rightarrow> local_date) \<Rightarrow> local_date \<Rightarrow> int option \<Rightarrow> ui_message list \<Rightarrow> timeline_row list" where
  "chat_timeline z now newBoundary messages = timeline_rows z now (firstUnreadId newBoundary messages) None messages"

definition day_labels :: "timeline_row list \<Rightarrow> string list" where
  "day_labels rows = List.map_filter tr_day rows"

lemma day_labels_simps [simp]:
  "day_labels [] = []" "day_labels (r # rs) = (case tr_day r of None \<Rightarrow> day_labels rs | Some l \<Rightarrow> l # day_labels rs)"
  by (simp_all add: day_labels_def List.map_filter_simps split: option.split)

lemma timeline_rows_fields:
  "map tr_msg (timeline_rows z now f prev ms) = ms" "length (timeline_rows z now f prev ms) = length ms"
  "map tr_new (timeline_rows z now f prev ms) = map (\<lambda>m. Some (um_id m) = f) ms"
  by (induction ms arbitrary: prev) simp_all

text \<open>The zone gives real dates, and later timestamps never have an earlier date.\<close>

definition zone_law :: "(int \<Rightarrow> local_date) \<Rightarrow> bool" where
  "zone_law z \<longleftrightarrow> (\<forall>t. real_date (z t)) \<and> (\<forall>t u. t \<le> u \<longrightarrow> cal (z t) \<le> cal (z u))"

definition label_of :: "(int \<Rightarrow> local_date) \<Rightarrow> local_date \<Rightarrow> ui_message \<Rightarrow> string" where
  "label_of z now m = dayLabel (z (um_timestamp m)) now"

lemma same_key: "zone_law z \<Longrightarrow> dayKey (z t) = dayKey (z u) \<longleftrightarrow> z t = z u"
  by (rule dayKey_inj) (simp_all add: zone_law_def real_range)

lemma labels_after:
  assumes "zone_law z" "real_date now" and "sorted (map um_timestamp (p # ms))"
  shows "\<exists>ds. day_labels (timeline_rows z now f (Some p) ms) = map (\<lambda>d. dayLabel d now) ds
    \<and> distinct ds \<and> (\<forall>d \<in> set ds. real_date d \<and> cal (z (um_timestamp p)) < cal d)"
  using assms(3)
proof (induction ms arbitrary: p)
  case (Cons m ms)
  then obtain ds where ds: "day_labels (timeline_rows z now f (Some m) ms) = map (\<lambda>d. dayLabel d now) ds"
      "distinct ds" "\<forall>d \<in> set ds. real_date d \<and> cal (z (um_timestamp m)) < cal d"
    by fastforce
  have le: "cal (z (um_timestamp p)) \<le> cal (z (um_timestamp m))" and r: "real_date (z (um_timestamp m))"
    using assms(1) Cons.prems by (simp_all add: zone_law_def)
  show ?case
  proof (cases "z (um_timestamp m) = z (um_timestamp p)")
    case True
    then show ?thesis using ds by (intro exI [of _ ds]) (simp add: same_key [OF assms(1)])
  next
    case False
    then have "cal (z (um_timestamp p)) < cal (z (um_timestamp m))" using le cal_inj by (metis order_le_less)
    with False ds r show ?thesis
      by (intro exI [of _ "z (um_timestamp m) # ds"]) (auto simp: same_key [OF assms(1)])
  qed
qed simp

lemma labels_distinct:
  assumes "zone_law z" "real_date now" and "sorted (map um_timestamp ms)"
    and inj: "\<And>a b. real_date a \<Longrightarrow> real_date b \<Longrightarrow> dayLabel a now = dayLabel b now \<Longrightarrow> a = b"
  shows "distinct (day_labels (timeline_rows z now f None ms))"
proof (cases ms)
  case (Cons m ms')
  obtain ds where ds: "day_labels (timeline_rows z now f (Some m) ms') = map (\<lambda>d. dayLabel d now) ds"
      "distinct ds" "\<forall>d \<in> set ds. real_date d \<and> cal (z (um_timestamp m)) < cal d"
    using labels_after [OF assms(1,2), of m ms' f] assms(3) Cons by blast
  have "day_labels (timeline_rows z now f None ms) = map (\<lambda>d. dayLabel d now) (z (um_timestamp m) # ds)"
    using Cons ds(1) by simp
  moreover have "distinct (z (um_timestamp m) # ds)" using ds(2,3) by auto
  moreover have "\<forall>d \<in> set (z (um_timestamp m) # ds). real_date d" using ds(3) assms(1) by (simp add: zone_law_def)
  then have "inj_on (\<lambda>d. dayLabel d now) (set (z (um_timestamp m) # ds))" by (intro inj_onI) (use inj in blast)
  ultimately show ?thesis by (simp only: distinct_map)
qed simp

lemma label_in_force:
  assumes "zone_law z" and "i < length ms"
  shows "last (map (label_of z now) (case prev of None \<Rightarrow> [] | Some p \<Rightarrow> [p])
      @ day_labels (take (Suc i) (timeline_rows z now f prev ms))) = label_of z now (ms ! i)"
  using assms(2)
proof (induction ms arbitrary: i prev)
  case (Cons m ms)
  let ?rows = "timeline_rows z now f prev (m # ms)"
  have here: "last (map (label_of z now) (case prev of None \<Rightarrow> [] | Some p \<Rightarrow> [p]) @ day_labels (take 1 ?rows)) = label_of z now m"
    by (cases prev) (auto simp: label_of_def same_key [OF assms(1)])
  show ?case
  proof (cases i)
    case (Suc j)
    with Cons.prems Cons.IH [of j "Some m"]
    have ih: "last (label_of z now m # day_labels (take (Suc j) (timeline_rows z now f (Some m) ms))) = label_of z now (ms ! j)"
      by simp
    have "day_labels (take (Suc i) ?rows) = day_labels (take 1 ?rows) @ day_labels (take (Suc j) (timeline_rows z now f (Some m) ms))"
      using Suc by (simp split: option.split)
    with here ih Suc show ?thesis by (simp add: last_append split: if_splits)
  qed (use here in simp)
qed simp

definition unseen :: "int option \<Rightarrow> ui_message \<Rightarrow> bool" where
  "unseen boundary m \<longleftrightarrow> (case boundary of None \<Rightarrow> False | Some b \<Rightarrow> \<not> um_sent m \<and> um_timestamp m > b)"

lemma firstUnread_first:
  assumes "distinct (map um_id ms)" and "i < length ms"
  shows "Some (um_id (ms ! i)) = firstUnreadId b ms \<longleftrightarrow> unseen b (ms ! i) \<and> (\<forall>j < i. \<not> unseen b (ms ! j))"
proof (cases b)
  case (Some t)
  let ?u = "\<lambda>m. \<not> um_sent m \<and> um_timestamp m > t"
  have same: "um_id (ms ! i) = um_id (ms ! j) \<longleftrightarrow> i = j" if "j < length ms" for j
    using assms that nth_eq_iff_index_eq [of "map um_id ms" i j] by simp
  have u: "unseen b = ?u" by (simp add: Some unseen_def fun_eq_iff)
  show ?thesis
  proof (cases "find ?u ms")
    case None
    then have "\<forall>m \<in> set ms. \<not> ?u m" by (simp add: find_None_iff)
    with assms(2) have "\<not> ?u (ms ! i)" by simp
    with None show ?thesis unfolding u by (auto simp: firstUnreadId_def Some)
  next
    case (Some m)
    then obtain j where j: "j < length ms" "?u (ms ! j)" "m = ms ! j" "\<forall>k < j. \<not> ?u (ms ! k)"
      by (auto simp: find_Some_iff)
    with Some \<open>b = Some t\<close> have "Some (um_id (ms ! i)) = firstUnreadId b ms \<longleftrightarrow> i = j"
      using same [of j] by (auto simp: firstUnreadId_def)
    with j show ?thesis unfolding u by (metis linorder_neqE_nat)
  qed
qed (simp add: firstUnreadId_def unseen_def)

lemma strictly_sorted_distinct:
  fixes f :: "'a \<Rightarrow> 'b::linorder"
  shows "sorted_wrt (\<lambda>a b. f a < f b) xs \<Longrightarrow> distinct xs"
  by (induction xs) auto

lemma loaded_chat:
  assumes "loadMessages P u w = (Inr loaded, w')" and "idb_ok (w_db w)" and "toMessages (rows_of c loaded) u = Inr msgs"
  shows "sorted (map um_timestamp msgs) \<and> distinct (map um_id msgs)"
proof -
  define rows where "rows = filter (\<lambda>m. is_original (sm_inner m)) (rows_of c loaded)"
  have l: "sorted_wrt (\<lambda>a b. order_key a < order_key b) loaded"
      "set loaded = {m. st_get (sm_id m) (db_messages (w_db w)) = Some m \<and> sm_userId m = u \<and> in_range m}"
    using loadMessages_order [OF assms(1,2)] by simp_all
  then have o: "sorted_wrt (\<lambda>a b. order_key a < order_key b) rows" "set rows \<subseteq> set loaded"
    by (auto simp: rows_def rows_of_def intro!: sorted_wrt_filter)
  have m: "map (\<lambda>b. (um_id b, um_timestamp b, um_sent b)) msgs = map (\<lambda>m. (sm_id m, sm_timestamp m, sm_fromUser m = u)) rows"
    using toMessages_timeline [OF assms(3)] by (simp add: rows_def)
  have t: "map um_timestamp msgs = map sm_timestamp rows" and i: "map um_id msgs = map sm_id rows"
    using arg_cong [OF m, of "map (\<lambda>x. fst (snd x))"] arg_cong [OF m, of "map fst"] by (simp_all add: comp_def)
  have "sorted_wrt (\<lambda>a b. sm_timestamp a \<le> sm_timestamp b) rows"
    by (rule sorted_wrt_mono_rel [OF _ o(1)]) (auto simp: order_key_def)
  then have ts: "sorted (map sm_timestamp rows)" by (simp add: sorted_wrt_map)
  have "distinct rows"
    using o(1) by (rule strictly_sorted_distinct)
  then have "distinct (map sm_id rows)"
    using o(2) l(2) by (auto simp: distinct_map inj_on_def) (metis (mono_tags, lifting) mem_Collect_eq option.inject subsetD)
  with ts show ?thesis using t i by simp
qed

text \<open>C14: the dividers of a chat. In the chat of a conversation, as it is loaded from the database and
  materialised, no day divider appears twice, every message stands under the divider of its own day, and
  the \<open>New\<close> divider stands exactly before the first message of someone else past the boundary.\<close>

theorem chat_dividers:
  assumes "loadMessages P u w = (Inr loaded, w')" and "idb_ok (w_db w)" and "toMessages (rows_of c loaded) u = Inr msgs"
    and "zone_law z" and "real_date now"
  shows "map tr_msg (chat_timeline z now b msgs) = msgs \<and> distinct (day_labels (chat_timeline z now b msgs))
    \<and> (\<forall>i < length msgs. last (day_labels (take (Suc i) (chat_timeline z now b msgs))) = dayLabel (z (um_timestamp (msgs ! i))) now)
    \<and> (\<forall>i < length msgs. tr_new (chat_timeline z now b msgs ! i) \<longleftrightarrow> unseen b (msgs ! i) \<and> (\<forall>j < i. \<not> unseen b (msgs ! j)))"
proof -
  have s: "sorted (map um_timestamp msgs)" "distinct (map um_id msgs)" using loaded_chat [OF assms(1-3)] by simp_all
  have inj: "x = y" if "real_date x" "real_date y" "dayLabel x now = dayLabel y now" for x y
    using dayLabel_inj [OF that(1,2) assms(5)] that(3) by simp
  have "tr_new (chat_timeline z now b msgs ! i) \<longleftrightarrow> unseen b (msgs ! i) \<and> (\<forall>j < i. \<not> unseen b (msgs ! j))" if "i < length msgs" for i
  proof -
    have "tr_new (chat_timeline z now b msgs ! i) \<longleftrightarrow> Some (um_id (msgs ! i)) = firstUnreadId b msgs"
      using arg_cong [OF timeline_rows_fields(3) [of z now "firstUnreadId b msgs" None msgs], of "\<lambda>l. l ! i"] that
      by (simp add: chat_timeline_def timeline_rows_fields(2))
    with firstUnread_first [OF s(2) that] show ?thesis by simp
  qed
  moreover have "last (day_labels (take (Suc i) (chat_timeline z now b msgs))) = dayLabel (z (um_timestamp (msgs ! i))) now"
    if "i < length msgs" for i
    using label_in_force [OF assms(4) that, of now None "firstUnreadId b msgs"] by (simp add: chat_timeline_def label_of_def)
  moreover have "map tr_msg (chat_timeline z now b msgs) = msgs" by (simp add: chat_timeline_def timeline_rows_fields(1))
  moreover have "distinct (day_labels (chat_timeline z now b msgs))"
    unfolding chat_timeline_def by (rule labels_distinct [OF assms(4,5) s(1) inj])
  ultimately show ?thesis by blast
qed

theorem chat_dividers_witness:
  "\<exists>loaded msgs w'. loadMessages quiet_platform ''U1'' stored_world = (Inr loaded, w') \<and> toMessages (rows_of ''dm:U1:U2'' loaded) ''U1'' = Inr msgs
     \<and> length msgs = 1 \<and> tr_new (chat_timeline (\<lambda>_. \<lparr>cal_year = 1970, cal_month = 0, cal_day = 1\<rparr>)
          \<lparr>cal_year = 1970, cal_month = 0, cal_day = 2\<rparr> (Some 0) msgs ! 0)
     \<and> last (day_labels (take 1 (chat_timeline (\<lambda>_. \<lparr>cal_year = 1970, cal_month = 0, cal_day = 1\<rparr>)
          \<lparr>cal_year = 1970, cal_month = 0, cal_day = 2\<rparr> (Some 0) msgs))) = ''Yesterday''"
proof -
  let ?z = "\<lambda>_ :: int. \<lparr>cal_year = 1970, cal_month = 0, cal_day = 1\<rparr>" and ?now = "\<lparr>cal_year = 1970, cal_month = 0, cal_day = 2\<rparr>"
  obtain msgs where m: "toMessages [stored_of ''U1'' demo_message] ''U1'' = Inr msgs" "length msgs = 1" "unseen (Some 0) (msgs ! 0)"
    using demo_bubble by (auto simp: unseen_def)
  obtain w' where l: "loadMessages quiet_platform ''U1'' stored_world = (Inr (by_timestamp ''U1'' (w_db stored_world)), w')"
    by (simp add: loadMessages_def io_simps quiet_platform_def)
  have z: "zone_law ?z" "real_date ?now" by (simp_all add: zone_law_def real_date_def month_days_def)
  have y: "dayLabel (?z 0) ?now = ''Yesterday''"
    using dayLabel_yesterday [of "?z 0" ?now] z by (simp add: zone_law_def dayBefore_def full_year_def)
  have r: "toMessages (rows_of ''dm:U1:U2'' (by_timestamp ''U1'' (w_db stored_world))) ''U1'' = Inr msgs" using m(1) by (simp add: stored_rows)
  from chat_dividers [OF l stored_rows(5) r z, of "Some 0"] m l r y show ?thesis by auto
qed

section \<open>The tag of an edited message\<close>

text \<open>\<open>Math.round\<close> of a quotient of integers: halves go up.\<close>

definition round_div :: "int \<Rightarrow> int \<Rightarrow> int" where
  "round_div a b = (2 * a + b) div (2 * b)"

definition later :: "int \<Rightarrow> string \<Rightarrow> string" where
  "later n u = show_int n @ '' '' @ u @ (if n = 1 then [] else ''s'') @ '' later''"

definition relativeEdit :: "int \<Rightarrow> string" where
  "relativeEdit mins =
     (if mins < 1 then ''moments later''
      else if mins < 60 then later mins ''minute''
      else if mins < 1440 then later (round_div mins 60) ''hour''
      else let days = round_div mins 1440 in
        if days < 7 then later days ''day''
        else if days < 35 then later (round_div days 7) ''week''
        else if days < 365 then later (round_div days 30) ''month''
        else later (round_div days 365) ''year'')"

datatype edited_tier = Quiet | Mid | Loud

record edited_info =
  ei_label :: string
  ei_tier :: edited_tier
  ei_title :: string

definition edit_minutes :: "int \<Rightarrow> int \<Rightarrow> int" where
  "edit_minutes timestamp editedAt = round_div (max 0 (editedAt - timestamp)) 60000"

definition editedInfo :: "'n platform \<Rightarrow> int \<Rightarrow> int \<Rightarrow> edited_info" where
  "editedInfo P timestamp editedAt =
     (let iso = pl_date_iso P editedAt in
      if timestamp = 0 then \<lparr>ei_label = ''edited'', ei_tier = Quiet, ei_title = ''Edited at '' @ iso\<rparr>
      else let mins = edit_minutes timestamp editedAt; rel = relativeEdit mins;
               title = ''Edited '' @ rel @ '' ('' @ iso @ '')'' in
        if mins < 60 then \<lparr>ei_label = ''edited'', ei_tier = Quiet, ei_title = title\<rparr>
        else if mins < 1440 then \<lparr>ei_label = ''edited '' @ rel, ei_tier = Mid, ei_title = title\<rparr>
        else \<lparr>ei_label = ''edited '' @ rel, ei_tier = Loud, ei_title = title\<rparr>)"

text \<open>A unit of the phrase and its length in minutes.\<close>

definition edit_unit :: "string \<Rightarrow> int" where
  "edit_unit u = (if u = ''minute'' then 1 else if u = ''hour'' then 60 else if u = ''day'' then 1440
     else if u = ''week'' then 10080 else if u = ''month'' then 43200 else 525600)"

lemma round_div_close: "0 < b \<Longrightarrow> 2 * (b * round_div a b - a) \<le> b \<and> 2 * (a - b * round_div a b) < b"
proof -
  assume b: "0 < b"
  have "2 * b * ((2 * a + b) div (2 * b)) \<le> 2 * a + b" "2 * a + b < 2 * b * ((2 * a + b) div (2 * b)) + 2 * b"
    using b mult_div_mod_eq [of "2 * b" "2 * a + b"] pos_mod_bound [of "2 * b" "2 * a + b"] pos_mod_sign [of "2 * b" "2 * a + b"]
    by linarith+
  then show ?thesis by (simp add: round_div_def algebra_simps)
qed

lemma round_div_ge: "0 < b \<Longrightarrow> b * n \<le> a \<Longrightarrow> n \<le> round_div a b"
proof (rule ccontr)
  assume b: "0 < b" and le: "b * n \<le> a" and "\<not> n \<le> round_div a b"
  then have "b * (round_div a b + 1) \<le> b * n" by (intro mult_left_mono) simp_all
  with le round_div_close [OF b, of a] b show False by (simp add: algebra_simps)
qed

lemma relativeEdit_close:
  assumes "60 \<le> mins"
  shows "\<exists>n u. relativeEdit mins = later n u \<and> 1 \<le> n \<and> 2 * abs (n * edit_unit u - mins) \<le> edit_unit u + 1440"
proof -
  define days where "days = round_div mins 1440"
  have d: "2 * (1440 * days - mins) \<le> 1440" "2 * (mins - 1440 * days) < 1440"
    using round_div_close [of 1440 mins] by (simp_all add: days_def)
  consider "mins < 1440" | "1440 \<le> mins" "days < 7" | "1440 \<le> mins" "7 \<le> days" "days < 35" | "1440 \<le> mins" "35 \<le> days" "days < 365"
    | "1440 \<le> mins" "365 \<le> days"
    by linarith
  then show ?thesis
  proof cases
    case 1
    with assms round_div_close [of 60 mins] round_div_ge [of 60 1 mins] show ?thesis
      by (intro exI [of _ "round_div mins 60"] exI [of _ "''hour''"]) (simp add: relativeEdit_def edit_unit_def abs_if)
  next
    case 2
    with assms d round_div_ge [of 1440 1 mins] show ?thesis
      by (intro exI [of _ days] exI [of _ "''day''"]) (simp add: relativeEdit_def edit_unit_def days_def [symmetric] abs_if)
  next
    case 3
    with assms d round_div_close [of 7 days] round_div_ge [of 7 1 days] show ?thesis
      by (intro exI [of _ "round_div days 7"] exI [of _ "''week''"]) (simp add: relativeEdit_def edit_unit_def days_def [symmetric] abs_if)
  next
    case 4
    with assms d round_div_close [of 30 days] round_div_ge [of 30 1 days] show ?thesis
      by (intro exI [of _ "round_div days 30"] exI [of _ "''month''"]) (simp add: relativeEdit_def edit_unit_def days_def [symmetric] abs_if)
  next
    case 5
    with assms d round_div_close [of 365 days] round_div_ge [of 365 1 days] show ?thesis
      by (intro exI [of _ "round_div days 365"] exI [of _ "''year''"]) (simp add: relativeEdit_def edit_unit_def days_def [symmetric] abs_if)
  qed
qed

text \<open>A late edit cannot pass for a quick fix. When a message with a timestamp was edited an hour or more
  after it was sent, its tag is not quiet and says how much later, right to half a unit and half a day; it
  is loud from a day on.\<close>

lemma late_edit_is_shown:
  assumes "timestamp \<noteq> 0" and "3600000 \<le> editedAt - timestamp"
  shows "\<exists>n u. ei_label (editedInfo P timestamp editedAt) = ''edited '' @ later n u \<and> 1 \<le> n
    \<and> 2 * abs (n * edit_unit u - edit_minutes timestamp editedAt) \<le> edit_unit u + 1440
    \<and> ei_tier (editedInfo P timestamp editedAt) = (if 86400000 \<le> editedAt - timestamp + 30000 then Loud else Mid)"
proof -
  let ?m = "edit_minutes timestamp editedAt"
  have m: "60 \<le> ?m" using assms(2) round_div_ge [of 60000 60 "editedAt - timestamp"] by (simp add: edit_minutes_def)
  have "1440 \<le> ?m \<longleftrightarrow> 86400000 \<le> editedAt - timestamp + 30000"
    using assms(2) by (auto simp: edit_minutes_def round_div_def)
  with m assms(1) relativeEdit_close [OF m] show ?thesis by (auto simp: editedInfo_def Let_def)
qed

end
