(* ===== verification/Chats.thy ===== *)
theory Chats
  imports ChatOpen
begin

text \<open>
  web/src/hooks/useConversations.ts and useAppBadge.ts: the chat list and the badge of the installed app,
  both read from the database. A profile whose handle or display name is not a string counts as one
  without it; the profiles of the peers are read one after the other.
\<close>

section \<open>The chat list\<close>

record chats_state =
  cs_conversations :: "stored_conversation list"
  cs_contacts :: "(string \<times> string) list"
  cs_displayNames :: "(string \<times> string) list"
  cs_unread :: "(string \<times> int) list"
  cs_serverOk :: "bool option"
  cs_hydrated :: bool

definition no_chats :: chats_state where
  "no_chats = \<lparr>cs_conversations = [], cs_contacts = [], cs_displayNames = [], cs_unread = [], cs_serverOk = None, cs_hydrated = False\<rparr>"

text \<open>The peers of the direct conversations; an id without a peer names \<open>undefined\<close>.\<close>

definition peer_ids :: "string \<Rightarrow> stored_conversation list \<Rightarrow> string list" where
  "peer_ids userId convs =
     map (\<lambda>c. opt_or (peerUserId userId (sc_conversationId c)) ''undefined'')
       (filter (\<lambda>c. \<not> starts_with ''self:'' (sc_conversationId c)) convs)"

definition profile_text :: "string \<Rightarrow> json \<Rightarrow> string option" where
  "profile_text k j = (case str_field k j of Some s \<Rightarrow> if s = [] then None else Some s | None \<Rightarrow> None)"

record peers_state =
  pe_contacts :: "(string \<times> string) list"
  pe_names :: "(string \<times> string) list"
  pe_changed :: bool

definition track_name :: "string \<Rightarrow> json \<Rightarrow> peers_state \<Rightarrow> peers_state" where
  "track_name uid profile st =
     (case profile_text ''display_name'' profile of
        None \<Rightarrow> st
      | Some name \<Rightarrow> st\<lparr>pe_names := AList.update uid name (pe_names st)\<rparr>)"

text \<open>The profile of one peer. The map of handles is updated before the contact is saved, so a failed
  save leaves the handle in the map; the flag and the name are only set after it.\<close>

definition apply_profile :: "'n platform \<Rightarrow> string \<Rightarrow> json \<Rightarrow> peers_state \<Rightarrow> ('n world, peers_state) io" where
  "apply_profile P uid profile st =
     (case profile_text ''handle'' profile of
        None \<Rightarrow> ret (track_name uid profile st)
      | Some h \<Rightarrow>
          (if map_of (pe_contacts st) uid = Some h then ret (track_name uid profile st)
           else let st1 = st\<lparr>pe_contacts := AList.update uid h (pe_contacts st)\<rparr> in
             catch_err
               (await (saveContact P uid h) (\<lambda>_. ret (track_name uid profile (st1\<lparr>pe_changed := True\<rparr>))))
               (\<lambda>_. ret st1)))"

definition read_profile :: "'n platform \<Rightarrow> string \<Rightarrow> string \<Rightarrow> ('n world, json) io" where
  "read_profile P token uid =
     await (storeGet P token (path_profile uid)) (\<lambda>buf.
     await (or_throw SyntaxErr (json_parse buf)) (\<lambda>profile.
     if profile = JNull then throw (TypeErr ''null'') else ret profile))"

definition refresh_peer :: "'n platform \<Rightarrow> string \<Rightarrow> string \<Rightarrow> peers_state \<Rightarrow> ('n world, peers_state) io" where
  "refresh_peer P token uid st =
     await (catch_err (await (read_profile P token uid) (\<lambda>j. ret (Some j))) (\<lambda>_. ret None)) (\<lambda>profile.
     case profile of None \<Rightarrow> ret st | Some j \<Rightarrow> apply_profile P uid j st)"

definition refresh_peers :: "'n platform \<Rightarrow> session \<Rightarrow> string list \<Rightarrow> chats_state \<Rightarrow> ('n world, chats_state) io" where
  "refresh_peers P s peerIds st =
     (if peerIds = [] then ret st
      else await (fold_io (refresh_peer P (se_token s)) peerIds
            \<lparr>pe_contacts = cs_contacts st, pe_names = [], pe_changed = False\<rparr>) (\<lambda>pe.
        let st1 = st\<lparr>cs_displayNames := pe_names pe\<rparr> in
        if \<not> pe_changed pe then ret st1
        else await (detached (uploadContacts P (se_token s) (se_userId s) (se_backupKey s) (se_keyVersion s)) (\<lambda>_. ret ())) (\<lambda>_.
          ret (st1\<lparr>cs_contacts := pe_contacts pe\<rparr>))))"

definition refresh_chats :: "'n platform \<Rightarrow> session \<Rightarrow> chats_state \<Rightarrow> ('n world, chats_state) io" where
  "refresh_chats P s st =
     await (loadConversations P) (\<lambda>convs.
     await (loadAllContacts P) (\<lambda>contactMap.
     await (unreadCounts P (se_userId s)) (\<lambda>unreadMap.
     refresh_peers P s (peer_ids (se_userId s) convs)
       (st\<lparr>cs_conversations := convs, cs_contacts := contactMap, cs_unread := unreadMap, cs_hydrated := True\<rparr>))))"

definition recomputeUnread :: "'n platform \<Rightarrow> session \<Rightarrow> chats_state \<Rightarrow> ('n world, chats_state) io" where
  "recomputeUnread P s st = await (unreadCounts P (se_userId s)) (\<lambda>u. ret (st\<lparr>cs_unread := u\<rparr>))"

definition probe_server :: "'n platform \<Rightarrow> chats_state \<Rightarrow> ('n world, chats_state) io" where
  "probe_server P st = catch_err
     (await (do_fetch P (api_request GET ''/healthz'' [] None None)) (\<lambda>r. ret (st\<lparr>cs_serverOk := Some (res_ok r)\<rparr>)))
     (\<lambda>_. ret (st\<lparr>cs_serverOk := Some False\<rparr>))"

section \<open>The list shows the database\<close>

definition others_kept :: "idb \<Rightarrow> idb \<Rightarrow> bool" where
  "others_kept d d' \<longleftrightarrow> (\<exists>cs. d' = d\<lparr>db_contacts := cs\<rparr>) \<and> idb_ok d'"

definition peers_inv :: "idb \<Rightarrow> (string \<times> string) list \<Rightarrow> peers_state \<Rightarrow> 'n world \<Rightarrow> bool" where
  "peers_inv d contacts pe w \<longleftrightarrow> others_kept d (w_db w)
     \<and> (\<forall>u. map_of (pe_contacts pe) u = st_get u (db_contacts (w_db w)))
     \<and> (\<not> pe_changed pe \<longrightarrow> pe_contacts pe = contacts)"

lemma track_name_fields [simp]:
  "pe_contacts (track_name u j st) = pe_contacts st" "pe_changed (track_name u j st) = pe_changed st"
  by (simp_all add: track_name_def split: option.split)

lemma save_contact_ok:
  assumes "others_kept d (w_db w)" and "\<And>n. fst (pl_idb P n)"
  shows "\<exists>w'. saveContact P u h w = (Inr (), w') \<and> others_kept d (w_db w')
    \<and> (\<forall>v. st_get v (db_contacts (w_db w')) = (if v = u then Some h else st_get v (db_contacts (w_db w))))"
proof -
  obtain w' where s: "saveContact P u h w = (Inr (), w')" "w_db w' = (w_db w)\<lparr>db_contacts := st_put u h (db_contacts (w_db w))\<rparr>"
    using assms(2) by (simp add: saveContact_def io_simps)
  have "keeps (on_db idb_ok) (saveContact P u h)" by (intro keeps_intros)
  with s(1) assms(1) have "idb_ok (w_db w')" using keeps_result by (fastforce simp: on_db_def others_kept_def)
  moreover have "st_ok (db_contacts (w_db w))" using assms(1) by (auto simp: others_kept_def idb_ok_def)
  ultimately show ?thesis using s assms(1) by (auto simp: others_kept_def st_get_put)
qed

lemma apply_profile_inv:
  assumes "peers_inv d cs st w" and "\<And>n. fst (pl_idb P n)"
  shows "\<exists>st' w'. apply_profile P u j st w = (Inr st', w') \<and> peers_inv d cs st' w'
    \<and> (\<forall>h. profile_text ''handle'' j = Some h \<longrightarrow> map_of (pe_contacts st') u = Some h)
    \<and> (\<forall>v. v \<noteq> u \<longrightarrow> map_of (pe_contacts st') v = map_of (pe_contacts st) v)"
proof (cases "profile_text ''handle'' j")
  case None
  with assms(1) show ?thesis by (simp add: apply_profile_def io_simps peers_inv_def)
next
  case (Some h)
  show ?thesis
  proof (cases "map_of (pe_contacts st) u = Some h")
    case True
    with Some assms(1) show ?thesis by (simp add: apply_profile_def io_simps peers_inv_def)
  next
    case False
    from assms(1) have "others_kept d (w_db w)" by (simp add: peers_inv_def)
    from save_contact_ok [OF this assms(2), of u h] obtain w' where w': "saveContact P u h w = (Inr (), w')" "others_kept d (w_db w')"
      "\<forall>v. st_get v (db_contacts (w_db w')) = (if v = u then Some h else st_get v (db_contacts (w_db w)))"
      by blast
    with Some False assms(1) show ?thesis by (simp add: apply_profile_def io_simps peers_inv_def Let_def)
  qed
qed

lemma read_profile_keeps: "keeps (on_db Q) (read_profile P t u)"
  unfolding read_profile_def by (intro keeps_intros local_storeGet [where Q = "\<lambda>d _ _. Q d", folded on_db_local])

lemma refresh_peer_inv:
  assumes "peers_inv d cs st w" and "\<And>n. fst (pl_idb P n)"
  shows "\<exists>st' w'. refresh_peer P t u st w = (Inr st', w') \<and> peers_inv d cs st' w'
    \<and> (\<forall>j h. (\<forall>v. fst (read_profile P t u v) = Inr j) \<and> profile_text ''handle'' j = Some h \<longrightarrow> map_of (pe_contacts st') u = Some h)
    \<and> (\<forall>v. v \<noteq> u \<longrightarrow> map_of (pe_contacts st') v = map_of (pe_contacts st) v)"
proof -
  obtain r w1 where r: "read_profile P t u w = (r, w1)" by fastforce
  have "w_db w1 = w_db w" using keeps_result [OF read_profile_keeps r, of "\<lambda>x. x = w_db w"] by (simp add: on_db_def)
  then have inv: "peers_inv d cs st w1" using assms(1) by (simp add: peers_inv_def)
  show ?thesis
  proof (cases r)
    case (Inl e)
    then have "\<not> (\<forall>v. fst (read_profile P t u v) = Inr j)" for j using r by (metis fst_conv sum.distinct(1))
    with Inl r inv show ?thesis by (simp add: refresh_peer_def io_simps) blast
  next
    case (Inr j)
    from apply_profile_inv [OF inv assms(2), of u j] obtain st' w' where
      "apply_profile P u j st w1 = (Inr st', w')" "peers_inv d cs st' w'"
      "\<forall>h. profile_text ''handle'' j = Some h \<longrightarrow> map_of (pe_contacts st') u = Some h"
      "\<forall>v. v \<noteq> u \<longrightarrow> map_of (pe_contacts st') v = map_of (pe_contacts st) v"
      by blast
    moreover have "fst (read_profile P t u w) = Inr j" using Inr r by simp
    then have "(\<forall>v. fst (read_profile P t u v) = Inr j') \<Longrightarrow> j' = j" for j' by (metis sum.inject(2))
    ultimately show ?thesis using Inr r by (auto simp: refresh_peer_def io_simps)
  qed
qed

text \<open>The handle the server gives for a user, when its profile can be read at any time.\<close>

definition known_handle :: "'n platform \<Rightarrow> string \<Rightarrow> string \<Rightarrow> string \<Rightarrow> bool" where
  "known_handle P t u h \<longleftrightarrow> (\<exists>j. (\<forall>w. fst (read_profile P t u w) = Inr j) \<and> profile_text ''handle'' j = Some h)"

lemma refresh_fold:
  assumes "peers_inv d cs st w" and "\<And>n. fst (pl_idb P n)"
  shows "\<exists>st' w'. fold_io (refresh_peer P t) us st w = (Inr st', w') \<and> peers_inv d cs st' w'
    \<and> (\<forall>u h. known_handle P t u h \<and> (u \<in> set us \<or> map_of (pe_contacts st) u = Some h) \<longrightarrow> map_of (pe_contacts st') u = Some h)"
  using assms(1)
proof (induction us arbitrary: st w)
  case (Cons u us)
  from refresh_peer_inv [OF Cons.prems assms(2), of t u] obtain st1 w1 where 1:
      "refresh_peer P t u st w = (Inr st1, w1)" "peers_inv d cs st1 w1"
      "\<forall>h. known_handle P t u h \<longrightarrow> map_of (pe_contacts st1) u = Some h"
      "\<forall>v. v \<noteq> u \<longrightarrow> map_of (pe_contacts st1) v = map_of (pe_contacts st) v"
    unfolding known_handle_def by blast
  from Cons.IH [OF 1(2)] obtain st2 w2 where 2: "fold_io (refresh_peer P t) us st1 w1 = (Inr st2, w2)" "peers_inv d cs st2 w2"
      "\<forall>u h. known_handle P t u h \<and> (u \<in> set us \<or> map_of (pe_contacts st1) u = Some h) \<longrightarrow> map_of (pe_contacts st2) u = Some h"
    by blast
  have "map_of (pe_contacts st2) v = Some h" if "known_handle P t v h" "v \<in> set (u # us) \<or> map_of (pe_contacts st) v = Some h" for v h
    using that 1(3,4) 2(3) by (cases "v = u") auto
  with 1(1) 2(1,2) show ?case by (auto simp: io_simps)
qed (simp add: io_simps)

lemma upload_keeps: "keeps (on_db Q) (detached (uploadContacts P t u k v) (\<lambda>_. ret ()))"
  by (auto intro!: keeps_intros simp: uploadContacts_def loadAllContacts_def backup_blob_def)

text \<open>C16: the chat list shows the database. When transactions commit, a refresh always ends; it shows the
  conversations by recency, the contacts that are stored when it ends and the true unread counts, has
  changed nothing but contacts, and knows every peer whose profile the server gives by its current handle.\<close>

theorem refresh_shows_database:
  assumes "\<And>n. fst (pl_idb P n)" and "idb_ok (w_db w)"
  shows "\<exists>st' w'. refresh_chats P s st w = (Inr st', w') \<and> cs_hydrated st' \<and> others_kept (w_db w) (w_db w')
    \<and> cs_conversations st' = conversations_by_recency (w_db w)
    \<and> (\<forall>u. map_of (cs_contacts st') u = st_get u (db_contacts (w_db w')))
    \<and> (\<forall>c. map_of (cs_unread st') c = (let n = length (filter (counts_as_unread (se_userId s) c
          (last_read (st_get c (db_conversations (w_db w'))))) (user_messages (se_userId s) (w_db w')))
        in if n = 0 then None else Some (int n)))
    \<and> (\<forall>u h. known_handle P (se_token s) u h \<and> u \<in> set (peer_ids (se_userId s) (conversations_by_recency (w_db w)))
        \<longrightarrow> st_get u (db_contacts (w_db w')) = Some h)"
proof -
  let ?d = "w_db w" and ?us = "peer_ids (se_userId s) (conversations_by_recency (w_db w))"
  define st0 where "st0 = st\<lparr>cs_conversations := conversations_by_recency ?d, cs_contacts := db_contacts ?d,
    cs_unread := unread_of (se_userId s) ?d, cs_hydrated := True\<rparr>"
  have ok: "st_ok (db_contacts ?d)" using assms(2) by (simp add: idb_ok_def)
  define w1 where "w1 = w\<lparr>w_net := snd (pl_idb P (snd (pl_idb P (snd (pl_idb P (w_net w))))))\<rparr>"
  then have w1: "w_db w1 = ?d" "refresh_chats P s st w = refresh_peers P s ?us st0 w1"
    using assms(1) by (simp_all add: refresh_chats_def loadConversations_def loadAllContacts_def unreadCounts_def io_simps st0_def)
  have inv: "peers_inv ?d (db_contacts ?d) \<lparr>pe_contacts = cs_contacts st0, pe_names = [], pe_changed = False\<rparr> w1"
    using assms(2) w1(1) by (auto simp: peers_inv_def others_kept_def st0_def st_get_def intro: exI [of _ "db_contacts ?d"])
  have "\<exists>st' w'. refresh_peers P s ?us st0 w1 = (Inr st', w') \<and> others_kept ?d (w_db w') \<and> cs_conversations st' = cs_conversations st0
      \<and> cs_unread st' = cs_unread st0 \<and> cs_hydrated st' \<and> (\<forall>u. map_of (cs_contacts st') u = st_get u (db_contacts (w_db w')))
      \<and> (\<forall>u h. known_handle P (se_token s) u h \<and> u \<in> set ?us \<longrightarrow> st_get u (db_contacts (w_db w')) = Some h)"
  proof (cases "?us = []")
    case True
    then show ?thesis using inv w1(1) by (auto simp: refresh_peers_def io_simps peers_inv_def st0_def)
  next
    case False
    from refresh_fold [OF inv assms(1), of "se_token s" ?us] obtain pe w2 where pe:
        "fold_io (refresh_peer P (se_token s)) ?us \<lparr>pe_contacts = cs_contacts st0, pe_names = [], pe_changed = False\<rparr> w1 = (Inr pe, w2)"
        "peers_inv ?d (db_contacts ?d) pe w2" "\<forall>u h. known_handle P (se_token s) u h \<and> u \<in> set ?us \<longrightarrow> map_of (pe_contacts pe) u = Some h"
      by blast
    define w3 where "w3 = snd (detached (uploadContacts P (se_token s) (se_userId s) (se_backupKey s) (se_keyVersion s)) (\<lambda>_. ret ()) w2)"
    have w3: "w_db w3 = w_db w2"
      using keepsD [OF upload_keeps [of "\<lambda>x. x = w_db w2"], of w2] by (simp add: w3_def on_db_def)
    show ?thesis
      using False pe w3
      by (cases "pe_changed pe")
        (auto simp: refresh_peers_def io_simps peers_inv_def Let_def st0_def w3_def detached_def)
  qed
  with w1 assms(2) show ?thesis
    using unread_of_spec by (fastforce simp: st0_def others_kept_def user_messages_def)
qed

definition bob_profile :: json where
  "bob_profile = JObj [(''handle'', JStr ''bob'')]"

definition profile_platform :: "unit platform" where
  "profile_platform = quiet_platform\<lparr>pl_fetch := (\<lambda>_ n. (Some \<lparr>rs_status = 200, rs_status_text = [], rs_json_type = False,
     rs_json = None, rs_bytes = stringify bob_profile\<rparr>, n))\<rparr>"

lemma bob_known: "known_handle profile_platform t u ''bob''"
proof -
  have "json_parse (stringify bob_profile) = Some bob_profile" by (rule json_roundtrip) (simp add: bob_profile_def)
  then have "read_profile profile_platform t u w = (Inr bob_profile, w)" for w
    by (simp add: read_profile_def storeGet_def do_fetch_def io_simps profile_platform_def res_ok_def) (simp add: bob_profile_def)
  then show ?thesis by (auto simp: known_handle_def bob_profile_def profile_text_def str_field_def)
qed

theorem refresh_shows_database_witness:
  "\<exists>st' w'. refresh_chats profile_platform demo_chat_session no_chats stored_world = (Inr st', w')
     \<and> map_of (cs_contacts st') ''U2'' = Some ''bob'' \<and> length (cs_conversations st') = 1"
proof -
  have c: "fst (pl_idb profile_platform n)" for n by (simp add: profile_platform_def)
  have r: "conversations_by_recency (w_db stored_world) = [\<lparr>sc_conversationId = ''dm:U1:U2'', sc_lastMessageText = ''hi'',
      sc_lastMessageTimestamp = 5, sc_messageCount = 1, sc_lastMessageDeleted = None, sc_lastReadTimestamp = None\<rparr>]"
    by (simp add: conversations_by_recency_def stored_world_def st_all_def)
  have u: "se_userId demo_chat_session = ''U1''" by (simp add: demo_chat_session_def)
  have "''U2'' \<in> set (peer_ids ''U1'' (conversations_by_recency (w_db stored_world)))"
    by (simp add: r peer_ids_def peerUserId_def nth_opt_def starts_with_def)
  with refresh_shows_database [OF c stored_rows(5), of demo_chat_session no_chats] bob_known u r show ?thesis
    by (metis length_Cons list.size(3) One_nat_def)
qed

section \<open>The badge of the app\<close>

datatype badge_call = SetAppBadge nat | ClearAppBadge

text \<open>What \<open>update\<close> asks of a navigator that has the Badging API; whatever fails is swallowed.\<close>

definition update_badge :: "'n platform \<Rightarrow> string option \<Rightarrow> ('n world, badge_call option) io" where
  "update_badge P userId =
     (if \<not> truthy userId then ret (Some ClearAppBadge)
      else catch_err
        (await (unreadCounts P (the userId)) (\<lambda>counts.
         ret (Some (if length counts > 0 then SetAppBadge (length counts) else ClearAppBadge))))
        (\<lambda>_. ret None))"

lemma count_unread_distinct: "distinct (map fst acc) \<Longrightarrow> distinct (map fst (fold (count_unread u lr) ms acc))"
  by (induction ms arbitrary: acc) (simp_all add: count_unread_def distinct_update)

lemma unread_of_size:
  assumes "idb_ok d"
  shows "length (unread_of u d) = card {c. \<exists>m \<in> set (user_messages u d). counts_as_unread u c (last_read (st_get c (db_conversations d))) m}"
proof -
  have "distinct (map fst (unread_of u d))" by (simp add: unread_of_def count_unread_distinct Let_def)
  then have "length (unread_of u d) = card (dom (map_of (unread_of u d)))" using distinct_card [of "map fst (unread_of u d)"] by (simp add: dom_map_of_conv_image_fst)
  also have "dom (map_of (unread_of u d)) = {c. \<exists>m \<in> set (user_messages u d). counts_as_unread u c (last_read (st_get c (db_conversations d))) m}"
    by (auto simp: dom_def unread_of_spec [OF assms] Let_def filter_empty_conv split: if_splits)
  finally show ?thesis .
qed

text \<open>The app's badge counts the chats with something unread. It is cleared when nobody is signed in or
  nothing is unread, and otherwise shows the number of conversations that hold an unread message, which is
  the number of rows the chat list gives a badge after reading the same database.\<close>

lemma badge_counts_unread_chats:
  assumes "update_badge P (Some u) w = (Inr (Some call), w')" and "u \<noteq> []" and "idb_ok (w_db w)"
    and "recomputeUnread P s st w = (Inr st', w2)" and "se_userId s = u"
  shows "let n = card {c. \<exists>m \<in> set (user_messages u (w_db w)). counts_as_unread u c (last_read (st_get c (db_conversations (w_db w)))) m}
    in call = (if n = 0 then ClearAppBadge else SetAppBadge n) \<and> n = card {c. \<exists>k. map_of (cs_unread st') c = Some k \<and> k > 0}"
proof -
  have c: "call = (if length (unread_of u (w_db w)) > 0 then SetAppBadge (length (unread_of u (w_db w))) else ClearAppBadge)"
    using assms(1,2) by (auto simp: update_badge_def truthy_def unreadCounts_def io_simps split: if_splits)
  have "cs_unread st' = unread_of u (w_db w)"
    using assms(4,5) by (auto simp: recomputeUnread_def unreadCounts_def io_simps split: if_splits)
  then have "{c. \<exists>k. map_of (cs_unread st') c = Some k \<and> k > 0}
      = {c. \<exists>m \<in> set (user_messages u (w_db w)). counts_as_unread u c (last_read (st_get c (db_conversations (w_db w)))) m}"
    by (auto simp: unread_of_spec [OF assms(3)] Let_def filter_empty_conv split: if_splits)
  with c show ?thesis by (simp add: unread_of_size [OF assms(3)] Let_def)
qed

end
