(* ===== verification/Routes.thy ===== *)
theory Routes
  imports Handles "HOL-Library.Word"
begin

text \<open>
  web/src/routes/app.tsx and the links of web/src/routes/chats.tsx: which screen a path shows, and the
  overlay at the bottom of the page; \<open>suggestHandle\<close> of web/src/lib/handle-suggest.ts. How the router
  matches a path against the pattern of a route is a parameter.
\<close>

section \<open>decodeURIComponent\<close>

fun pct_decode :: "string \<Rightarrow> string option" where
  "pct_decode [] = Some []"
| "pct_decode (c # r) =
     (if c \<noteq> CHR ''%'' then map_option ((#) c) (pct_decode r)
      else case r of
          h # l # r' \<Rightarrow>
            (case (hexval h, hexval l) of
               (Some a, Some b) \<Rightarrow> map_option ((#) (char_of (16 * a + b))) (pct_decode r')
             | _ \<Rightarrow> None)
        | _ \<Rightarrow> None)"

text \<open>Well-formed UTF-8: no truncated sequence, no overlong form, no surrogate, nothing past U+10FFFF.\<close>

definition cont_byte :: "nat \<Rightarrow> bool" where
  "cont_byte b \<longleftrightarrow> 0x80 \<le> b \<and> b \<le> 0xBF"

fun utf8_valid :: "nat list \<Rightarrow> bool" where
  "utf8_valid [] = True"
| "utf8_valid (a # r) =
     (if a < 0x80 then utf8_valid r
      else if 0xC2 \<le> a \<and> a \<le> 0xDF
        then (case r of b # r' \<Rightarrow> cont_byte b \<and> utf8_valid r' | _ \<Rightarrow> False)
      else if 0xE0 \<le> a \<and> a \<le> 0xEF
        then (case r of b # c # r' \<Rightarrow> cont_byte b \<and> cont_byte c \<and> (a = 0xE0 \<longrightarrow> 0xA0 \<le> b) \<and> (a = 0xED \<longrightarrow> b \<le> 0x9F)
                \<and> utf8_valid r' | _ \<Rightarrow> False)
      else if 0xF0 \<le> a \<and> a \<le> 0xF4
        then (case r of b # c # d # r' \<Rightarrow> cont_byte b \<and> cont_byte c \<and> cont_byte d \<and> (a = 0xF0 \<longrightarrow> 0x90 \<le> b)
                \<and> (a = 0xF4 \<longrightarrow> b \<le> 0x8F) \<and> utf8_valid r' | _ \<Rightarrow> False)
      else False)"

definition utf8_text :: "string \<Rightarrow> bool" where
  "utf8_text s \<longleftrightarrow> utf8_valid (map of_char s)"

definition decodeURIComponent :: "string \<Rightarrow> js_error + string" where
  "decodeURIComponent s =
     (case pct_decode s of
        Some t \<Rightarrow> if utf8_text t then Inr t else Inl (JsError ''URI malformed'')
      | None \<Rightarrow> Inl (JsError ''URI malformed''))"

section \<open>Screens\<close>

datatype screen =
    ShowRegister | ShowLogin | ShowSettings | ShowChats | ShowLanding | ShowChat string | ShowNotFound | RedirectTo string

text \<open>\<open>HandleOrNotFound\<close>; \<open>decodeURIComponent\<close> can throw while the page renders.\<close>

definition handle_or_not_found :: "string \<Rightarrow> js_error + screen" where
  "handle_or_not_found pathname =
     (if pathname = ''/saved'' then Inr (ShowChat ''saved'')
      else if starts_with ''/@'' pathname then
        (case decodeURIComponent (drop 2 pathname) of
           Inl e \<Rightarrow> Inl e
         | Inr candidate \<Rightarrow> Inr (if validateHandleShape candidate = None then ShowChat candidate else ShowNotFound))
      else Inr ShowNotFound)"

definition app_screen :: "(string \<Rightarrow> string \<Rightarrow> bool) \<Rightarrow> bool \<Rightarrow> string \<Rightarrow> js_error + screen" where
  "app_screen matches signedIn pathname =
     (if matches ''/register'' pathname then Inr (if signedIn then RedirectTo ''/'' else ShowRegister)
      else if matches ''/login'' pathname then Inr (if signedIn then RedirectTo ''/'' else ShowLogin)
      else if matches ''/settings'' pathname then Inr (if signedIn then ShowSettings else RedirectTo ''/login'')
      else if matches ''/'' pathname then Inr (if signedIn then ShowChats else ShowLanding)
      else if signedIn then handle_or_not_found pathname
      else Inr (RedirectTo ''/login''))"

text \<open>\<open>onNewChat\<close> of the chat list.\<close>

definition new_chat_path :: "string \<Rightarrow> string" where
  "new_chat_path handle = ''/@'' @ encodeURIComponent (toLowerCase (trim handle))"

datatype overlay = OfflineOverlay | RestoreOverlay nat | UpdateOverlay

definition bottom_overlay :: "bool \<Rightarrow> bool \<Rightarrow> nat option \<Rightarrow> bool \<Rightarrow> overlay option" where
  "bottom_overlay online signedIn restoreWarning needRefresh =
     (if \<not> online then Some OfflineOverlay
      else if signedIn \<and> restoreWarning \<noteq> None then Some (RestoreOverlay (the restoreWarning))
      else if needRefresh then Some UpdateOverlay else None)"

section \<open>What the chat list opens\<close>

lemma hex_digit: "n < 16 \<Longrightarrow> hexval (upper_hex n) = Some n"
  by (auto simp: hexval_def upper_hex_def Let_def)

lemma pct_roundtrip: "pct_decode (encodeURIComponent s) = Some s"
proof (induction s)
  case (Cons c s)
  have "(of_char c :: nat) < 256" by (simp add: of_char_def)
  then have h: "hexval (upper_hex (of_char c div 16)) = Some (of_char c div 16)" "hexval (upper_hex (of_char c mod 16)) = Some (of_char c mod 16)"
    by (simp_all add: hex_digit)
  have "char_of (16 * (of_char c div 16) + of_char c mod 16 :: nat) = c" by simp
  moreover have "uri_unreserved c \<Longrightarrow> c \<noteq> CHR ''%''" by (auto simp: uri_unreserved_def)
  ultimately show ?case using Cons h by (auto simp: encodeURIComponent_def)
qed (simp add: encodeURIComponent_def)

text \<open>The router only matches a fixed path against paths that start like it, as react-router does up to
  case and a closing slash; here: no fixed path matches a chat's.\<close>

definition router_law :: "(string \<Rightarrow> string \<Rightarrow> bool) \<Rightarrow> bool" where
  "router_law matches \<longleftrightarrow> (\<forall>h. \<forall>p \<in> {''/register'', ''/login'', ''/settings'', ''/''}. \<not> matches p (''/@'' @ h))"

lemma chat_path_screen:
  assumes "router_law matches" "utf8_text h"
  shows "app_screen matches signedIn (''/@'' @ encodeURIComponent h) =
    Inr (if \<not> signedIn then RedirectTo ''/login''
      else if validateHandleShape h = None then ShowChat h else ShowNotFound)"
proof -
  have "decodeURIComponent (encodeURIComponent h) = Inr h" using assms(2) by (simp add: decodeURIComponent_def pct_roundtrip)
  then have "handle_or_not_found (''/@'' @ encodeURIComponent h) = Inr (if validateHandleShape h = None then ShowChat h else ShowNotFound)"
    by (simp add: handle_or_not_found_def starts_with_def)
  then show ?thesis using assms(1) by (auto simp: app_screen_def router_law_def)
qed

text \<open>A new chat opens the handle that was typed. Whatever text is typed, signed in, the link shows the
  chat of its normalised handle when that has the shape of a handle and the not-found page otherwise, never
  an exception; signed out it asks for a login first.\<close>

lemma new_chat_opens_handle:
  assumes "router_law matches" and "utf8_text (toLowerCase (trim typed))"
  shows "app_screen matches signedIn (new_chat_path typed) =
    Inr (if \<not> signedIn then RedirectTo ''/login''
      else if validateHandleShape (toLowerCase (trim typed)) = None then ShowChat (toLowerCase (trim typed)) else ShowNotFound)"
  using chat_path_screen [OF assms] by (simp add: new_chat_path_def)

text \<open>A malformed escape breaks the page. A path such as \<open>/@%\<close>, which the comment calls a malformed
  handle and a 404, makes the render of the application throw.\<close>

lemma malformed_path_throws:
  "app_screen (=) True ''/@%'' = Inl (JsError ''URI malformed'') \<and> app_screen (=) True ''/@%FF'' = Inl (JsError ''URI malformed'')"
  by (simp add: app_screen_def handle_or_not_found_def starts_with_def decodeURIComponent_def hexval_def utf8_text_def)

section \<open>Suggested handles\<close>

text \<open>Two words of a list that a package brings, chosen by two 16-bit random numbers.\<close>

definition suggestHandle :: "'n platform \<Rightarrow> string list \<Rightarrow> ('n world, string) io" where
  "suggestHandle P wordlist = await (platform_io (pl_random P 4)) (\<lambda>b.
     let i = (\<lambda>k. of_char (b ! (2 * k)) + push_bit 8 (of_char (b ! (2 * k + 1))) :: 16 word);
         pick = (\<lambda>k. wordlist ! unat (i k mod 2048)) in
     ret (pick 0 @ ''-'' @ pick 1))"

text \<open>The English BIP-39 list: 2048 words of three to eight lower-case letters.\<close>

definition wordlist_law :: "string list \<Rightarrow> bool" where
  "wordlist_law ws \<longleftrightarrow> length ws = 2048 \<and> (\<forall>x \<in> set ws. 3 \<le> length x \<and> length x \<le> 8 \<and> list_all is_lower x)"

lemma lower_not_dash: "is_lower c \<Longrightarrow> c \<noteq> CHR ''-''"
  by (auto simp: is_lower_def)

lemma no_double_dash:
  assumes "list_all is_lower x" "list_all is_lower y"
  shows "\<not> str_includes ''--'' (x @ CHR ''-'' # y)" "\<not> str_includes ''--'' y"
proof -
  have y: "\<not> str_includes ''--'' y" if "list_all is_lower y" for y
    using that by (induction y) (auto simp: starts_with_def dest: lower_not_dash)
  then show "\<not> str_includes ''--'' y" using assms(2) by simp
  from assms(1) show "\<not> str_includes ''--'' (x @ CHR ''-'' # y)"
  proof (induction x)
    case Nil
    then show ?case using y [OF assms(2)] assms(2) by (cases y) (auto simp: starts_with_def dest: lower_not_dash)
  next
    case (Cons c x)
    then show ?case by (auto simp: starts_with_def dest: lower_not_dash)
  qed
qed

text \<open>A suggested handle can be registered: it always has the shape the form asks for.\<close>

lemma suggested_handle_is_accepted:
  assumes "suggestHandle P wordlist w = (Inr h, w')" and "wordlist_law wordlist"
  shows "validateHandleShape h = None"
proof -
  have m: "unat (i mod 2048 :: 16 word) < length wordlist" for i
    using assms(2) by (simp add: wordlist_law_def unat_mod_distrib)
  obtain x y where h: "h = x @ ''-'' @ y" and xy: "x \<in> set wordlist" "y \<in> set wordlist"
    using assms(1) m by (auto simp: suggestHandle_def io_simps Let_def split: prod.splits)
  then have l: "3 \<le> length x" "length x \<le> 8" "list_all is_lower x" "3 \<le> length y" "length y \<le> 8" "list_all is_lower y"
    using assms(2) by (simp_all add: wordlist_law_def)
  obtain c x' where x: "x = c # x'" using l(1) by (cases x) auto
  obtain y' d where y: "y = y' @ [d]" using l(4) by (cases y rule: rev_cases) auto
  have "list_all handle_char x'" "list_all handle_char y'"
    using l(3,6) by (auto simp: x y handle_char_def list_all_iff)
  then have "HANDLE_REGEX h"
    using l by (simp add: h x y HANDLE_REGEX_def butlast_append handle_char_def)
  with no_double_dash(1) [OF l(3,6)] show ?thesis by (simp add: validateHandleShape_def h)
qed

end
