(* ===== verification/Composer.thy ===== *)
theory Composer
  imports ChatOpen
begin

text \<open>
  The composer of a chat: web/src/routes/chat.tsx, the handlers of web/src/components/ChatView.tsx and
  MessageActions.tsx, and the hooks useDraft.ts, useDrafts.ts, useComposeAttachment.ts and useSWUpdate.ts.
  A state change and the effects React runs for it are one step; what a handler hands to \<open>sendMessage\<close>,
  \<open>sendMedia\<close>, \<open>editMessage\<close> and \<open>deleteMessage\<close> is a dispatch under the handle the route has then.
\<close>

section \<open>Drafts\<close>

type_synonym storage = "(string \<times> string) list"

definition DRAFT_PREFIX :: string where
  "DRAFT_PREFIX = ''atmin:draft:''"

definition DRAFT_KEY :: "string \<Rightarrow> string" where
  "DRAFT_KEY handle = DRAFT_PREFIX @ handle"

definition load_draft :: "storage \<Rightarrow> string \<Rightarrow> string" where
  "load_draft ls handle = opt_or (map_of ls (DRAFT_KEY handle)) []"

definition store_draft :: "string \<Rightarrow> string \<Rightarrow> storage \<Rightarrow> storage" where
  "store_draft handle v ls = (if v \<noteq> [] then AList.update (DRAFT_KEY handle) v ls else AList.delete (DRAFT_KEY handle) ls)"

definition useDrafts :: "storage \<Rightarrow> (string \<times> string) list" where
  "useDrafts ls = fold (\<lambda>(key, value) drafts.
     if \<not> starts_with DRAFT_PREFIX key then drafts
     else if value = [] then drafts
     else AList.update (drop (length DRAFT_PREFIX) key) value drafts) ls []"

text \<open>\<open>useSWUpdate\<close>: whether a waiting update reloads the page by itself.\<close>

definition auto_update :: "bool \<Rightarrow> bool \<Rightarrow> storage \<Rightarrow> bool" where
  "auto_update needRefresh sending ls \<longleftrightarrow> needRefresh \<and> \<not> sending \<and> \<not> list_ex (\<lambda>(k, _). starts_with DRAFT_PREFIX k) ls"

section \<open>State\<close>

record pending_attachment =
  pa_file :: picked_file
  pa_url :: "nat option"
  pa_isImage :: bool

datatype dispatch =
    DispatchText string string
  | DispatchMedia string picked_file string
  | DispatchEdit string string string
  | DispatchDelete string string "string list option"

record composer =
  co_handle :: string
  co_value :: string
  co_pending :: "pending_attachment option"
  co_editing :: "string option"
  co_editValue :: string
  co_actions :: "string option"
  co_confirming :: bool
  co_ls :: storage
  co_urls :: "nat list"
  co_nextUrl :: nat
  co_sent :: "dispatch list"

text \<open>What a render knows besides.\<close>

record compose_env =
  en_sending :: bool
  en_encryptionReady :: bool
  en_online :: bool
  en_messages :: "ui_message list"

definition mount :: "storage \<Rightarrow> string \<Rightarrow> composer" where
  "mount ls handle = \<lparr>co_handle = handle, co_value = load_draft ls handle, co_pending = None, co_editing = None, co_editValue = [],
     co_actions = None, co_confirming = False, co_ls = ls, co_urls = [], co_nextUrl = 0, co_sent = []\<rparr>"

definition dispatch_now :: "dispatch \<Rightarrow> composer \<Rightarrow> composer" where
  "dispatch_now d c = c\<lparr>co_sent := co_sent c @ [d]\<rparr>"

section \<open>The hooks\<close>

definition setInputValue :: "string \<Rightarrow> composer \<Rightarrow> composer" where
  "setInputValue v c = c\<lparr>co_value := v, co_ls := store_draft (co_handle c) v (co_ls c)\<rparr>"

definition change_handle :: "string \<Rightarrow> composer \<Rightarrow> composer" where
  "change_handle h c = c\<lparr>co_handle := h, co_value := load_draft (co_ls c) h\<rparr>"

definition pending_url :: "pending_attachment option \<Rightarrow> nat option" where
  "pending_url p = Option.bind p pa_url"

text \<open>\<open>setPending\<close> and the cleanup of the effect that is keyed on the preview URL.\<close>

definition setPending :: "pending_attachment option \<Rightarrow> composer \<Rightarrow> composer" where
  "setPending p c =
     (let c1 = c\<lparr>co_pending := p\<rparr> in
      case pending_url (co_pending c) of
        None \<Rightarrow> c1
      | Some u \<Rightarrow> if pending_url p = Some u then c1 else c1\<lparr>co_urls := removeAll u (co_urls c1)\<rparr>)"

definition attach :: "picked_file \<Rightarrow> composer \<Rightarrow> composer" where
  "attach file c =
     (if starts_with ''image/'' (pk_type file)
      then setPending (Some \<lparr>pa_file = file, pa_url = Some (co_nextUrl c), pa_isImage = True\<rparr>)
             (c\<lparr>co_urls := co_nextUrl c # co_urls c, co_nextUrl := co_nextUrl c + 1\<rparr>)
      else setPending (Some \<lparr>pa_file = file, pa_url = None, pa_isImage = False\<rparr>) c)"

definition unmount_composer :: "composer \<Rightarrow> composer" where
  "unmount_composer c = (case pending_url (co_pending c) of None \<Rightarrow> c | Some u \<Rightarrow> c\<lparr>co_urls := removeAll u (co_urls c)\<rparr>)"

section \<open>Editing and sending\<close>

definition startEdit :: "string \<Rightarrow> string \<Rightarrow> composer \<Rightarrow> composer" where
  "startEdit i body c = c\<lparr>co_editing := Some i, co_editValue := body\<rparr>"

definition cancelEdit :: "composer \<Rightarrow> composer" where
  "cancelEdit c = c\<lparr>co_editing := None, co_editValue := []\<rparr>"

definition commitEdit :: "composer \<Rightarrow> composer" where
  "commitEdit c =
     (let body = trim (co_editValue c) in
      cancelEdit (if truthy (co_editing c) \<and> body \<noteq> [] then dispatch_now (DispatchEdit (co_handle c) (the (co_editing c)) body) c else c))"

definition inputsDisabled :: "compose_env \<Rightarrow> bool" where
  "inputsDisabled e \<longleftrightarrow> en_sending e \<or> \<not> en_encryptionReady e \<or> \<not> en_online e"

definition canSend :: "compose_env \<Rightarrow> composer \<Rightarrow> bool" where
  "canSend e c \<longleftrightarrow> \<not> inputsDisabled e
     \<and> (if co_editing c \<noteq> None then trim (co_editValue c) \<noteq> [] else trim (co_value c) \<noteq> [] \<or> co_pending c \<noteq> None)"

definition submit :: "compose_env \<Rightarrow> composer \<Rightarrow> composer" where
  "submit e c =
     (if \<not> canSend e c then c
      else if co_editing c \<noteq> None then commitEdit c
      else (case co_pending c of
          Some p \<Rightarrow> setPending None (setInputValue [] (dispatch_now (DispatchMedia (co_handle c) (pa_file p) (co_value c)) c))
        | None \<Rightarrow> setInputValue [] (dispatch_now (DispatchText (co_handle c) (trim (co_value c))) c)))"

definition handleKeyDown :: "compose_env \<Rightarrow> bool \<Rightarrow> bool \<Rightarrow> composer \<Rightarrow> composer" where
  "handleKeyDown e shiftKey isComposing c = (if \<not> shiftKey \<and> \<not> isComposing then submit e c else c)"

text \<open>The items of a clipboard: \<open>None\<close> is one that is not a file.\<close>

definition handlePaste :: "picked_file option list \<Rightarrow> composer \<Rightarrow> composer" where
  "handlePaste items c =
     (if co_editing c \<noteq> None then c
      else (case find (\<lambda>i. case i of Some f \<Rightarrow> starts_with ''image/'' (pk_type f) | None \<Rightarrow> False) items of
          Some (Some f) \<Rightarrow> attach f c
        | _ \<Rightarrow> c))"

definition handleDrop :: "picked_file list \<Rightarrow> composer \<Rightarrow> composer" where
  "handleDrop files c = (if co_editing c \<noteq> None then c else (case files of f # _ \<Rightarrow> attach f c | [] \<Rightarrow> c))"

text \<open>The file input of the attach control, hidden while editing and disabled with the inputs.\<close>

definition pick_file :: "compose_env \<Rightarrow> picked_file \<Rightarrow> composer \<Rightarrow> composer" where
  "pick_file e f c = (if co_editing c \<noteq> None \<or> inputsDisabled e then c else attach f c)"

definition change_text :: "string \<Rightarrow> composer \<Rightarrow> composer" where
  "change_text v c = (if co_editing c \<noteq> None then c\<lparr>co_editValue := v\<rparr> else setInputValue v c)"

text \<open>The text the field shows.\<close>

definition shown_text :: "composer \<Rightarrow> string" where
  "shown_text c = (if co_editing c \<noteq> None then co_editValue c else co_value c)"

section \<open>The action sheet\<close>

definition actionsMsg :: "compose_env \<Rightarrow> composer \<Rightarrow> ui_message option" where
  "actionsMsg e c = (case co_actions c of None \<Rightarrow> None | Some i \<Rightarrow> if i = [] then None else find (\<lambda>m. um_id m = i) (en_messages e))"

definition canAmend :: "ui_message \<Rightarrow> bool" where
  "canAmend m \<longleftrightarrow> um_sent m \<and> \<not> um_deleted m"

definition actionsCanEdit :: "compose_env \<Rightarrow> composer \<Rightarrow> bool" where
  "actionsCanEdit e c \<longleftrightarrow> (case actionsMsg e c of None \<Rightarrow> False | Some m \<Rightarrow> um_media m = None \<or> um_text m \<noteq> [])"

definition mediaUrlsOf :: "ui_message \<Rightarrow> string list option" where
  "mediaUrlsOf m = map_option (\<lambda>f. filter (\<lambda>u. u \<noteq> []) (mf_url f # (case mf_preview f of Some p \<Rightarrow> [dp_url p] | None \<Rightarrow> []))) (um_media m)"

definition open_actions :: "compose_env \<Rightarrow> string \<Rightarrow> composer \<Rightarrow> composer" where
  "open_actions e i c = (if list_ex (\<lambda>m. um_id m = i \<and> canAmend m) (en_messages e) then c\<lparr>co_actions := Some i\<rparr> else c)"

definition close_actions :: "composer \<Rightarrow> composer" where
  "close_actions c = c\<lparr>co_actions := None, co_confirming := False\<rparr>"

definition choose_edit :: "compose_env \<Rightarrow> composer \<Rightarrow> composer" where
  "choose_edit e c =
     (if \<not> actionsCanEdit e c \<or> co_confirming c then c
      else (case actionsMsg e c of None \<Rightarrow> c | Some m \<Rightarrow> close_actions (startEdit (um_id m) (um_text m) c)))"

definition choose_delete :: "compose_env \<Rightarrow> composer \<Rightarrow> composer" where
  "choose_delete e c = (if actionsMsg e c = None \<or> co_confirming c then c else c\<lparr>co_confirming := True\<rparr>)"

text \<open>The \<open>Cancel\<close> of the confirmation returns to the first group.\<close>

definition cancel_delete :: "compose_env \<Rightarrow> composer \<Rightarrow> composer" where
  "cancel_delete e c = (if actionsMsg e c = None then c else c\<lparr>co_confirming := False\<rparr>)"

definition confirm_delete :: "compose_env \<Rightarrow> composer \<Rightarrow> composer" where
  "confirm_delete e c =
     (if \<not> co_confirming c then c
      else (case actionsMsg e c of None \<Rightarrow> c
        | Some m \<Rightarrow> close_actions (dispatch_now (DispatchDelete (co_handle c) (um_id m) (mediaUrlsOf m)) c)))"

section \<open>Events\<close>

datatype compose_event =
    ChangeEv string
  | KeyEv bool bool
  | SendEv
  | PasteEv "picked_file option list"
  | DropEv "picked_file list"
  | PickEv picked_file
  | RemoveEv
  | OpenActionsEv string
  | CloseActionsEv
  | ChooseEditEv
  | ChooseDeleteEv
  | CancelDeleteEv
  | ConfirmDeleteEv
  | CancelEditEv
  | GoToEv string

fun compose_step :: "compose_env \<times> compose_event \<Rightarrow> composer \<Rightarrow> composer" where
  "compose_step (e, ChangeEv v) c = change_text v c"
| "compose_step (e, KeyEv s i) c = handleKeyDown e s i c"
| "compose_step (e, SendEv) c = submit e c"
| "compose_step (e, PasteEv items) c = handlePaste items c"
| "compose_step (e, DropEv files) c = handleDrop files c"
| "compose_step (e, PickEv f) c = pick_file e f c"
| "compose_step (e, RemoveEv) c = (if co_editing c = None then setPending None c else c)"
| "compose_step (e, OpenActionsEv i) c = open_actions e i c"
| "compose_step (e, CloseActionsEv) c = close_actions c"
| "compose_step (e, ChooseEditEv) c = choose_edit e c"
| "compose_step (e, ChooseDeleteEv) c = choose_delete e c"
| "compose_step (e, CancelDeleteEv) c = cancel_delete e c"
| "compose_step (e, ConfirmDeleteEv) c = confirm_delete e c"
| "compose_step (e, CancelEditEv) c = cancelEdit c"
| "compose_step (e, GoToEv h) c = (if h = co_handle c then c else change_handle h c)"


definition compose_run :: "(compose_env \<times> compose_event) list \<Rightarrow> composer \<Rightarrow> composer" where
  "compose_run evs c = fold compose_step evs c"

lemma compose_run_simps [simp]: "compose_run [] c = c" "compose_run (evs @ [x]) c = compose_step x (compose_run evs c)"
  by (simp_all add: compose_run_def)

lemmas handler_defs = submit_def commitEdit_def cancelEdit_def startEdit_def setInputValue_def dispatch_now_def
  handleKeyDown_def handlePaste_def handleDrop_def pick_file_def change_text_def open_actions_def close_actions_def
  choose_edit_def choose_delete_def cancel_delete_def confirm_delete_def change_handle_def

section \<open>Drafts and preview URLs in every run\<close>

lemma DRAFT_KEY_inject [simp]: "DRAFT_KEY h = DRAFT_KEY k \<longleftrightarrow> h = k"
  by (simp add: DRAFT_KEY_def)

lemma starts_with_split: "starts_with p s \<Longrightarrow> s = p @ drop (length p) s"
  by (metis append_take_drop_id starts_with_def)

lemma draft_key_of:
  assumes "starts_with DRAFT_PREFIX k"
  shows "drop (length DRAFT_PREFIX) k = h \<longleftrightarrow> k = DRAFT_KEY h"
  using starts_with_split [OF assms] by (auto simp: DRAFT_KEY_def)

lemma starts_with_DRAFT_KEY [simp]: "starts_with DRAFT_PREFIX (DRAFT_KEY h)"
  by (simp add: DRAFT_KEY_def)

definition draft_of :: "storage \<Rightarrow> string \<Rightarrow> string option" where
  "draft_of ls h = (if load_draft ls h = [] then None else Some (load_draft ls h))"

lemma useDrafts_fold:
  assumes "distinct (map fst ls)"
  shows "map_of (fold (\<lambda>(key, value) drafts.
     if \<not> starts_with DRAFT_PREFIX key then drafts
     else if value = [] then drafts
     else AList.update (drop (length DRAFT_PREFIX) key) value drafts) ls acc) h
   = (case draft_of ls h of None \<Rightarrow> map_of acc h | Some v \<Rightarrow> Some v)"
  using assms
proof (induction ls arbitrary: acc)
  case Nil
  then show ?case by (simp add: draft_of_def load_draft_def)
next
  case (Cons kv ls)
  obtain k v where kv: "kv = (k, v)" by fastforce
  have gone: "k = DRAFT_KEY h \<Longrightarrow> map_of ls (DRAFT_KEY h) = None"
    using Cons.prems kv by (auto simp: map_of_eq_None_iff)
  show ?case
    using Cons gone draft_key_of [of k h]
    by (cases "k = DRAFT_KEY h") (auto simp: kv draft_of_def load_draft_def update_conv')
qed

lemma useDrafts_lookup: "distinct (map fst ls) \<Longrightarrow> map_of (useDrafts ls) h = draft_of ls h"
  by (simp add: useDrafts_def useDrafts_fold split: option.split)

lemma auto_update_no_draft: "auto_update r s ls \<Longrightarrow> load_draft ls h = []"
  by (force simp: auto_update_def load_draft_def opt_or_def list_ex_iff dest: map_of_SomeD split: option.split)

lemma load_store_draft [simp]: "load_draft (store_draft h v ls) h = v"
  by (auto simp: load_draft_def store_draft_def update_conv' delete_conv')

lemma load_store_other: "k \<noteq> h \<Longrightarrow> load_draft (store_draft h v ls) k = load_draft ls k"
  by (auto simp: load_draft_def store_draft_def update_conv' delete_conv')

lemma distinct_store_draft [simp]: "distinct (map fst ls) \<Longrightarrow> distinct (map fst (store_draft h v ls))"
  by (simp add: store_draft_def distinct_update distinct_delete)

definition composer_ok :: "composer \<Rightarrow> bool" where
  "composer_ok c \<longleftrightarrow> distinct (map fst (co_ls c)) \<and> co_value c = load_draft (co_ls c) (co_handle c)
     \<and> co_urls c = (case pending_url (co_pending c) of None \<Rightarrow> [] | Some u \<Rightarrow> [u])
     \<and> (\<forall>u. pending_url (co_pending c) = Some u \<longrightarrow> u < co_nextUrl c)"

lemma mount_ok: "distinct (map fst ls) \<Longrightarrow> composer_ok (mount ls h)"
  by (simp add: composer_ok_def mount_def pending_url_def)

lemma setPending_fields [simp]:
  "co_handle (setPending p c) = co_handle c" "co_value (setPending p c) = co_value c" "co_ls (setPending p c) = co_ls c"
  "co_pending (setPending p c) = p" "co_nextUrl (setPending p c) = co_nextUrl c" "co_sent (setPending p c) = co_sent c"
  "co_actions (setPending p c) = co_actions c" "co_editing (setPending p c) = co_editing c"
  by (simp_all add: setPending_def Let_def split: option.split)

lemma setPending_urls:
  "co_urls (setPending p c) = (case pending_url (co_pending c) of None \<Rightarrow> co_urls c
     | Some u \<Rightarrow> if pending_url p = Some u then co_urls c else removeAll u (co_urls c))"
  by (simp add: setPending_def Let_def split: option.split)

lemma attach_fields [simp]:
  "co_handle (attach f c) = co_handle c" "co_value (attach f c) = co_value c" "co_ls (attach f c) = co_ls c"
  "co_sent (attach f c) = co_sent c" "co_actions (attach f c) = co_actions c" "co_editing (attach f c) = co_editing c"
  by (simp_all add: attach_def)

lemma pending_url_simps [simp]: "pending_url None = None" "pending_url (Some p) = pa_url p"
  by (simp_all add: pending_url_def)

lemma setPending_None_ok: "composer_ok c \<Longrightarrow> composer_ok (setPending None c)"
  by (simp add: composer_ok_def setPending_urls split: option.splits)

lemma attach_ok: "composer_ok c \<Longrightarrow> composer_ok (attach f c)"
  by (cases "pending_url (co_pending c)") (simp_all add: composer_ok_def attach_def setPending_urls)

lemma setInputValue_ok: "composer_ok c \<Longrightarrow> composer_ok (setInputValue v c)"
  by (simp add: composer_ok_def setInputValue_def)

lemma plain_ok [simp]:
  "composer_ok (c\<lparr>co_editing := i\<rparr>) = composer_ok c" "composer_ok (c\<lparr>co_editValue := b\<rparr>) = composer_ok c"
  "composer_ok (c\<lparr>co_actions := i\<rparr>) = composer_ok c" "composer_ok (c\<lparr>co_confirming := x\<rparr>) = composer_ok c"
  "composer_ok (c\<lparr>co_sent := s\<rparr>) = composer_ok c"
  by (simp_all add: composer_ok_def)

lemma submit_ok: "composer_ok c \<Longrightarrow> composer_ok (submit e c)"
  by (auto simp: submit_def commitEdit_def cancelEdit_def dispatch_now_def Let_def
      intro!: setPending_None_ok setInputValue_ok split: option.split)

lemma handlePaste_ok: "composer_ok c \<Longrightarrow> composer_ok (handlePaste items c)"
  by (auto simp: handlePaste_def attach_ok split: option.split)

lemma sheet_ok:
  assumes "composer_ok c"
  shows "composer_ok (open_actions e i c)" "composer_ok (choose_edit e c)" "composer_ok (choose_delete e c)"
    "composer_ok (cancel_delete e c)" "composer_ok (confirm_delete e c)"
  using assms by (auto simp: open_actions_def choose_edit_def choose_delete_def cancel_delete_def confirm_delete_def
      close_actions_def startEdit_def dispatch_now_def split: option.split)

lemma change_handle_ok: "composer_ok c \<Longrightarrow> composer_ok (change_handle h c)"
  by (simp add: composer_ok_def change_handle_def)

lemma compose_step_ok: "composer_ok c \<Longrightarrow> composer_ok (compose_step (e, ev) c)"
  by (cases ev) (auto simp: handleKeyDown_def change_text_def setInputValue_ok handleDrop_def pick_file_def attach_ok
      close_actions_def cancelEdit_def submit_ok handlePaste_ok setPending_None_ok sheet_ok change_handle_ok split: list.split)

lemma compose_run_ok: "composer_ok c \<Longrightarrow> composer_ok (compose_run evs c)"
  by (induction evs rule: rev_induct) (auto simp: compose_step_ok)

text \<open>C15: drafts survive. Whatever the user does in a chat and wherever they go, the text field shows the
  draft that localStorage holds for the chat on screen, except while a message is being edited: then it
  shows the edit, typing changes no chat's draft, and when the edit ends, committed or cancelled, the
  draft is shown again. What is typed otherwise is stored at once, so a reload at any moment (\<open>mount\<close>
  on the same storage) shows that draft; an edit in progress is lost with the reload. The chat list
  shows exactly these drafts; a service-worker update reloads by itself only when no chat has one; and
  the only live preview URL is that of the attachment shown, none after the chat is left.\<close>

theorem drafts_survive_reload:
  assumes "distinct (map fst ls)" and "c = compose_run evs (mount ls h)"
  shows "shown_text c = (if co_editing c = None then load_draft (co_ls c) (co_handle c) else co_editValue c)
    \<and> shown_text (change_text v c) = v
    \<and> load_draft (co_ls (change_text v c)) k = (if co_editing c = None \<and> k = co_handle c then v else load_draft (co_ls c) k)
    \<and> (co_editing c \<noteq> None \<longrightarrow> (\<forall>d \<in> {cancelEdit c, commitEdit c}.
         shown_text d = load_draft (co_ls c) (co_handle c) \<and> co_ls d = co_ls c))
    \<and> shown_text (mount (co_ls c) (co_handle c)) = load_draft (co_ls c) (co_handle c)
    \<and> map_of (useDrafts (co_ls c)) k = (if load_draft (co_ls c) k = [] then None else Some (load_draft (co_ls c) k))
    \<and> (auto_update needRefresh sending (co_ls c) \<longrightarrow> load_draft (co_ls c) k = [] \<and> (co_editing c = None \<longrightarrow> shown_text c = []))
    \<and> co_urls c = (case pending_url (co_pending c) of None \<Rightarrow> [] | Some u \<Rightarrow> [u])
    \<and> co_urls (unmount_composer c) = []"
proof -
  have ok: "composer_ok c"
    unfolding assms(2) by (rule compose_run_ok [OF mount_ok [OF assms(1)]])
  then have "shown_text d = load_draft (co_ls c) (co_handle c) \<and> co_ls d = co_ls c" if "d \<in> {cancelEdit c, commitEdit c}" for d
    using that by (auto simp: composer_ok_def shown_text_def commitEdit_def cancelEdit_def dispatch_now_def Let_def)
  moreover have "load_draft (co_ls (change_text v c)) k = (if co_editing c = None \<and> k = co_handle c then v else load_draft (co_ls c) k)"
    "shown_text (change_text v c) = v"
    by (auto simp: change_text_def setInputValue_def shown_text_def load_store_other)
  ultimately show ?thesis
    using ok by (auto simp: composer_ok_def shown_text_def mount_def useDrafts_lookup draft_of_def auto_update_no_draft
        unmount_composer_def split: option.split)
qed

definition demo_env :: compose_env where
  "demo_env = \<lparr>en_sending = False, en_encryptionReady = True, en_online = True,
     en_messages = [\<lparr>um_id = ''m1'', um_text = ''hi'', um_timestamp = 1, um_sent = True, um_media = None,
                     um_editedAt = None, um_deleted = False\<rparr>]\<rparr>"

definition demo_photo :: picked_file where
  "demo_photo = \<lparr>pk_name = ''p.png'', pk_type = ''image/png'', pk_bytes = ''abc''\<rparr>"

lemma demo_trim: "trim '' yo '' = ''yo''"
  by code_simp

lemmas demo_simps = demo_env_def demo_photo_def mount_def load_draft_def store_draft_def DRAFT_KEY_def DRAFT_PREFIX_def
  handler_defs attach_def setPending_def canSend_def inputsDisabled_def actionsMsg_def actionsCanEdit_def
  canAmend_def mediaUrlsOf_def Let_def compose_run_def starts_with_def demo_trim

theorem drafts_survive_reload_witness:
  "load_draft (co_ls (compose_run [(demo_env, ChangeEv ''yo''), (demo_env, GoToEv ''bob'')] (mount [] ''ann''))) ''ann'' = ''yo''
   \<and> map_of (useDrafts (co_ls (compose_run [(demo_env, ChangeEv ''yo''), (demo_env, GoToEv ''bob'')] (mount [] ''ann'')))) ''ann'' = Some ''yo''"
  using drafts_survive_reload [OF _ refl, of "[]" "[(demo_env, ChangeEv ''yo''), (demo_env, GoToEv ''bob'')]" "''ann''" _ "''ann''"]
  by (simp add: demo_simps)

section \<open>Sending and editing\<close>

lemma trim_Nil_draft: "trim [] = []"
  by code_simp

lemma canSend_after_send:
  "co_editing c = None \<Longrightarrow> canSend e c \<Longrightarrow> \<not> canSend e' (submit e c)"
  by (auto simp: canSend_def submit_def setPending_def setInputValue_def dispatch_now_def Let_def trim_Nil_draft
      split: option.splits)

text \<open>Send (the button or Enter) hands over at most one message: nothing while the inputs are disabled
  or there is nothing to send; the amendment when a message is being edited, which leaves the draft, the
  staged attachment and the storage as they were; otherwise the attachment with the text as its caption, or
  the trimmed text, and then it clears both, so that a second press before the first send returns finds
  nothing to send.\<close>

lemma submit_sends_once:
  "(\<not> canSend e c \<longrightarrow> submit e c = c)
   \<and> (canSend e c \<and> co_editing c = Some i \<and> i \<noteq> [] \<longrightarrow>
        submit e c = c\<lparr>co_editing := None, co_editValue := [],
                       co_sent := co_sent c @ [DispatchEdit (co_handle c) i (trim (co_editValue c))]\<rparr>)
   \<and> (canSend e c \<and> co_editing c = None \<longrightarrow>
        co_sent (submit e c) = co_sent c @ [case co_pending c of
            Some p \<Rightarrow> DispatchMedia (co_handle c) (pa_file p) (co_value c)
          | None \<Rightarrow> DispatchText (co_handle c) (trim (co_value c))]
        \<and> co_value (submit e c) = [] \<and> co_pending (submit e c) = None
        \<and> submit e' (submit e c) = submit e c)"
proof (intro conjI impI; (elim conjE)?)
  assume "\<not> canSend e c"
  then show "submit e c = c" by (simp add: submit_def)
next
  assume "canSend e c" "co_editing c = Some i" "i \<noteq> []"
  then show "submit e c = c\<lparr>co_editing := None, co_editValue := [],
     co_sent := co_sent c @ [DispatchEdit (co_handle c) i (trim (co_editValue c))]\<rparr>"
    by (simp add: submit_def commitEdit_def cancelEdit_def dispatch_now_def truthy_def canSend_def Let_def)
next
  assume s: "canSend e c" "co_editing c = None"
  then show "co_sent (submit e c) = co_sent c @ [case co_pending c of
            Some p \<Rightarrow> DispatchMedia (co_handle c) (pa_file p) (co_value c)
          | None \<Rightarrow> DispatchText (co_handle c) (trim (co_value c))]"
    and "co_value (submit e c) = []" and "co_pending (submit e c) = None"
    by (auto simp: submit_def setPending_def setInputValue_def dispatch_now_def Let_def split: option.split)
  show "submit e' (submit e c) = submit e c"
    using canSend_after_send [OF s(2,1)] by (simp add: submit_def [of e'])
qed

section \<open>What the action sheet may amend\<close>

definition offered :: "(compose_env \<times> compose_event) list \<Rightarrow> string \<Rightarrow> bool" where
  "offered evs i \<longleftrightarrow> list_ex (\<lambda>(e, ev). ev = OpenActionsEv i \<and> list_ex (\<lambda>m. um_id m = i \<and> canAmend m) (en_messages e)) evs"

fun amended :: "dispatch \<Rightarrow> string option" where
  "amended (DispatchEdit _ i _) = Some i"
| "amended (DispatchDelete _ i _) = Some i"
| "amended _ = None"

definition sheet_inv :: "(compose_env \<times> compose_event) list \<Rightarrow> composer \<Rightarrow> bool" where
  "sheet_inv evs c \<longleftrightarrow> (\<forall>i. co_actions c = Some i \<or> co_editing c = Some i \<or> Some i \<in> amended ` set (co_sent c) \<longrightarrow> offered evs i)"

lemma offered_snoc: "offered (evs @ [x]) i \<longleftrightarrow> offered evs i \<or> offered [x] i"
  by (auto simp: offered_def)

lemma actionsMsg_id: "actionsMsg e c = Some m \<Longrightarrow> co_actions c = Some (um_id m)"
  by (auto simp: actionsMsg_def find_Some_iff split: option.splits if_splits)

lemma sheet_inv_cong:
  "\<lbrakk>sheet_inv evs c; co_actions d = co_actions c; co_editing d = co_editing c; co_sent d = co_sent c\<rbrakk> \<Longrightarrow> sheet_inv (evs @ [x]) d"
  by (auto simp: sheet_inv_def offered_snoc)

lemma submit_amends:
  assumes "sheet_inv evs c"
  shows "sheet_inv (evs @ [x]) (submit e c)"
  using assms by (auto simp: sheet_inv_def submit_def commitEdit_def cancelEdit_def dispatch_now_def setInputValue_def truthy_def
      offered_snoc Let_def split: option.splits)

lemma sheet_inv_step:
  assumes "sheet_inv evs c"
  shows "sheet_inv (evs @ [(e, ev)]) (compose_step (e, ev) c)"
proof (cases ev)
  case SendEv
  then show ?thesis using submit_amends [OF assms] by simp
next
  case (KeyEv s i)
  then show ?thesis using submit_amends [OF assms] sheet_inv_cong [OF assms] by (simp add: handleKeyDown_def)
next
  case (OpenActionsEv i)
  then show ?thesis using assms
    by (auto simp: sheet_inv_def open_actions_def offered_snoc offered_def)
next
  case ChooseEditEv
  then show ?thesis using assms sheet_inv_cong [OF assms]
    by (auto simp: choose_edit_def close_actions_def startEdit_def sheet_inv_def offered_snoc dest!: actionsMsg_id split: option.split)
next
  case ConfirmDeleteEv
  then show ?thesis using assms sheet_inv_cong [OF assms]
    by (auto simp: confirm_delete_def close_actions_def dispatch_now_def sheet_inv_def offered_snoc dest!: actionsMsg_id split: option.split)
next
  case (PasteEv items)
  then show ?thesis by (auto simp: handlePaste_def intro!: sheet_inv_cong [OF assms] split: option.split)
next
  case (DropEv fs)
  then show ?thesis by (auto simp: handleDrop_def intro!: sheet_inv_cong [OF assms] split: list.split)
next
  case CloseActionsEv
  then show ?thesis using assms by (auto simp: close_actions_def sheet_inv_def offered_snoc)
next
  case CancelEditEv
  then show ?thesis using assms by (auto simp: cancelEdit_def sheet_inv_def offered_snoc)
next
  case (ChangeEv v)
  then show ?thesis by (auto simp: change_text_def setInputValue_def intro!: sheet_inv_cong [OF assms])
qed (auto simp: pick_file_def choose_delete_def cancel_delete_def change_handle_def intro!: sheet_inv_cong [OF assms])

lemma sheet_inv_run: "sheet_inv evs (compose_run evs (mount ls h))"
  by (induction evs rule: rev_induct) (simp add: sheet_inv_def mount_def, force intro: sheet_inv_step)

text \<open>C24: An edit or a deletion leaves the composer only for a message whose action sheet the user opened
  before, when it was shown as their own and not deleted, whatever is clicked, typed, pasted or dropped in
  between and whichever chats are visited.\<close>

theorem amends_only_offered:
  assumes "d \<in> set (co_sent (compose_run evs (mount ls h)))" and "amended d = Some i"
  shows "\<exists>(e, ev) \<in> set evs. ev = OpenActionsEv i \<and> (\<exists>m \<in> set (en_messages e). um_id m = i \<and> um_sent m \<and> \<not> um_deleted m)"
proof -
  have "offered evs i"
    using sheet_inv_run [of evs ls h] assms unfolding sheet_inv_def by (metis imageI)
  then show ?thesis
    by (auto simp: offered_def list_ex_iff canAmend_def)
qed

theorem amends_only_offered_witness:
  "\<exists>(e, ev) \<in> set [(demo_env, OpenActionsEv ''m1''), (demo_env, ChooseDeleteEv), (demo_env, ConfirmDeleteEv)].
     ev = OpenActionsEv ''m1'' \<and> (\<exists>m \<in> set (en_messages e). um_id m = ''m1'' \<and> um_sent m \<and> \<not> um_deleted m)"
  by (rule amends_only_offered [of "DispatchDelete ''ann'' ''m1'' None" _ "[]" "''ann''"]) (simp_all add: demo_simps)

section \<open>State that survives a change of chat\<close>

text \<open>C37: The route keeps its composer when the handle changes: only the draft is reloaded. A file staged in
  one chat goes to the chat on screen when Send is pressed, with that chat's draft as its caption; an edit
  begun in one chat is committed under the handle of another; and a delete confirmation left open makes the
  next action sheet start at the confirmation.\<close>

theorem attachment_follows_navigation:
  assumes "h \<noteq> co_handle c" and "\<not> inputsDisabled e"
  shows "(co_editing c = None \<and> co_pending c = Some p \<longrightarrow>
            co_sent (submit e (compose_step (e', GoToEv h) c)) = co_sent c @ [DispatchMedia h (pa_file p) (load_draft (co_ls c) h)])
       \<and> (co_editing c = Some i \<and> i \<noteq> [] \<and> trim (co_editValue c) \<noteq> [] \<longrightarrow>
            co_sent (submit e (compose_step (e', GoToEv h) c)) = co_sent c @ [DispatchEdit h i (trim (co_editValue c))])
       \<and> (co_confirming c \<and> (\<exists>m \<in> set (en_messages e). um_id m = j \<and> canAmend m) \<longrightarrow>
            co_confirming (open_actions e j (compose_step (e', GoToEv h) c)))"
  using assms by (auto simp: change_handle_def submit_def canSend_def setInputValue_def commitEdit_def cancelEdit_def dispatch_now_def
      truthy_def open_actions_def Let_def)

theorem attachment_follows_navigation_witness:
  "co_sent (submit demo_env (compose_step (demo_env, GoToEv ''bob'') (attach demo_photo (mount [] ''ann'')))) = [DispatchMedia ''bob'' demo_photo []]"
  using attachment_follows_navigation [of "''bob''" "attach demo_photo (mount [] ''ann'')" demo_env _ demo_env "[]" "[]"]
  by (simp add: demo_simps)

end
