(* ===== verification/ChatRows.thy ===== *)
theory ChatRows
  imports Chats Routes Composer
begin

text \<open>
  The rows of the chat list, web/src/components/ChatsView.tsx: what each row says and which chat it opens,
  and the sheet that starts a new one.
\<close>

definition timeAgo :: "int \<Rightarrow> int \<Rightarrow> string" where
  "timeAgo now ts =
     (let seconds = (now - ts) div 1000; minutes = seconds div 60; hours = minutes div 60; days = hours div 24 in
      if seconds < 60 then ''just now''
      else if minutes < 60 then show_int minutes @ ''m ago''
      else if hours < 24 then show_int hours @ ''h ago''
      else show_int days @ ''d ago'')"

datatype preview = PreviewDraft string | PreviewDeleted | PreviewText string

definition Preview :: "string \<Rightarrow> bool option \<Rightarrow> string option \<Rightarrow> preview" where
  "Preview text deleted draft =
     (if truthy draft then PreviewDraft (trim (collapse_ws (the draft)))
      else if deleted = Some True then PreviewDeleted
      else PreviewText (messagePreview text))"

definition unread_badge :: "int option \<Rightarrow> string option" where
  "unread_badge unreadCount = (let n = opt_or unreadCount 0 in if n > 0 then Some (if n > 99 then ''99+'' else show_int n) else None)"

definition peerHandle :: "(string \<times> string) list \<Rightarrow> string \<Rightarrow> string" where
  "peerHandle contacts uid = opt_or (map_of contacts uid) (take 8 uid)"

definition peerLabel :: "(string \<times> string) list \<Rightarrow> (string \<times> string) list \<Rightarrow> string \<Rightarrow> string" where
  "peerLabel names contacts uid = (if truthy (map_of names uid) then the (map_of names uid) else peerHandle contacts uid)"

record chat_row =
  rw_title :: string
  rw_preview :: "preview option"
  rw_time :: "string option"
  rw_badge :: "string option"
  rw_path :: string

definition is_self :: "stored_conversation \<Rightarrow> bool" where
  "is_self c \<longleftrightarrow> starts_with ''self:'' (sc_conversationId c)"

text \<open>No preview: the row says that these are private notes.\<close>

definition saved_row :: "int \<Rightarrow> (string \<times> string) list \<Rightarrow> chats_state \<Rightarrow> chat_row" where
  "saved_row now drafts st =
     (let savedConv = find is_self (cs_conversations st); savedDraft = map_of drafts ''saved'' in
      \<lparr>rw_title = ''Saved Messages'',
       rw_preview = (if savedConv \<noteq> None \<or> truthy savedDraft
         then Some (Preview (case savedConv of Some c \<Rightarrow> sc_lastMessageText c | None \<Rightarrow> [])
                (Option.bind savedConv sc_lastMessageDeleted) savedDraft) else None),
       rw_time = map_option (\<lambda>c. timeAgo now (sc_lastMessageTimestamp c)) savedConv,
       rw_badge = None, rw_path = ''/saved''\<rparr>)"

definition dm_row :: "int \<Rightarrow> (string \<times> string) list \<Rightarrow> string \<Rightarrow> chats_state \<Rightarrow> stored_conversation \<Rightarrow> chat_row" where
  "dm_row now drafts userId st conv =
     (let uid = opt_or (peerUserId userId (sc_conversationId conv)) ''undefined''; h = peerHandle (cs_contacts st) uid in
      \<lparr>rw_title = peerLabel (cs_displayNames st) (cs_contacts st) uid,
       rw_preview = Some (Preview (sc_lastMessageText conv) (sc_lastMessageDeleted conv) (map_of drafts h)),
       rw_time = Some (timeAgo now (sc_lastMessageTimestamp conv)),
       rw_badge = unread_badge (map_of (cs_unread st) (sc_conversationId conv)),
       rw_path = ''/@'' @ encodeURIComponent h\<rparr>)"

definition chat_rows :: "int \<Rightarrow> (string \<times> string) list \<Rightarrow> string \<Rightarrow> chats_state \<Rightarrow> chat_row list" where
  "chat_rows now drafts userId st =
     saved_row now drafts st # map (dm_row now drafts userId st) (filter (\<lambda>c. \<not> is_self c) (cs_conversations st))"

definition shows_empty_note :: "chats_state \<Rightarrow> bool" where
  "shows_empty_note st \<longleftrightarrow> cs_hydrated st \<and> filter (\<lambda>c. \<not> is_self c) (cs_conversations st) = []"

text \<open>The sheet for a new chat: whether it is open, its input, and the handle it hands to \<open>onNewChat\<close>.\<close>

record compose_sheet =
  cp_open :: bool
  cp_input :: string

definition startChat :: "compose_sheet \<Rightarrow> compose_sheet \<times> string option" where
  "startChat s = (let h = trim (cp_input s) in if h = [] then (s, None) else (\<lparr>cp_open = False, cp_input = []\<rparr>, Some h))"

section \<open>A row opens the chat it shows\<close>

lemma ascii_utf8: "list_all (\<lambda>n. n < 128) ns \<Longrightarrow> utf8_valid ns"
  by (induction ns) simp_all

lemma handle_utf8: "validateHandleShape h = None \<Longrightarrow> utf8_text h"
proof -
  assume v: "validateHandleShape h = None"
  then have "HANDLE_REGEX h" by (simp add: validateHandleShape_def split: if_splits)
  from regex_chars(1) [OF this] have "list_all (\<lambda>n. n < 128) (map of_char h :: nat list)"
    by (auto simp: list_all_iff handle_char_def is_lower_def is_digit_def)
  then show ?thesis unfolding utf8_text_def by (rule ascii_utf8)
qed

lemma peer_of_row:
  assumes "u \<noteq> v" "CHR '':'' \<notin> set u" "CHR '':'' \<notin> set v"
  shows "peerUserId u (conversationId u v) = Some v"
  using assms peerUserId_conversationId [of u v] by simp

text \<open>C35: The row of a conversation belongs to the chat it opens: it shows and opens the handle that the
  contacts hold for the other user, and the draft in it is the one the text field of that chat will have;
  its badge is missing exactly when nothing is unread. When the other user is not in the contacts the row
  opens the first eight characters of the user id instead, which is the not-found page unless they happen to
  look like a handle.\<close>

theorem row_opens_its_chat:
  assumes "sc_conversationId c = conversationId u v" and "u \<noteq> v" and "CHR '':'' \<notin> set u" and "CHR '':'' \<notin> set v"
    and "router_law matches" and "distinct (map fst ls)"
    and "row = dm_row now (useDrafts ls) u st c"
  shows "(\<forall>h. map_of (cs_contacts st) v = Some h \<and> validateHandleShape h = None \<longrightarrow>
            app_screen matches True (rw_path row) = Inr (ShowChat h)
          \<and> (map_of (cs_displayNames st) v = None \<longrightarrow> rw_title row = h)
          \<and> (co_value (mount ls h) \<noteq> [] \<longrightarrow> rw_preview row = Some (PreviewDraft (trim (collapse_ws (co_value (mount ls h))))))
          \<and> (co_value (mount ls h) = [] \<longrightarrow> rw_preview row = Some (Preview (sc_lastMessageText c) (sc_lastMessageDeleted c) None)))
       \<and> (rw_badge row = None \<longleftrightarrow> opt_or (map_of (cs_unread st) (conversationId u v)) 0 \<le> 0)
       \<and> (map_of (cs_contacts st) v = None \<and> utf8_text (take 8 v) \<and> validateHandleShape (take 8 v) \<noteq> None \<longrightarrow>
            app_screen matches True (rw_path row) = Inr ShowNotFound)"
proof -
  let ?v = "opt_or (map_of (cs_contacts st) v) (take 8 v)"
  have row: "row = \<lparr>rw_title = peerLabel (cs_displayNames st) (cs_contacts st) v,
       rw_preview = Some (Preview (sc_lastMessageText c) (sc_lastMessageDeleted c) (draft_of ls ?v)),
       rw_time = Some (timeAgo now (sc_lastMessageTimestamp c)),
       rw_badge = unread_badge (map_of (cs_unread st) (conversationId u v)), rw_path = ''/@'' @ encodeURIComponent ?v\<rparr>"
    by (simp add: assms(1,7) dm_row_def peer_of_row [OF assms(2-4)] peerHandle_def useDrafts_lookup [OF assms(6)] Let_def)
  have screen: "app_screen matches True (rw_path row) = Inr (if validateHandleShape ?v = None then ShowChat ?v else ShowNotFound)"
    if "utf8_text ?v"
    using chat_path_screen [OF assms(5) that, of True] by (simp add: row)
  have draft: "rw_preview row = Some (if load_draft ls ?v \<noteq> [] then PreviewDraft (trim (collapse_ws (load_draft ls ?v)))
      else Preview (sc_lastMessageText c) (sc_lastMessageDeleted c) None)"
    by (simp add: row draft_of_def Preview_def truthy_def)
  have badge: "rw_badge row = None \<longleftrightarrow> opt_or (map_of (cs_unread st) (conversationId u v)) 0 \<le> 0"
    by (simp add: row unread_badge_def Let_def)
  have title: "map_of (cs_displayNames st) v = None \<Longrightarrow> rw_title row = ?v"
    by (simp add: row peerLabel_def peerHandle_def truthy_def)
  show ?thesis using screen draft badge title handle_utf8 by (simp add: mount_def)
qed

definition demo_conversation :: stored_conversation where
  "demo_conversation = \<lparr>sc_conversationId = conversationId ''U1'' ''U2'', sc_lastMessageText = [], sc_lastMessageTimestamp = 0,
     sc_messageCount = 0, sc_lastMessageDeleted = None, sc_lastReadTimestamp = None\<rparr>"

theorem row_opens_its_chat_witness:
  "app_screen (=) True (rw_path (dm_row 0 (useDrafts []) ''U1'' (no_chats\<lparr>cs_contacts := [(''U2'', ''bob'')]\<rparr>) demo_conversation))
     = Inr (ShowChat ''bob'')"
proof -
  have v: "validateHandleShape ''bob'' = None" by code_simp
  have "sc_conversationId demo_conversation = conversationId ''U1'' ''U2''" by (simp add: demo_conversation_def)
  moreover have "router_law (=)" by (simp add: router_law_def)
  moreover have "map_of (cs_contacts (no_chats\<lparr>cs_contacts := [(''U2'', ''bob'')]\<rparr>)) ''U2'' = Some ''bob''" by simp
  ultimately show ?thesis
    using row_opens_its_chat [where c = demo_conversation and u = "''U1''" and v = "''U2''" and matches = "(=)" and ls = "[]"
        and st = "no_chats\<lparr>cs_contacts := [(''U2'', ''bob'')]\<rparr>" and now = 0, OF _ _ _ _ _ _ refl] v
    by simp
qed

end
