(* ===== verification/MediaView.thy ===== *)
theory MediaView
  imports MediaLoader
begin

text \<open>
  What a bubble shows of its attachment: web/src/components/MediaAttachment.tsx, with the states that
  ChatView.tsx and ChatMessage.tsx hand it from the loader.
\<close>

datatype full_overlay = NoOverlay | LoadingOverlay | RetryOverlay

datatype media_view =
    PlaceholderBox
  | FileChip string string
  | LoadingView
  | PreviewButton nat full_overlay
  | ImageLink nat
  | DownloadLink nat string string
  | CorruptNote
  | UnavailableNote
  | RetryButton
  | EmptyView

text \<open>\<open>toFixed(1)\<close>: the nearest tenth, the greater of two.\<close>

definition toFixed1 :: "int \<Rightarrow> int \<Rightarrow> string" where
  "toFixed1 n d = (let t = (20 * n + d) div (2 * d) in show_int (t div 10) @ ''.'' @ show_int (t mod 10))"

definition formatBytes :: "int \<Rightarrow> string" where
  "formatBytes n =
     (if n < 1024 then show_int n @ '' B''
      else if n < 1024 * 1024 then toFixed1 n 1024 @ '' KB''
      else toFixed1 n (1024 * 1024) @ '' MB'')"

text \<open>The size a sender wrote is a number; how a fraction of a byte is printed is a parameter.\<close>

definition size_label :: "(string \<Rightarrow> string) \<Rightarrow> num \<Rightarrow> string" where
  "size_label fmt n = (case n of NInt i \<Rightarrow> formatBytes i | NDec d \<Rightarrow> fmt d)"

definition showFull :: "media_state option \<Rightarrow> bool" where
  "showFull fullState \<longleftrightarrow> (case fullState of Some s \<Rightarrow> ms_status s = Ready \<and> ms_blobUrl s \<noteq> None | None \<Rightarrow> False)"

definition overlay_of :: "media_state option \<Rightarrow> full_overlay" where
  "overlay_of fullState = (case fullState of
      None \<Rightarrow> NoOverlay
    | Some s \<Rightarrow> (case ms_status s of Loading \<Rightarrow> LoadingOverlay | NetworkFailed \<Rightarrow> RetryOverlay | _ \<Rightarrow> NoOverlay))"

definition MediaAttachment :: "media_state option \<Rightarrow> media_state option \<Rightarrow> bool \<Rightarrow> string \<Rightarrow> string \<Rightarrow> media_view" where
  "MediaAttachment st fullState hasPreview name sizeText =
     (let displayName = sanitizeDownloadFilename name; full = showFull fullState; active = (if full then fullState else st) in
      case active of
        None \<Rightarrow> (if isLikelyImage name then PlaceholderBox else FileChip displayName sizeText)
      | Some s \<Rightarrow> (case ms_status s of
          Idle \<Rightarrow> (if isLikelyImage name then PlaceholderBox else FileChip displayName sizeText)
        | Loading \<Rightarrow> LoadingView
        | Ready \<Rightarrow> (case ms_blobUrl s of
            None \<Rightarrow> EmptyView
          | Some url \<Rightarrow> (if ms_mime s = None then DownloadLink url displayName sizeText
              else if hasPreview \<and> \<not> full then PreviewButton url (overlay_of fullState)
              else ImageLink url))
        | Corrupt \<Rightarrow> CorruptNote
        | Unavailable \<Rightarrow> UnavailableNote
        | NetworkFailed \<Rightarrow> RetryButton))"

text \<open>The bubble of a message with an attachment, and what a tap on it asks the loader for.\<close>

definition bubble_media :: "(string \<Rightarrow> string) \<Rightarrow> media_loader \<Rightarrow> media_file \<Rightarrow> media_view" where
  "bubble_media fmt m f =
     MediaAttachment (map_of (ml_states m) (displayUrl f)) (map_of (ml_states m) (mf_url f)) (mf_preview f \<noteq> None) (mf_name f) (size_label fmt (mf_size f))"

fun tap_request :: "media_file \<Rightarrow> media_view \<Rightarrow> string option" where
  "tap_request f (FileChip _ _) = Some (displayUrl f)"
| "tap_request f RetryButton = Some (displayUrl f)"
| "tap_request f (PreviewButton _ _) = Some (mf_url f)"
| "tap_request f _ = None"

fun view_url :: "media_view \<Rightarrow> nat option" where
  "view_url (PreviewButton u _) = Some u"
| "view_url (ImageLink u) = Some u"
| "view_url (DownloadLink u _ _) = Some u"
| "view_url _ = None"

section \<open>Every state of the loader is shown\<close>

lemma ready_url:
  assumes "loader_ok m" "map_of (ml_states m) u = Some s" "ms_status s = Ready"
  shows "\<exists>i b. ms_blobUrl s = Some i \<and> map_of (ml_urls m) i = Some b"
  using loader_okD(1,2) [OF assms(1)] assms(2,3) unfolding shows_ok_def urls_ok_def by (metis option.exhaust)

text \<open>Whatever the loader went through, the bubble of an attachment is never blank: it has a placeholder,
  a chip, a progress, an error note or the object itself, under an object URL that is live; once the full
  object is ready it is the one that is shown, over its preview; and while only the preview is, a tap asks
  for the full.\<close>

lemma attachment_always_shown:
  assumes "fold (media_step fb P I) evs (empty_loader, w) = (m, w')"
  shows "bubble_media fmt m f \<noteq> EmptyView
    \<and> (\<forall>i. view_url (bubble_media fmt m f) = Some i \<longrightarrow> (\<exists>b. map_of (ml_urls m) i = Some b))
    \<and> (\<forall>s. map_of (ml_states m) (mf_url f) = Some s \<and> ms_status s = Ready \<longrightarrow>
          view_url (bubble_media fmt m f) = ms_blobUrl s \<and> tap_request f (bubble_media fmt m f) = None)
    \<and> (\<forall>s. map_of (ml_states m) (displayUrl f) = Some s \<and> ms_status s = Ready \<and> ms_mime s \<noteq> None \<and> mf_preview f \<noteq> None
          \<and> \<not> showFull (map_of (ml_states m) (mf_url f)) \<longrightarrow> tap_request f (bubble_media fmt m f) = Some (mf_url f))"
proof -
  note ready = ready_url [OF reached_ok [OF assms]]
  show ?thesis
    using ready [of "displayUrl f"] ready [of "mf_url f"]
    by (cases "map_of (ml_states m) (displayUrl f)"; cases "map_of (ml_states m) (mf_url f)")
      (auto simp: bubble_media_def MediaAttachment_def showFull_def Let_def split: media_status.splits if_splits)
qed

end
