(* ===== verification/Scroll.thy ===== *)
theory Scroll
  imports ChatOpen
begin

text \<open>
  The scrolling of a chat, web/src/hooks/useChatScroll.ts. The element of the message list is its three
  numbers; the browser clamps what is assigned to \<open>scrollTop\<close>, and lays a new content out before the
  effects of its render run. The refs and the state of the hook are one record.
\<close>

record scroll_el =
  se_top :: int
  se_height :: int
  se_client :: int

record scroll_state =
  sc_el :: "scroll_el option"
  sc_atBottom :: bool
  sc_lastId :: "string option"
  sc_prevHandle :: string
  sc_showJump :: bool

definition AT_BOTTOM_SLACK_PX :: int where
  "AT_BOTTOM_SLACK_PX = 64"

definition useChatScroll :: "string \<Rightarrow> scroll_state" where
  "useChatScroll handle = \<lparr>sc_el = None, sc_atBottom = True, sc_lastId = None, sc_prevHandle = handle, sc_showJump = False\<rparr>"

section \<open>The element\<close>

definition max_top :: "scroll_el \<Rightarrow> int" where
  "max_top el = max 0 (se_height el - se_client el)"

definition set_top :: "int \<Rightarrow> scroll_el \<Rightarrow> scroll_el" where
  "set_top t el = el\<lparr>se_top := max 0 (min t (max_top el))\<rparr>"

definition lay_out :: "int \<Rightarrow> int \<Rightarrow> scroll_el \<Rightarrow> scroll_el" where
  "lay_out height client el = (let e = el\<lparr>se_height := height, se_client := client\<rparr> in set_top (se_top el) e)"

definition at_bottom :: "scroll_el \<Rightarrow> bool" where
  "at_bottom el \<longleftrightarrow> se_height el - se_top el - se_client el < AT_BOTTOM_SLACK_PX"

section \<open>The hook\<close>

definition scrollToBottom :: "scroll_state \<Rightarrow> scroll_state" where
  "scrollToBottom s = (case sc_el s of
      None \<Rightarrow> s
    | Some el \<Rightarrow> s\<lparr>sc_el := Some (set_top (se_height el) el), sc_atBottom := True, sc_showJump := False\<rparr>)"

definition switch_chat :: "string \<Rightarrow> scroll_state \<Rightarrow> scroll_state" where
  "switch_chat handle s =
     (if sc_prevHandle s \<noteq> handle
      then s\<lparr>sc_prevHandle := handle, sc_atBottom := True, sc_lastId := None, sc_showJump := False\<rparr> else s)"

definition last_of :: "ui_message list \<Rightarrow> ui_message option" where
  "last_of ms = (if ms = [] then None else Some (last ms))"

definition is_new :: "ui_message list \<Rightarrow> scroll_state \<Rightarrow> bool" where
  "is_new ms s \<longleftrightarrow> last_of ms \<noteq> None \<and> map_option um_id (last_of ms) \<noteq> sc_lastId s"

definition newSelfSend :: "ui_message list \<Rightarrow> scroll_state \<Rightarrow> bool" where
  "newSelfSend ms s \<longleftrightarrow> is_new ms s \<and> (case last_of ms of Some m \<Rightarrow> um_sent m | None \<Rightarrow> False)"

definition messages_effect :: "ui_message list \<Rightarrow> string \<Rightarrow> scroll_state \<Rightarrow> scroll_state" where
  "messages_effect ms handle s0 =
     (let s = switch_chat handle s0 in
      if sc_el s = None then s
      else let s1 = s\<lparr>sc_lastId := map_option um_id (last_of ms)\<rparr> in
        if sc_atBottom s \<or> newSelfSend ms s then scrollToBottom s1
        else if is_new ms s then s1\<lparr>sc_showJump := True\<rparr>
        else s1)"

definition onResize :: "scroll_state \<Rightarrow> scroll_state" where
  "onResize s = (if sc_atBottom s then scrollToBottom s else s)"

definition onScroll :: "scroll_state \<Rightarrow> scroll_state" where
  "onScroll s = (case sc_el s of
      None \<Rightarrow> s
    | Some el \<Rightarrow> s\<lparr>sc_atBottom := at_bottom el, sc_showJump := (if at_bottom el then False else sc_showJump s)\<rparr>)"

datatype scroll_event =
    SetScrollEl "scroll_el option"
  | Render "ui_message list" string int int
  | Resize int int
  | Grow int
  | UserScroll int
  | JumpToBottom

text \<open>\<open>Render\<close> is a render with its messages and handle and the size of the list it lays out, \<open>Resize\<close> a
  resize of the window, \<open>Grow\<close> content that changes its height with no render of the list (a photo that
  arrives).\<close>

fun scroll_step :: "scroll_event \<Rightarrow> scroll_state \<Rightarrow> scroll_state" where
  "scroll_step (SetScrollEl el) s = s\<lparr>sc_el := el\<rparr>"
| "scroll_step (Render ms handle h c) s = messages_effect ms handle (s\<lparr>sc_el := map_option (lay_out h c) (sc_el s)\<rparr>)"
| "scroll_step (Resize h c) s = onResize (s\<lparr>sc_el := map_option (lay_out h c) (sc_el s)\<rparr>)"
| "scroll_step (Grow h) s = s\<lparr>sc_el := map_option (\<lambda>el. lay_out h (se_client el) el) (sc_el s)\<rparr>"
| "scroll_step (UserScroll t) s = onScroll (s\<lparr>sc_el := map_option (set_top t) (sc_el s)\<rparr>)"
| "scroll_step JumpToBottom s = scrollToBottom s"

definition scroll_run :: "scroll_event list \<Rightarrow> scroll_state \<Rightarrow> scroll_state" where
  "scroll_run evs s = fold scroll_step evs s"

section \<open>A new message is shown or announced\<close>

definition scroll_inv :: "scroll_state \<Rightarrow> bool" where
  "scroll_inv s \<longleftrightarrow> \<not> (sc_showJump s \<and> sc_atBottom s)"

lemma scrollToBottom_inv: "scroll_inv s \<Longrightarrow> scroll_inv (scrollToBottom s)"
  by (simp add: scroll_inv_def scrollToBottom_def split: option.split)

lemma messages_effect_inv: "scroll_inv s \<Longrightarrow> scroll_inv (messages_effect ms h s)"
  by (auto simp: messages_effect_def switch_chat_def scrollToBottom_def scroll_inv_def Let_def split: option.split)

lemma scroll_step_inv: "scroll_inv s \<Longrightarrow> scroll_inv (scroll_step ev s)"
proof (cases ev)
  case (UserScroll t)
  then show "scroll_inv s \<Longrightarrow> ?thesis" by (auto simp: onScroll_def scroll_inv_def split: option.split)
next
  case (Resize h c)
  then show "scroll_inv s \<Longrightarrow> ?thesis" by (auto simp: onResize_def scrollToBottom_def scroll_inv_def split: option.split)
next
  case (Render ms hd h c)
  then show "scroll_inv s \<Longrightarrow> ?thesis"
    using messages_effect_inv [of "s\<lparr>sc_el := map_option (lay_out h c) (sc_el s)\<rparr>" ms hd] by (simp add: scroll_inv_def)
qed (simp_all add: scrollToBottom_inv, simp_all add: scroll_inv_def)

lemma scroll_run_inv: "scroll_inv s \<Longrightarrow> scroll_inv (scroll_run evs s)"
  by (induction evs rule: rev_induct) (simp_all add: scroll_run_def scroll_step_inv)

lemma set_top_bottom: "se_client el \<ge> 0 \<Longrightarrow> se_top (set_top (se_height el) el) = max_top el"
  by (auto simp: set_top_def max_top_def)

lemma scrollToBottom_top:
  "sc_el s = Some el \<Longrightarrow> 0 \<le> se_client el \<Longrightarrow> sc_el (scrollToBottom s) = Some (el\<lparr>se_top := max_top el\<rparr>)"
  using set_top_bottom [of el] by (cases el) (simp add: scrollToBottom_def set_top_def)

lemma max_top_update [simp]: "max_top (el\<lparr>se_top := t\<rparr>) = max_top el"
  by (simp add: max_top_def)

lemma jump_cleared:
  assumes "sc_showJump s" "\<not> sc_showJump (scroll_step ev s)"
  shows "(\<exists>ms h a b. ev = Render ms h a b \<and> h \<noteq> sc_prevHandle s) \<or> sc_atBottom (scroll_step ev s)"
  using assms by (cases ev) (auto simp: messages_effect_def switch_chat_def scrollToBottom_def onResize_def onScroll_def
      Let_def split: option.splits if_splits)

text \<open>C32: In a chat that has been opened and scrolled in any way, a render that brings a new last message
  leaves the view at the very bottom of the list, or the message is someone else's and the button that
  jumps to the latest one is shown; the button is never shown to a reader at the bottom, and it goes away
  only when the reader is there or another chat is opened.\<close>

theorem new_message_is_announced:
  assumes "s = scroll_run evs (useChatScroll h)"
    and "sc_el s = Some el" and "0 \<le> client" and "ms \<noteq> []"
    and "h' = sc_prevHandle s" and "sc_lastId s \<noteq> Some (um_id (last ms))"
  shows "((\<exists>el'. sc_el (scroll_step (Render ms h' height client) s) = Some el' \<and> se_top el' = max_top el')
          \<or> \<not> um_sent (last ms) \<and> sc_showJump (scroll_step (Render ms h' height client) s))
       \<and> \<not> (sc_showJump s \<and> sc_atBottom s)
       \<and> (sc_showJump s \<and> \<not> sc_showJump (scroll_step ev s) \<longrightarrow>
            (\<exists>ms h a b. ev = Render ms h a b \<and> h \<noteq> sc_prevHandle s) \<or> sc_atBottom (scroll_step ev s))"
proof (intro conjI)
  let ?s = "s\<lparr>sc_el := Some (lay_out height client el)\<rparr>"
  have new: "is_new ms ?s" "last_of ms = Some (last ms)"
    using assms(4,6) by (auto simp: is_new_def last_of_def)
  have cl: "0 \<le> se_client (lay_out height client el)"
    using assms(3) by (simp add: lay_out_def set_top_def Let_def)
  show "(\<exists>el'. sc_el (scroll_step (Render ms h' height client) s) = Some el' \<and> se_top el' = max_top el')
       \<or> \<not> um_sent (last ms) \<and> sc_showJump (scroll_step (Render ms h' height client) s)"
    using assms(2,5) new cl by (auto simp: messages_effect_def switch_chat_def newSelfSend_def scrollToBottom_top Let_def)
  have "scroll_inv (useChatScroll h)" by (simp add: scroll_inv_def useChatScroll_def)
  then show "\<not> (sc_showJump s \<and> sc_atBottom s)"
    using scroll_run_inv assms(1) by (simp add: scroll_inv_def)
  show "sc_showJump s \<and> \<not> sc_showJump (scroll_step ev s) \<longrightarrow>
           (\<exists>ms h a b. ev = Render ms h a b \<and> h \<noteq> sc_prevHandle s) \<or> sc_atBottom (scroll_step ev s)"
    using jump_cleared by blast
qed

definition demo_list :: "ui_message list" where
  "demo_list = [\<lparr>um_id = ''m1'', um_text = ''hi'', um_timestamp = 1, um_sent = False, um_media = None,
                 um_editedAt = None, um_deleted = False\<rparr>]"

definition demo_scrolled :: scroll_state where
  "demo_scrolled = scroll_run [SetScrollEl (Some \<lparr>se_top = 0, se_height = 900, se_client = 300\<rparr>), UserScroll 10] (useChatScroll ''ann'')"

lemma demo_scrolled: "demo_scrolled = \<lparr>sc_el = Some \<lparr>se_top = 10, se_height = 900, se_client = 300\<rparr>, sc_atBottom = False,
    sc_lastId = None, sc_prevHandle = ''ann'', sc_showJump = False\<rparr>"
  by (simp add: demo_scrolled_def scroll_run_def useChatScroll_def onScroll_def set_top_def max_top_def at_bottom_def AT_BOTTOM_SLACK_PX_def)

lemma demo_scroll_render:
  "sc_el (scroll_step (Render demo_list ''ann'' 960 300) demo_scrolled) = Some \<lparr>se_top = 10, se_height = 960, se_client = 300\<rparr>"
  by (simp add: demo_scrolled demo_list_def messages_effect_def switch_chat_def is_new_def newSelfSend_def last_of_def Let_def
      lay_out_def set_top_def max_top_def)

theorem new_message_is_announced_witness:
  "sc_showJump (scroll_step (Render demo_list ''ann'' 960 300) demo_scrolled)"
proof -
  have p: "sc_el demo_scrolled = Some \<lparr>se_top = 10, se_height = 900, se_client = 300\<rparr>" "demo_list \<noteq> []"
    "''ann'' = sc_prevHandle demo_scrolled" "sc_lastId demo_scrolled \<noteq> Some (um_id (last demo_list))"
    by (simp_all add: demo_scrolled demo_list_def)
  have le: "(0 :: int) \<le> 300" by simp
  have "\<not> (\<exists>el'. sc_el (scroll_step (Render demo_list ''ann'' 960 300) demo_scrolled) = Some el' \<and> se_top el' = max_top el')"
    by (simp only: demo_scroll_render) (simp add: max_top_def)
  then show ?thesis
    using new_message_is_announced [OF demo_scrolled_def p(1) le p(2,3,4), where height = 960 and ev = JumpToBottom]
    by blast
qed

end
