(* ===== verification/Forms.thy ===== *)
theory Forms
  imports Account
begin

text \<open>
  The gates of the account forms (web/src/components/RegisterForm.tsx, ChangePasswordPanel.tsx,
  DeleteAccountPanel.tsx, ProfileSettings.tsx) and the password-strength meter behind two of them
  (web/src/lib/password-strength.ts, web/src/hooks/usePasswordStrength.ts). The scorer is a library: what it
  answers is a parameter of the event that delivers it.
\<close>

section \<open>The scorer\<close>

record strength_result =
  sg_score :: nat
  sg_feedback :: "string list"
  sg_pwned :: bool

record zxcvbn_result =
  zx_score :: nat
  zx_warning :: "string option"
  zx_suggestions :: "string list"
  zx_patterns :: "string list"

definition EMPTY :: strength_result where
  "EMPTY = \<lparr>sg_score = 0, sg_feedback = [], sg_pwned = False\<rparr>"

definition score_result :: "zxcvbn_result \<Rightarrow> strength_result" where
  "score_result r = \<lparr>sg_score = zx_score r,
     sg_feedback = (if truthy (zx_warning r) then [the (zx_warning r)] else []) @ zx_suggestions r,
     sg_pwned = list_ex (\<lambda>p. p = ''pwned'') (zx_patterns r)\<rparr>"

text \<open>\<open>scorerPromise\<close>: the outcome of the build that is kept, a rejection too.\<close>

definition loadScorer :: "(js_error + 's) \<Rightarrow> (js_error + 's) option \<Rightarrow> (js_error + 's) \<times> (js_error + 's) option" where
  "loadScorer build scorerPromise = (let p = opt_or scorerPromise build in (p, Some p))"

section \<open>The meter\<close>

datatype score_phase = TimerArmed | Scoring | Scored | TimerCleared

record score_run =
  sr_id :: nat
  sr_password :: string
  sr_phase :: score_phase
  sr_answer :: "(js_error + zxcvbn_result) option"

record strength_hook =
  sh_password :: string
  sh_result :: strength_result
  sh_loading :: bool
  sh_seq :: nat
  sh_runs :: "score_run list"

definition strength_init :: strength_hook where
  "strength_init = \<lparr>sh_password = [], sh_result = EMPTY, sh_loading = False, sh_seq = 0, sh_runs = []\<rparr>"

definition clear_timer :: "score_run \<Rightarrow> score_run" where
  "clear_timer r = (if sr_phase r = TimerArmed then r\<lparr>sr_phase := TimerCleared\<rparr> else r)"

definition password_effect :: "string \<Rightarrow> strength_hook \<Rightarrow> strength_hook" where
  "password_effect password h =
     (if password = sh_password h then h
      else let h1 = h\<lparr>sh_password := password, sh_runs := map clear_timer (sh_runs h)\<rparr> in
        if password = [] then h1\<lparr>sh_result := EMPTY, sh_loading := False\<rparr>
        else let id = sh_seq h + 1 in
          h1\<lparr>sh_seq := id, sh_loading := True,
             sh_runs := sh_runs h1 @ [\<lparr>sr_id = id, sr_password = password, sr_phase = TimerArmed, sr_answer = None\<rparr>]\<rparr>)"

definition shown_score :: "js_error + zxcvbn_result \<Rightarrow> strength_result" where
  "shown_score a = (case a of Inl _ \<Rightarrow> EMPTY | Inr z \<Rightarrow> score_result z)"

definition fire_timer :: "nat \<Rightarrow> strength_hook \<Rightarrow> strength_hook" where
  "fire_timer i h = h\<lparr>sh_runs := (sh_runs h)[i := (sh_runs h ! i)\<lparr>sr_phase := Scoring\<rparr>]\<rparr>"

definition settle_score :: "js_error + zxcvbn_result \<Rightarrow> nat \<Rightarrow> strength_hook \<Rightarrow> strength_hook" where
  "settle_score a i h =
     (let r = sh_runs h ! i; h1 = h\<lparr>sh_runs := (sh_runs h)[i := r\<lparr>sr_phase := Scored, sr_answer := Some a\<rparr>]\<rparr> in
      if sh_seq h = sr_id r then h1\<lparr>sh_result := shown_score a, sh_loading := False\<rparr> else h1)"

inductive strength_step :: "strength_hook \<Rightarrow> strength_hook \<Rightarrow> bool" where
  typed: "strength_step h (password_effect password h)"
| fires: "i < length (sh_runs h) \<Longrightarrow> sr_phase (sh_runs h ! i) = TimerArmed \<Longrightarrow> strength_step h (fire_timer i h)"
| scored: "i < length (sh_runs h) \<Longrightarrow> sr_phase (sh_runs h ! i) = Scoring \<Longrightarrow> strength_step h (settle_score a i h)"

inductive strength_reach :: "strength_hook \<Rightarrow> bool" where
  "strength_reach strength_init"
| "strength_reach h \<Longrightarrow> strength_step h h' \<Longrightarrow> strength_reach h'"

text \<open>The runs are numbered in their order; the last one is the current password's, if there is one.\<close>

definition current_run :: "strength_hook \<Rightarrow> score_run \<Rightarrow> bool" where
  "current_run h r \<longleftrightarrow> sr_password r = sh_password h \<and> sh_loading h = (sr_answer r = None)
     \<and> (\<forall>a. sr_answer r = Some a \<longrightarrow> sh_result h = shown_score a)"

definition strength_inv :: "strength_hook \<Rightarrow> bool" where
  "strength_inv h \<longleftrightarrow> map sr_id (sh_runs h) = [1 ..< Suc (sh_seq h)]
     \<and> (\<forall>r \<in> set (sh_runs h). sr_phase r \<in> {TimerArmed, Scoring, TimerCleared} \<longrightarrow> sr_answer r = None)
     \<and> (if sh_password h = [] then \<not> sh_loading h else sh_runs h \<noteq> [] \<and> current_run h (last (sh_runs h)))"

lemma run_id:
  assumes "strength_inv h" "i < length (sh_runs h)"
  shows "sr_id (sh_runs h ! i) = Suc i" "length (sh_runs h) = sh_seq h"
proof -
  have ids: "map sr_id (sh_runs h) = [1 ..< Suc (sh_seq h)]" using assms(1) by (simp add: strength_inv_def)
  show l: "length (sh_runs h) = sh_seq h"
    using arg_cong [OF ids, of length] by simp
  have "sr_id (sh_runs h ! i) = map sr_id (sh_runs h) ! i" using assms(2) by simp
  also have "\<dots> = [1 ..< Suc (sh_seq h)] ! i" by (simp only: ids)
  also have "\<dots> = Suc i" using assms(2) l by (simp del: upt_Suc)
  finally show "sr_id (sh_runs h ! i) = Suc i" .
qed

lemma map_update_id: "sr_id r = sr_id (rs ! i) \<Longrightarrow> map sr_id (rs[i := r]) = map sr_id rs"
  by (metis list_update_id map_update)

lemma last_update: "i < length xs \<Longrightarrow> last (xs[i := x]) = (if Suc i = length xs then x else last xs)"
  by (cases xs rule: rev_cases) (auto simp: list_update_append)

lemma last_nth: "Suc i = length xs \<Longrightarrow> last xs = xs ! i"
  by (cases xs rule: rev_cases) auto

lemma clear_timer_fields [simp]: "sr_id (clear_timer r) = sr_id r" "sr_answer (clear_timer r) = sr_answer r"
  by (simp_all add: clear_timer_def)

lemma clear_timer_phase: "sr_phase (clear_timer r) = Scored \<longleftrightarrow> sr_phase r = Scored"
  by (simp add: clear_timer_def)

lemma unanswered: "strength_inv h \<Longrightarrow> r \<in> set (sh_runs h) \<Longrightarrow> sr_phase r \<noteq> Scored \<Longrightarrow> sr_answer r = None"
  by (cases "sr_phase r") (auto simp: strength_inv_def)

lemma password_effect_inv:
  assumes "strength_inv h"
  shows "strength_inv (password_effect p h)"
proof (cases "p = sh_password h")
  case False
  have "map (sr_id \<circ> clear_timer) (sh_runs h) = [1 ..< Suc (sh_seq h)]" using assms by (simp add: strength_inv_def comp_def)
  moreover have "sr_answer r = None" if "r \<in> clear_timer ` set (sh_runs h)" "sr_phase r \<noteq> Scored" for r
    using that unanswered [OF assms] clear_timer_phase by auto
  ultimately show ?thesis using False
    by (auto simp: strength_inv_def password_effect_def Let_def current_run_def)
qed (simp add: assms password_effect_def)

lemma fire_timer_inv:
  assumes "strength_inv h" "i < length (sh_runs h)" "sr_phase (sh_runs h ! i) = TimerArmed"
  shows "strength_inv (fire_timer i h)"
proof -
  let ?r = "(sh_runs h ! i)\<lparr>sr_phase := Scoring\<rparr>"
  have n: "sr_answer (sh_runs h ! i) = None" using unanswered [OF assms(1)] assms(2,3) by simp
  have "map sr_id ((sh_runs h)[i := ?r]) = map sr_id (sh_runs h)" by (rule map_update_id) simp
  moreover have "sr_answer r = None" if "r \<in> set ((sh_runs h)[i := ?r])" "sr_phase r \<noteq> Scored" for r
    using that n unanswered [OF assms(1)] set_update_subset_insert [of "sh_runs h" i ?r] by auto
  moreover have "current_run (fire_timer i h) (last ((sh_runs h)[i := ?r]))" if "current_run h (last (sh_runs h))"
    using that n assms(2) by (auto simp: current_run_def fire_timer_def last_update last_nth)
  ultimately show ?thesis using assms(1) by (auto simp: strength_inv_def fire_timer_def)
qed

lemma settle_score_inv:
  assumes "strength_inv h" "i < length (sh_runs h)"
  shows "strength_inv (settle_score a i h)"
proof -
  let ?r = "(sh_runs h ! i)\<lparr>sr_phase := Scored, sr_answer := Some a\<rparr>"
  have "map sr_id ((sh_runs h)[i := ?r]) = map sr_id (sh_runs h)" by (rule map_update_id) simp
  moreover have "sr_answer r = None" if "r \<in> set ((sh_runs h)[i := ?r])" "sr_phase r \<noteq> Scored" for r
    using that unanswered [OF assms(1)] set_update_subset_insert [of "sh_runs h" i ?r] by auto
  moreover have "current_run (settle_score a i h) (last ((sh_runs h)[i := ?r]))" if "current_run h (last (sh_runs h))"
    using that assms(2) run_id [OF assms]
    by (auto simp: current_run_def settle_score_def Let_def last_update last_nth)
  moreover have "sh_runs h \<noteq> []" using assms(2) by auto
  ultimately show ?thesis using assms(1) by (auto simp: strength_inv_def settle_score_def Let_def simp del: upt_Suc)
qed

lemma strength_reach_inv: "strength_reach h \<Longrightarrow> strength_inv h"
proof (induction rule: strength_reach.induct)
  case (2 h h')
  from 2(2,3) show ?case
    by cases (auto intro: password_effect_inv fire_timer_inv settle_score_inv)
qed (simp add: strength_inv_def strength_init_def)

text \<open>The meter under a password that is not empty is about that password, however typing, timers and
  scores interleave: it is busy until the score of exactly this password is there, and then shows it.\<close>

lemma strength_is_current:
  assumes "strength_reach h" and "sh_password h \<noteq> []"
  shows "sr_password (last (sh_runs h)) = sh_password h
    \<and> (case sr_answer (last (sh_runs h)) of None \<Rightarrow> sh_loading h | Some a \<Rightarrow> \<not> sh_loading h \<and> sh_result h = shown_score a)"
  using strength_reach_inv [OF assms(1)] assms(2) by (auto simp: strength_inv_def current_run_def split: option.split)

text \<open>Clearing the password does not advance the sequence number, so a score on its way is kept: the hook
  then gives an empty password the score of the one that was deleted.\<close>

lemma cleared_password_keeps_score:
  "\<exists>h. strength_reach h \<and> sh_password h = [] \<and> sg_score (sh_result h) = 4"
proof -
  let ?z = "\<lparr>zx_score = 4, zx_warning = None, zx_suggestions = [], zx_patterns = []\<rparr>"
  let ?h1 = "password_effect ''secret'' strength_init"
  let ?h2 = "fire_timer 0 ?h1"
  let ?h3 = "password_effect [] ?h2"
  let ?h4 = "settle_score (Inr ?z) 0 ?h3"
  have e: "?h3 = \<lparr>sh_password = [], sh_result = EMPTY, sh_loading = False, sh_seq = 1,
      sh_runs = [\<lparr>sr_id = 1, sr_password = ''secret'', sr_phase = Scoring, sr_answer = None\<rparr>]\<rparr>"
    by (simp add: password_effect_def fire_timer_def strength_init_def clear_timer_def Let_def)
  have "strength_reach ?h1" by (intro strength_reach.intros(2) [OF strength_reach.intros(1)] typed)
  then have "strength_reach ?h2"
    by (rule strength_reach.intros(2)) (rule fires, simp_all add: password_effect_def strength_init_def Let_def)
  then have 3: "strength_reach ?h3" by (rule strength_reach.intros(2)) (rule typed)
  then have "strength_reach ?h4" by (rule strength_reach.intros(2)) (rule scored, simp_all add: e)
  moreover have "sh_password ?h4 = [] \<and> sg_score (sh_result ?h4) = 4"
    by (simp only: e) (simp add: settle_score_def shown_score_def score_result_def Let_def)
  ultimately show ?thesis by blast
qed

section \<open>What the buttons ask for\<close>

definition registerCanSubmit :: "availability \<Rightarrow> string \<Rightarrow> string \<Rightarrow> bool \<Rightarrow> bool" where
  "registerCanSubmit availability password confirm acknowledged \<longleftrightarrow>
     availability = Available \<and> length password > 0 \<and> password = confirm \<and> acknowledged"

text \<open>The step is the form's own, not busy.\<close>

definition rotateCanSubmit :: "bool \<Rightarrow> string \<Rightarrow> string \<Rightarrow> string \<Rightarrow> bool \<Rightarrow> bool" where
  "rotateCanSubmit entering currentPassword newPassword confirmPassword acknowledged \<longleftrightarrow>
     length currentPassword > 0 \<and> length newPassword > 0 \<and> newPassword = confirmPassword \<and> acknowledged \<and> entering"

record delete_form =
  df_open :: bool
  df_password :: string
  df_handleConfirm :: string
  df_acknowledged :: bool

definition close_delete :: "delete_form \<Rightarrow> delete_form" where
  "close_delete f = \<lparr>df_open = False, df_password = [], df_handleConfirm = [], df_acknowledged = False\<rparr>"

definition deleteCanSubmit :: "string \<Rightarrow> delete_form \<Rightarrow> bool" where
  "deleteCanSubmit handle f \<longleftrightarrow> length (df_password f) > 0 \<and> df_handleConfirm f = handle \<and> df_acknowledged f"

record profile_form =
  pf_displayName :: string
  pf_saved :: bool
  pf_error :: "string option"

definition profile_dirty :: "string \<Rightarrow> profile_form \<Rightarrow> bool" where
  "profile_dirty initialDisplayName f \<longleftrightarrow> trim (pf_displayName f) \<noteq> initialDisplayName"

definition handleSave :: "'n platform \<Rightarrow> string \<Rightarrow> profile_form \<Rightarrow> ('n world, profile_form) io" where
  "handleSave P token f =
     await (attempt (updateProfile P token (Some (trim (pf_displayName f))) None)) (\<lambda>r.
     ret (case r of
         Inr _ \<Rightarrow> f\<lparr>pf_saved := True, pf_error := None\<rparr>
       | Inl e \<Rightarrow> f\<lparr>pf_saved := False, pf_error := Some (error_message e)\<rparr>))"

text \<open>C33: The register button is enabled only for a confirmed password, an acknowledged warning and a handle
  the server has answered to be free; the handle the request then carries is exactly the one that answer
  was about, of a shape the server accepts, whatever was typed and deleted before and whatever answers came
  late.\<close>

theorem registration_gate:
  assumes "avail_reach P st" and "registerCanSubmit (av_state st) password confirm acknowledged"
  shows "password \<noteq> [] \<and> confirm = password \<and> acknowledged
    \<and> ef_answer (last (av_effects st)) = Some (Inr NotFound)
    \<and> rr_handle (build_body P (av_input st) salt keys pow) = ef_trimmed (last (av_effects st))
    \<and> validateHandleShape (ef_trimmed (last (av_effects st))) = None"
proof -
  have s: "av_state st = Available" "password \<noteq> []" "confirm = password" "acknowledged"
    using assms(2) by (auto simp: registerCanSubmit_def)
  have n: "trim (av_input st) \<noteq> []" "validateHandleShape (trim (av_input st)) = None"
    using avail_reach_inv [OF assms(1)] s(1) by (auto simp: avail_inv_def split: if_splits option.splits)
  then obtain e where e: "last (av_effects st) = e" "ef_trimmed e = trim (av_input st)"
      "av_state st = (case ef_answer e of None \<Rightarrow> Checking | Some r \<Rightarrow> shown_result P r)"
    using avail_reach_inv [OF assms(1)] by (auto simp: avail_inv_def)
  have "ef_answer e = Some (Inr NotFound)"
    using e(3) s(1) by (auto simp: shown_result_def split: option.splits sum.splits resolve_result.splits)
  moreover have "rr_handle (build_body P (av_input st) salt keys pow) = trim (av_input st)"
    using canonical_handle [OF n(2)] by (simp add: build_body_def)
  ultimately show ?thesis using s e n by simp
qed

theorem registration_gate_witness:
  "\<exists>st. avail_reach (quiet_platform :: unit platform) st \<and> registerCanSubmit (av_state st) ''pw'' ''pw'' True
     \<and> (\<forall>keys pow. rr_handle (build_body (quiet_platform :: unit platform) (av_input st) [] keys pow) = ''bob'')"
proof -
  let ?P = "quiet_platform :: unit platform"
  have v: "validateHandleShape ''bob'' = None" by code_simp
  have tr: "trim ''bob'' = ''bob''" by code_simp
  let ?st = "\<lambda>ph a s. \<lparr>av_input = ''bob'', av_state = s,
      av_effects = [\<lparr>ef_trimmed = ''bob'', ef_phase = ph, ef_cancelled = False, ef_answer = a\<rparr>]\<rparr>"
  have 1: "avail_reach ?P (?st Armed None Checking)"
    using avail_reach.intros(2) [OF avail_reach.intros(1) avail_step.typed, of ?P "''bob''"] v tr
    by (simp add: type_handle_def av_init_def Let_def)
  have 2: "avail_reach ?P (?st InFlight None Checking)"
    using avail_reach.intros(2) [OF 1 avail_step.fire [of 0]] by simp
  have 3: "avail_reach ?P (?st Settled (Some (Inr NotFound)) Available)"
    using avail_reach.intros(2) [OF 2 avail_step.settled [of 0 _ ?P "Inr NotFound"]]
    by (simp add: settle_effect_def shown_result_def)
  have s: "registerCanSubmit (av_state (?st Settled (Some (Inr NotFound)) Available)) ''pw'' ''pw'' True"
    by (simp add: registerCanSubmit_def)
  from registration_gate [OF 3 s, where salt = "[]"] 3 s show ?thesis
    by (intro exI [of _ "?st Settled (Some (Inr NotFound)) Available"]) simp
qed

end
