(* ===== verification/LiveSync.thy ===== *)
theory LiveSync
  imports InboxSync
begin

text \<open>
  Live updates: web/src/hooks/useInboxSync.ts and useOnlineStatus.ts. The event stream is the browser's; a
  change of a dependency runs the cleanup of the effect and then the effect, in one step. A call of
  \<open>syncAndPublish\<close> is logged with the session and the manager it is for.
\<close>

record 'm live_sync =
  lv_session :: "session option"
  lv_manager :: "'m option"
  lv_online :: bool
  lv_stream :: "string option"
  lv_closed :: "string list"
  lv_syncs :: "(session \<times> 'm) list"

definition live_init :: "bool \<Rightarrow> 'm live_sync" where
  "live_init onLine = \<lparr>lv_session = None, lv_manager = None, lv_online = onLine, lv_stream = None, lv_closed = [], lv_syncs = []\<rparr>"

definition events_url :: "session \<Rightarrow> string" where
  "events_url s = ''/v1/events?token='' @ encodeURIComponent (se_token s)"

definition close_stream :: "'m live_sync \<Rightarrow> 'm live_sync" where
  "close_stream c = (case lv_stream c of None \<Rightarrow> c | Some url \<Rightarrow> c\<lparr>lv_stream := None, lv_closed := lv_closed c @ [url]\<rparr>)"

definition sync_effect :: "'m live_sync \<Rightarrow> 'm live_sync" where
  "sync_effect c =
     (case (lv_session c, lv_manager c, lv_online c) of
        (Some s, Some sm, True) \<Rightarrow> c\<lparr>lv_syncs := lv_syncs c @ [(s, sm)], lv_stream := Some (events_url s)\<rparr>
      | _ \<Rightarrow> c)"

definition rerun_effect :: "'m live_sync \<Rightarrow> 'm live_sync" where
  "rerun_effect c = sync_effect (close_stream c)"

datatype 'm live_event =
    SessionChanged "session option"
  | ManagerChanged "'m option"
  | NetworkUp
  | NetworkDown
  | NewMessage
  | StreamError

definition set_online :: "bool \<Rightarrow> 'm live_sync \<Rightarrow> 'm live_sync" where
  "set_online b c = (if lv_online c = b then c else rerun_effect (c\<lparr>lv_online := b\<rparr>))"

text \<open>A message of the server reaches the handler of an open stream, which holds the session and the
  manager its effect ran with.\<close>

fun live_step :: "'m live_event \<Rightarrow> 'm live_sync \<Rightarrow> 'm live_sync" where
  "live_step (SessionChanged s) c = rerun_effect (c\<lparr>lv_session := s\<rparr>)"
| "live_step (ManagerChanged m) c = rerun_effect (c\<lparr>lv_manager := m\<rparr>)"
| "live_step NetworkUp c = set_online True c"
| "live_step NetworkDown c = set_online False c"
| "live_step NewMessage c =
     (case (lv_stream c, lv_session c, lv_manager c) of
        (Some _, Some s, Some sm) \<Rightarrow> c\<lparr>lv_syncs := lv_syncs c @ [(s, sm)]\<rparr> | _ \<Rightarrow> c)"
| "live_step StreamError c = close_stream c"

definition live_run :: "'m live_event list \<Rightarrow> 'm live_sync \<Rightarrow> 'm live_sync" where
  "live_run evs c = fold live_step evs c"

section \<open>Streams\<close>

definition live_ok :: "'m live_sync \<Rightarrow> bool" where
  "live_ok c \<longleftrightarrow> (case lv_stream c of None \<Rightarrow> True
     | Some url \<Rightarrow> (\<exists>s sm. lv_session c = Some s \<and> lv_manager c = Some sm \<and> lv_online c \<and> url = events_url s))"

lemma rerun_ok: "live_ok (rerun_effect c)"
  by (auto simp: rerun_effect_def sync_effect_def close_stream_def live_ok_def split: option.split bool.split)

lemma live_step_ok: "live_ok c \<Longrightarrow> live_ok (live_step e c)"
  by (cases e) (simp_all add: rerun_ok set_online_def, (auto simp: close_stream_def live_ok_def split: option.splits)+)

lemma live_run_ok: "live_ok c \<Longrightarrow> live_ok (live_run evs c)"
  by (induction evs rule: rev_induct) (simp_all add: live_run_def live_step_ok)

definition stream_event :: "'m live_event \<Rightarrow> bool" where
  "stream_event e \<longleftrightarrow> e = NewMessage \<or> e = StreamError"

lemma closed_run:
  "list_all stream_event evs \<Longrightarrow> lv_stream c = None \<Longrightarrow> live_run evs c = c"
  by (induction evs) (auto simp: live_run_def stream_event_def close_stream_def)

lemma open_run:
  assumes "list_all stream_event evs" "lv_stream c = Some url" "lv_session c = Some s" "lv_manager c = Some sm"
  shows "lv_syncs (live_run evs c) = lv_syncs c @ replicate (length (takeWhile (\<lambda>e. e \<noteq> StreamError) evs)) (s, sm)
    \<and> (lv_stream (live_run evs c) = None \<longleftrightarrow> StreamError \<in> set evs)"
  using assms
proof (induction evs arbitrary: c)
  case (Cons e evs)
  show ?case
  proof (cases "e = StreamError")
    case True
    then have "live_run (e # evs) c = live_run evs (close_stream c)" by (simp add: live_run_def)
    then have "live_run (e # evs) c = close_stream c"
      using closed_run [of evs "close_stream c"] Cons.prems by (simp add: close_stream_def)
    with True Cons.prems show ?thesis by (simp add: close_stream_def)
  next
    case False
    then have "e = NewMessage" using Cons.prems(1) by (simp add: stream_event_def)
    then have "live_run (e # evs) c = live_run evs (c\<lparr>lv_syncs := lv_syncs c @ [(s, sm)]\<rparr>)"
      using Cons.prems by (simp add: live_run_def)
    with False Cons show ?thesis by simp
  qed
qed (simp add: live_run_def)

text \<open>C36: What the inbox is synced for. Once a session with its manager is online, the inbox is synced at
  once and then once for every message the server announces, always for this session and manager, over a
  stream opened with its token; the first error of the stream ends this for good: no announcement has any
  effect after it until the session, the manager or the network state changes.\<close>

theorem live_updates_until_error:
  fixes c :: "'m live_sync"
  assumes "c1 = rerun_effect c0" and "lv_session c0 = Some s" and "lv_manager c0 = Some sm" and "lv_online c0"
    and "list_all stream_event evs" and "c = live_run evs c1"
  shows "lv_syncs c = lv_syncs c0 @ replicate (1 + length (takeWhile (\<lambda>e. e \<noteq> StreamError) evs)) (s, sm)
    \<and> lv_stream c1 = Some (events_url s) \<and> (lv_stream c = None \<longleftrightarrow> StreamError \<in> set evs)
    \<and> (\<forall>more. StreamError \<in> set evs \<and> list_all stream_event more \<longrightarrow> live_run more c = c)"
proof -
  have c1: "c1 = c1" "lv_stream c1 = Some (events_url s)" "lv_session c1 = Some s" "lv_manager c1 = Some sm"
      "lv_syncs c1 = lv_syncs c0 @ [(s, sm)]"
    using assms(2-4) by (auto simp: assms(1) rerun_effect_def sync_effect_def close_stream_def split: option.split)
  note r = open_run [OF assms(5) c1(2-4), folded assms(6)]
  show ?thesis using r c1 closed_run [of _ c] by auto
qed

definition demo_live :: "nat live_sync" where
  "demo_live = (live_init True)\<lparr>lv_session := Some demo_receiver, lv_manager := Some 1\<rparr>"

theorem live_updates_until_error_witness:
  "length (lv_syncs (live_run [NewMessage, StreamError, NewMessage] (rerun_effect demo_live))) = 2
   \<and> lv_stream (live_run [NewMessage, StreamError, NewMessage] (rerun_effect demo_live)) = None"
  using live_updates_until_error [where ?c0.0 = demo_live and s = demo_receiver and sm = 1 and evs = "[NewMessage, StreamError, NewMessage]",
      OF refl _ _ _ _ refl]
  by (simp add: demo_live_def live_init_def stream_event_def)

end
