(* ===== verification/Spec2Isabelle.thy ===== *)
theory Spec2Isabelle
  imports Client Worker Schema Timeline ChatRows MediaView Scroll Forms LiveSync
begin

text \<open>
  A verification development for the web client of atmin.net, an end-to-end encrypted messenger
  (web/src, TypeScript). The client derives every key from a password, keeps its messages, Megolm
  sessions and keys in IndexedDB and its session in localStorage, exchanges encrypted envelopes through an
  object store behind an HTTP server, and shows the result with React hooks.

  \<^bold>\<open>How the parts interact.\<close> A hook of the user interface (sign in, compose, open a chat, change the password)
  runs a handler; handlers call the library modules (messaging, backups, key chain, read markers), which
  call the HTTP client and the database. An inbox sync decrypts what the server holds, saves it, and tells
  the hooks to read the database again.

  \<^bold>\<open>The model.\<close> An \<open>async\<close> function is a function from a world to a result and the next world
  (theory Prelude); the world (theory Platform) holds the database, localStorage, the state of the session
  manager and the state of everything outside. What is not in the repository's TypeScript (the server,
  the clock, the random generator, WebCrypto, the Megolm library, Argon2id, the image codec) is a field of
  the record \<open>platform\<close>, an argument of every definition that uses it; the laws a theorem needs of it
  (decryption inverts encryption, a stored object is read back) are hypotheses named there, and the
  witnesses instantiate them. Errors are values; an await that may be overtaken by other code is an event
  of a state machine.

  \<^bold>\<open>The theories.\<close>
  \<^item> Prelude, Platform, Store: effects and their preservation rules, strings, the world, object stores.
  \<^item> Json, Base64, Paths, Media, Payload, Envelope, KeyEnvelope: the data formats (JSON, base64url,
    lib/paths.ts, lib/media.ts, lib/payload.ts, lib/envelope.ts, lib/key-backup-envelope.ts), with their
    round trips. The locale \<open>codec\<close> is the contract of an encoder and its decoder, interpreted on each.
  \<^item> Schema, Idb, Conversations: lib/db.ts, the schema upgrade, the simple stores, and the messages with
    the summaries of their conversations.
  \<^item> Api, Crypto: lib/api.ts with its retries and error classes, lib/crypto.ts over the primitives.
  \<^item> KeyChain, KeyBackup, Megolm: lib/key-chain.ts, lib/key-backup.ts, lib/contact-backup.ts,
    lib/megolm-session.ts.
  \<^item> Messaging, Delivery, InboxSync: lib/messaging.ts, lib/amendments.ts, lib/inbox-sync.ts; what sending and
    receiving guarantee together.
  \<^item> Materializer: the bubbles of a chat from its rows (hooks/useChat.ts).
  \<^item> ReadMarkers: lib/read-markers.ts; the locale \<open>replica_merge\<close> is the contract of merged replicas.
  \<^item> Auth, Account, Rotation, Handles, SessionHook, Wire: lib/auth.ts and the account flows
    (hooks/useLogin.ts, useRegister.ts, useDevices.ts, useDeleteAccount.ts, useRotateKeys.ts, useSession.ts,
    useHandleAvailability.ts); Wire states which requests a flow can make.
  \<^item> Worker: the Argon2id worker and its client.
  \<^item> Image, ChatSend, MediaLoader, MediaView, ChatOpen: photos, the compose and message handlers, the
    attachment loader and what a bubble shows of it, opening a chat.
  \<^item> Composer, Scroll, Timeline: a chat on screen (routes/chat.tsx, components/ChatView.tsx and
    MessageActions.tsx, hooks/useDraft.ts, useComposeAttachment.ts, useSWUpdate.ts, useChatScroll.ts,
    lib/timeline.ts): drafts, attachments and edits, the scroll position, the dividers.
  \<^item> Chats, ChatRows, Routes, LiveSync: the chat list and the badge (hooks/useConversations.ts,
    useAppBadge.ts, components/ChatsView.tsx), the router (routes/app.tsx), the event stream
    (hooks/useInboxSync.ts).
  \<^item> Forms: what the account forms ask for (components/RegisterForm.tsx and its siblings) and the
    password meter (hooks/usePasswordStrength.ts).
  \<^item> Client: the handlers that write the database, over one world.

  \<^bold>\<open>What the theorems show.\<close> The data formats are read back as written. Every operation of the
  stores keeps the database typed, whatever fails, and so do the handlers of theory Client. A message that is sent is read by its
  recipient, once, and its key goes to whoever lacks it; whatever fails, an archive is marked as ingested only
  when its messages are stored, but for those that threw when they were opened, which the log of the run
  names; a chat summary shows its last bubble; only the author's amendments take effect. A rotation of the
  password commits after its chain link and keeps every key reachable that the chain it read reached; when
  that read fails, the older keys are lost. The walk over the chain finds the right key. Read
  watermarks converge on all devices. An uploaded attachment is what its reader opens; of a JPEG, PNG or WebP
  sent optimized nothing but its re-encoding leaves the device; object URLs do not leak. The published session
  manager belongs to the shown session; a chat shows the conversation it has open, announces each of its
  days once and each new message, and keeps every draft. A row of the chat list opens the chat it shows. The
  form registers exactly the handle the server called free. Live updates sync for the current session until
  their stream fails. Where the code does
  otherwise than it means to, the theorem states what it does and the finding names it.

  \<^bold>\<open>Bounds and fuel.\<close> Loops over data are structural. \<open>list_pages\<close> follows the cursor of a paged
  listing for at most \<open>pl_page_limit\<close> pages, which the completeness theorem assumes to be at least the
  pages the server has; the walk over the key chain has as many steps as versions lie between; the retries
  have the code's own limits; the JSON parser's fuel is the length of its text, proved enough for every
  text that is written. JavaScript numbers are integers where the code only uses integers; the scaling of
  photos rounds through a parameter with the law of a double.

  \<^bold>\<open>Not modelled.\<close> Markup, styles, themes, animation and the purely presentational components; the service
  worker; the wasm loader; the password scorer (a library); the height of the text field, the storage
  indicator and the timers of notices, which only display; and everything that is not the web client: the
  Rust server, the Rust crypto crate, the site, scripts and tests. In the state machines of the hooks a state
  change and the effects React runs for it are one step, so the render in which a new session stands beside
  the old manager is not seen. The deletion of the database is the run in which no other tab blocks it for
  good. Inbound JSON that has not the declared types is skipped or read as empty as a whole; the code looks
  only at the fields it uses. The concurrent requests of a \<open>Promise.all\<close> run one after the other. A promise that is started and not awaited runs to its
  end where it is started, one of the orders the event loop allows, except where a state machine makes the
  orders explicit.
\<close>

end
